(* ===== verification/WG_Prelude.thy ===== *)
theory WG_Prelude
  imports Main "HOL-Library.Word"
begin

unbundle bit_operations_syntax

text \<open>
  Types, constants and generic lemmas that the components share. Machine integers are
  words of the width the C declaration has; the platform is the one the module is built
  for (little endian, 64-bit long), so \<open>BITS_PER_LONG\<close> is 64.

  The kernel primitives the sources are written in are modelled here the way a standard
  library is: reference counts, byte loads, and the bit scan functions.
\<close>

section \<open>Collections of rewrite rules\<close>

named_theorems wg_defs \<open>definitions that proofs unfold together\<close>
named_theorems wg_word \<open>facts that move word arithmetic to natural numbers\<close>

section \<open>Machine integers\<close>

type_synonym u8 = "8 word"
type_synonym u16 = "16 word"
type_synonym u32 = "32 word"
type_synonym u64 = "64 word"

type_synonym bytes = "u8 list"

text \<open>Kernel objects are named by their address or, for peers, by an identifier.\<close>

type_synonym addr = nat
type_synonym peer_id = nat

lemmas [wg_word] = word_less_nat_alt word_le_nat_alt

lemma unat_plus_no_wrap [wg_word]:
  fixes a b :: "'a::len word"
  assumes "unat a + unat b < 2 ^ LENGTH('a)"
  shows "unat (a + b) = unat a + unat b"
  using assms by (simp add: unat_word_ariths)

lemma unat_minus_no_wrap [wg_word]:
  fixes a b :: "'a::len word"
  assumes "b \<le> a"
  shows "unat (a - b) = unat a - unat b"
  using assms by (rule unat_sub)

lemma unat_lt_u64 [simp]: "unat (x :: u64) < 18446744073709551616"
  using unsigned_less [of x] by simp

lemma unat_lt_u8 [simp]: "unat (x :: u8) < 256"
  using unsigned_less [of x] by simp

section \<open>Integers in memory\<close>

text \<open>A little-endian load of an unsigned integer from memory.\<close>

fun load_le :: "bytes \<Rightarrow> 'a::len word" where
  "load_le [] = 0"
| "load_le (b # bs) = ucast b OR push_bit 8 (load_le bs)"

definition store_le :: "nat \<Rightarrow> 'a::len word \<Rightarrow> bytes" where
  "store_le n w = map (\<lambda>i. ucast (drop_bit (8 * i) w)) [0..<n]"

lemma bit_load_le:
  "bit (load_le bs :: 'a::len word) i \<longleftrightarrow>
     i < LENGTH('a) \<and> i div 8 < length bs \<and> bit (bs ! (i div 8)) (i mod 8)"
proof (induction bs arbitrary: i)
  case Nil
  then show ?case by simp
next
  case (Cons b bs)
  show ?case
  proof (cases "i < 8")
    case True
    then show ?thesis by (auto simp: bit_or_iff bit_push_bit_iff bit_ucast_iff)
  next
    case False
    then have "\<not> bit b i" by (auto dest: bit_imp_le_length)
    moreover have "i div 8 = Suc ((i - 8) div 8)" "i mod 8 = (i - 8) mod 8"
      using False by (simp_all add: le_div_geq le_mod_geq)
    ultimately show ?thesis
      using False Cons.IH [of "i - 8"]
      by (auto simp: bit_or_iff bit_push_bit_iff bit_ucast_iff)
  qed
qed

lemma length_store_le [simp]: "length (store_le n w) = n"
  by (simp add: store_le_def)

lemma store_le_Suc:
  "store_le (Suc n) w = ucast w # store_le n (drop_bit 8 w)"
  by (simp add: store_le_def upt_conv_Cons map_Suc_upt [symmetric] del: upt_Suc)
    (simp add: drop_bit_drop_bit algebra_simps)

lemma load_store_le [simp]:
  assumes "LENGTH('a) = 8 * n"
  shows "load_le (store_le n w) = (w :: 'a::len word)"
proof (rule bit_word_eqI)
  fix i assume "i < LENGTH('a)"
  moreover have "8 * (i div 8) + i mod 8 = i" by simp
  ultimately show "bit (load_le (store_le n w) :: 'a word) i = bit w i"
    using assms by (auto simp: bit_load_le store_le_def bit_ucast_iff bit_drop_bit_eq)
qed

section \<open>Error codes\<close>

text \<open>The error numbers the sources return, without the sign.\<close>

datatype errno =
    EINVAL | ENOMEM | ENOSPC | EPIPE | EBUSY | EPERM | ENODEV | EOPNOTSUPP | EPFNOSUPPORT
  | EAFNOSUPPORT | ENONET | ENOKEY | EDESTADDRREQ | EPROTONOSUPPORT | EMSGSIZE | EBADR
  | EADDRINUSE | ENOTRECOVERABLE | EOTHER nat

section \<open>Lists\<close>

lemma nth_list_update_if:
  "i < length xs \<Longrightarrow> xs[i := x] ! j = (if i = j then x else xs ! j)"
  by (cases "i = j") auto

end
