(* ===== verification/WG_Messages.thy ===== *)
theory WG_Messages
  imports WG_Prelude
begin

text \<open>
  The constants of \<^verbatim>\<open>messages.h\<close>: lengths of the Noise values, the limits that drive
  rekeying, the message types and the four message formats. The C code overlays packed
  structures on packet memory; here a message is a record and \<open>encode\<close> and \<open>decode\<close> functions give
  its layout in memory, with the integers little endian.
\<close>

unbundle bit_operations_syntax

section \<open>Lengths\<close>

definition NOISE_PUBLIC_KEY_LEN :: nat where [simp]: "NOISE_PUBLIC_KEY_LEN = 32"
definition NOISE_SYMMETRIC_KEY_LEN :: nat where [simp]: "NOISE_SYMMETRIC_KEY_LEN = 32"
definition NOISE_TIMESTAMP_LEN :: nat where [simp]: "NOISE_TIMESTAMP_LEN = 8 + 4"
definition NOISE_AUTHTAG_LEN :: nat where [simp]: "NOISE_AUTHTAG_LEN = 16"
definition NOISE_HASH_LEN :: nat where [simp]: "NOISE_HASH_LEN = 32"

definition noise_encrypted_len :: "nat \<Rightarrow> nat" where
  [simp]: "noise_encrypted_len plain_len = plain_len + NOISE_AUTHTAG_LEN"

definition COOKIE_SECRET_MAX_AGE :: u64 where "COOKIE_SECRET_MAX_AGE = 2 * 60"
definition COOKIE_SECRET_LATENCY :: u64 where "COOKIE_SECRET_LATENCY = 5"
definition COOKIE_NONCE_LEN :: nat where [simp]: "COOKIE_NONCE_LEN = 24"
definition COOKIE_LEN :: nat where [simp]: "COOKIE_LEN = 16"

section \<open>Time\<close>

definition NSEC_PER_SEC :: u64 where
  "NSEC_PER_SEC = 1000000000"

section \<open>Replay window\<close>

definition BITS_PER_LONG :: nat where
  [simp]: "BITS_PER_LONG = 64"

definition COUNTER_BITS_TOTAL :: nat where
  "COUNTER_BITS_TOTAL = 8192"

definition COUNTER_REDUNDANT_BITS :: nat where
  "COUNTER_REDUNDANT_BITS = BITS_PER_LONG"

definition COUNTER_WINDOW_SIZE :: nat where
  "COUNTER_WINDOW_SIZE = COUNTER_BITS_TOTAL - COUNTER_REDUNDANT_BITS"

section \<open>Limits\<close>

definition U64_MAX :: u64 where
  "U64_MAX = -1"

definition REKEY_AFTER_MESSAGES :: u64 where
  "REKEY_AFTER_MESSAGES = push_bit 60 1"

definition REJECT_AFTER_MESSAGES :: u64 where
  "REJECT_AFTER_MESSAGES = U64_MAX - of_nat COUNTER_WINDOW_SIZE - 1"

definition REKEY_TIMEOUT :: nat where [simp]: "REKEY_TIMEOUT = 5"
definition REKEY_TIMEOUT_JITTER_MAX_JIFFIES :: "nat \<Rightarrow> nat" where
  "REKEY_TIMEOUT_JITTER_MAX_JIFFIES HZ = HZ div 3"
definition REKEY_AFTER_TIME :: nat where [simp]: "REKEY_AFTER_TIME = 120"
definition REJECT_AFTER_TIME :: nat where [simp]: "REJECT_AFTER_TIME = 180"
definition INITIATIONS_PER_SECOND :: nat where "INITIATIONS_PER_SECOND = 50"
definition MAX_PEERS_PER_DEVICE :: nat where "MAX_PEERS_PER_DEVICE = 2 ^ 20"
definition KEEPALIVE_TIMEOUT :: nat where [simp]: "KEEPALIVE_TIMEOUT = 10"
definition MAX_TIMER_HANDSHAKES :: nat where "MAX_TIMER_HANDSHAKES = 90 div REKEY_TIMEOUT"
definition MAX_QUEUED_INCOMING_HANDSHAKES :: nat where "MAX_QUEUED_INCOMING_HANDSHAKES = 4096"
definition MAX_STAGED_PACKETS :: nat where "MAX_STAGED_PACKETS = 128"
definition MAX_QUEUED_PACKETS :: nat where "MAX_QUEUED_PACKETS = 1024"

section \<open>Members in memory\<close>

text \<open>\<open>field off len bs\<close> is the member at offset \<open>off\<close> of a packed structure.\<close>

definition field :: "nat \<Rightarrow> nat \<Rightarrow> bytes \<Rightarrow> bytes" where
  "field off len bs = take len (drop off bs)"

section \<open>Messages\<close>

definition MESSAGE_INVALID :: u32 where "MESSAGE_INVALID = 0"
definition MESSAGE_HANDSHAKE_INITIATION :: u32 where "MESSAGE_HANDSHAKE_INITIATION = 1"
definition MESSAGE_HANDSHAKE_RESPONSE :: u32 where "MESSAGE_HANDSHAKE_RESPONSE = 2"
definition MESSAGE_HANDSHAKE_COOKIE :: u32 where "MESSAGE_HANDSHAKE_COOKIE = 3"
definition MESSAGE_DATA :: u32 where "MESSAGE_DATA = 4"

record message_macs =
  mac1 :: bytes
  mac2 :: bytes

record message_handshake_initiation =
  mi_type :: u32
  mi_sender_index :: u32
  mi_unencrypted_ephemeral :: bytes
  mi_encrypted_static :: bytes
  mi_encrypted_timestamp :: bytes
  mi_macs :: message_macs

record message_handshake_response =
  mr_type :: u32
  mr_sender_index :: u32
  mr_receiver_index :: u32
  mr_unencrypted_ephemeral :: bytes
  mr_encrypted_nothing :: bytes
  mr_macs :: message_macs

record message_handshake_cookie =
  mc_type :: u32
  mc_receiver_index :: u32
  mc_nonce :: bytes
  mc_encrypted_cookie :: bytes

record message_data =
  md_type :: u32
  md_key_idx :: u32
  md_counter :: u64

text \<open>The sizes of the structures.\<close>

definition sizeof_header :: nat where [simp]: "sizeof_header = 4"
definition sizeof_macs :: nat where [simp]: "sizeof_macs = 2 * COOKIE_LEN"
definition sizeof_initiation :: nat where
  "sizeof_initiation = sizeof_header + 4 + NOISE_PUBLIC_KEY_LEN +
     noise_encrypted_len NOISE_PUBLIC_KEY_LEN + noise_encrypted_len NOISE_TIMESTAMP_LEN + sizeof_macs"
definition sizeof_response :: nat where
  "sizeof_response = sizeof_header + 4 + 4 + NOISE_PUBLIC_KEY_LEN + noise_encrypted_len 0 + sizeof_macs"
definition sizeof_cookie :: nat where
  "sizeof_cookie = sizeof_header + 4 + COOKIE_NONCE_LEN + noise_encrypted_len COOKIE_LEN"
definition sizeof_data :: nat where
  "sizeof_data = sizeof_header + 4 + 8"

definition message_data_len :: "nat \<Rightarrow> nat" where
  "message_data_len plain_len = noise_encrypted_len plain_len + sizeof_data"

definition MESSAGE_PADDING_MULTIPLE :: nat where [simp]: "MESSAGE_PADDING_MULTIPLE = 16"
definition MESSAGE_MINIMUM_LENGTH :: nat where "MESSAGE_MINIMUM_LENGTH = message_data_len 0"

definition ALIGN :: "nat \<Rightarrow> nat \<Rightarrow> nat" where
  "ALIGN x a = (x + a - 1) div a * a"

text \<open>\<^verbatim>\<open>NET_SKB_PAD\<close> depends on the kernel's configuration; it is an argument.\<close>

definition SKB_HEADER_LEN :: "nat \<Rightarrow> nat" where
  "SKB_HEADER_LEN NET_SKB_PAD = max 20 40 + 8 + NET_SKB_PAD"

definition DATA_PACKET_HEAD_ROOM :: "nat \<Rightarrow> nat" where
  "DATA_PACKET_HEAD_ROOM NET_SKB_PAD = ALIGN (sizeof_data + SKB_HEADER_LEN NET_SKB_PAD) 4"

definition HANDSHAKE_DSCP :: u8 where "HANDSHAKE_DSCP = 0x88"

text \<open>The layout of the messages.\<close>

definition encode_macs :: "message_macs \<Rightarrow> bytes" where
  "encode_macs m = mac1 m @ mac2 m"

definition decode_macs :: "bytes \<Rightarrow> message_macs" where
  "decode_macs bs = \<lparr>mac1 = field 0 COOKIE_LEN bs, mac2 = field COOKIE_LEN COOKIE_LEN bs\<rparr>"

definition encode_initiation :: "message_handshake_initiation \<Rightarrow> bytes" where
  "encode_initiation m =
     store_le 4 (mi_type m) @ store_le 4 (mi_sender_index m) @ mi_unencrypted_ephemeral m @
     mi_encrypted_static m @ mi_encrypted_timestamp m @ encode_macs (mi_macs m)"

definition decode_initiation :: "bytes \<Rightarrow> message_handshake_initiation" where
  "decode_initiation bs =
     \<lparr>mi_type = load_le (field 0 4 bs), mi_sender_index = load_le (field 4 4 bs),
      mi_unencrypted_ephemeral = field 8 32 bs, mi_encrypted_static = field 40 48 bs,
      mi_encrypted_timestamp = field 88 28 bs, mi_macs = decode_macs (drop 116 bs)\<rparr>"

definition encode_response :: "message_handshake_response \<Rightarrow> bytes" where
  "encode_response m =
     store_le 4 (mr_type m) @ store_le 4 (mr_sender_index m) @ store_le 4 (mr_receiver_index m) @
     mr_unencrypted_ephemeral m @ mr_encrypted_nothing m @ encode_macs (mr_macs m)"

definition decode_response :: "bytes \<Rightarrow> message_handshake_response" where
  "decode_response bs =
     \<lparr>mr_type = load_le (field 0 4 bs), mr_sender_index = load_le (field 4 4 bs),
      mr_receiver_index = load_le (field 8 4 bs), mr_unencrypted_ephemeral = field 12 32 bs,
      mr_encrypted_nothing = field 44 16 bs, mr_macs = decode_macs (drop 60 bs)\<rparr>"

definition encode_cookie :: "message_handshake_cookie \<Rightarrow> bytes" where
  "encode_cookie m =
     store_le 4 (mc_type m) @ store_le 4 (mc_receiver_index m) @ mc_nonce m @ mc_encrypted_cookie m"

definition decode_cookie :: "bytes \<Rightarrow> message_handshake_cookie" where
  "decode_cookie bs =
     \<lparr>mc_type = load_le (field 0 4 bs), mc_receiver_index = load_le (field 4 4 bs),
      mc_nonce = field 8 24 bs, mc_encrypted_cookie = field 32 32 bs\<rparr>"

definition encode_data :: "message_data \<Rightarrow> bytes" where
  "encode_data m = store_le 4 (md_type m) @ store_le 4 (md_key_idx m) @ store_le 8 (md_counter m)"

definition decode_data :: "bytes \<Rightarrow> message_data" where
  "decode_data bs =
     \<lparr>md_type = load_le (field 0 4 bs), md_key_idx = load_le (field 4 4 bs),
      md_counter = load_le (field 8 8 bs)\<rparr>"

text \<open>The members of a message have the lengths their declarations give them.\<close>

definition macs_ok :: "message_macs \<Rightarrow> bool" where
  "macs_ok m \<longleftrightarrow> length (mac1 m) = COOKIE_LEN \<and> length (mac2 m) = COOKIE_LEN"

definition initiation_ok :: "message_handshake_initiation \<Rightarrow> bool" where
  "initiation_ok m \<longleftrightarrow>
     length (mi_unencrypted_ephemeral m) = NOISE_PUBLIC_KEY_LEN \<and>
     length (mi_encrypted_static m) = noise_encrypted_len NOISE_PUBLIC_KEY_LEN \<and>
     length (mi_encrypted_timestamp m) = noise_encrypted_len NOISE_TIMESTAMP_LEN \<and> macs_ok (mi_macs m)"

definition response_ok :: "message_handshake_response \<Rightarrow> bool" where
  "response_ok m \<longleftrightarrow>
     length (mr_unencrypted_ephemeral m) = NOISE_PUBLIC_KEY_LEN \<and>
     length (mr_encrypted_nothing m) = noise_encrypted_len 0 \<and> macs_ok (mr_macs m)"

definition cookie_ok :: "message_handshake_cookie \<Rightarrow> bool" where
  "cookie_ok m \<longleftrightarrow>
     length (mc_nonce m) = COOKIE_NONCE_LEN \<and>
     length (mc_encrypted_cookie m) = noise_encrypted_len COOKIE_LEN"

section \<open>Lemmas\<close>

lemma COUNTER_WINDOW_SIZE_eq [simp]: "COUNTER_WINDOW_SIZE = 8128"
  by (simp add: COUNTER_WINDOW_SIZE_def COUNTER_BITS_TOTAL_def COUNTER_REDUNDANT_BITS_def)

lemma REJECT_AFTER_MESSAGES_eq: "REJECT_AFTER_MESSAGES = 18446744073709543486"
  by (simp add: REJECT_AFTER_MESSAGES_def U64_MAX_def)

lemma unat_REJECT_AFTER_MESSAGES [simp]:
  "unat REJECT_AFTER_MESSAGES = 18446744073709543486"
  by (simp add: REJECT_AFTER_MESSAGES_eq)

lemma field_skip [simp]:
  "length xs \<le> off \<Longrightarrow> field off n (xs @ ys) = field (off - length xs) n ys"
  by (simp add: field_def)

lemma field_take [simp]:
  "n = length xs \<Longrightarrow> field 0 n (xs @ ys) = xs"
  "n = length xs \<Longrightarrow> field 0 n xs = xs"
  by (simp_all add: field_def)

lemmas message_lengths =
  sizeof_initiation_def sizeof_response_def sizeof_cookie_def sizeof_data_def

lemmas encode_decode =
  encode_initiation_def decode_initiation_def encode_response_def decode_response_def
  encode_cookie_def decode_cookie_def encode_data_def decode_data_def
  encode_macs_def decode_macs_def



end
