(* ===== verification/WG_Counter.thy ===== *)
theory WG_Counter
  imports WG_Messages
begin

unbundle bit_operations_syntax

text \<open>
  The replay filter of the data path: \<^verbatim>\<open>struct noise_replay_counter\<close> (noise.h) and
  \<^verbatim>\<open>counter_validate\<close> (receive.c), the RFC 6479 bitmap. The bitmap is a ring of 128
  words of 64 bits; the concrete filter is refined to the set of the counters it has
  accepted. The locale \<open>replay_filter\<close> is what the receive path relies on.
\<close>

section \<open>The filter as the code has it\<close>

record noise_replay_counter =
  counter :: u64
  backtrack :: "u64 list"

definition BACKTRACK_WORDS :: nat where
  "BACKTRACK_WORDS = COUNTER_BITS_TOTAL div BITS_PER_LONG"

definition replay_counter_init :: noise_replay_counter where
  "replay_counter_init = \<lparr>counter = 0, backtrack = replicate BACKTRACK_WORDS 0\<rparr>"

text \<open>The loop \<^verbatim>\<open>for (i = 1; i <= top; ++i)\<close> that clears the words the window slides over.\<close>

fun clear_backtrack :: "nat \<Rightarrow> u64 \<Rightarrow> u64 list \<Rightarrow> u64 list" where
  "clear_backtrack 0 index_current bt = bt"
| "clear_backtrack (Suc i) index_current bt =
     (clear_backtrack i index_current bt)
       [unat ((of_nat (Suc i) + index_current) AND (of_nat BACKTRACK_WORDS - 1)) := 0]"

definition test_and_set_bit :: "nat \<Rightarrow> u64 \<Rightarrow> bool \<times> u64" where
  "test_and_set_bit n w = (bit w n, set_bit n w)"

text \<open>The branch taken when the received counter is the largest so far.\<close>

definition slide_window :: "noise_replay_counter \<Rightarrow> u64 \<Rightarrow> noise_replay_counter" where
  "slide_window c their_counter =
     (if their_counter > counter c then
        let index = drop_bit 6 their_counter;
            index_current = drop_bit 6 (counter c);
            top = min (index - index_current) (of_nat BACKTRACK_WORDS)
        in c\<lparr>counter := their_counter,
             backtrack := clear_backtrack (unat top) index_current (backtrack c)\<rparr>
      else c)"

definition counter_validate ::
    "noise_replay_counter \<Rightarrow> u64 \<Rightarrow> bool \<times> noise_replay_counter" where
  "counter_validate c their_counter =
     (if counter c \<ge> REJECT_AFTER_MESSAGES + 1 \<or> their_counter \<ge> REJECT_AFTER_MESSAGES
      then (False, c)
      else
        let their_counter = their_counter + 1 in
        if of_nat COUNTER_WINDOW_SIZE + their_counter < counter c then (False, c)
        else
          let index = drop_bit 6 their_counter;
              c = slide_window c their_counter;
              index = index AND (of_nat BACKTRACK_WORDS - 1);
              (old, w) = test_and_set_bit
                 (unat (their_counter AND (of_nat BITS_PER_LONG - 1)))
                 (backtrack c ! unat index)
          in (\<not> old, c\<lparr>backtrack := (backtrack c)[unat index := w]\<rparr>))"

text \<open>A run of the filter over the counters of the packets in the order they arrive.\<close>

fun validate_run ::
    "('s \<Rightarrow> 'n \<Rightarrow> bool \<times> 's) \<Rightarrow> 's \<Rightarrow> 'n list \<Rightarrow> 'n list \<times> 's" where
  "validate_run validate c [] = ([], c)"
| "validate_run validate c (n # ns) =
     (let (ok, c) = validate c n; (accepted, c) = validate_run validate c ns
      in (if ok then n # accepted else accepted, c))"

section \<open>The set of accepted counters\<close>

definition window_top :: "nat set \<Rightarrow> nat" where
  "window_top S = (if S = {} then 0 else Suc (Max S))"

definition replay_accepts :: "nat set \<Rightarrow> nat \<Rightarrow> bool" where
  "replay_accepts S n \<longleftrightarrow>
     n < unat REJECT_AFTER_MESSAGES \<and> n \<notin> S \<and> window_top S \<le> COUNTER_WINDOW_SIZE + Suc n"

definition tracks :: "noise_replay_counter \<Rightarrow> nat set \<Rightarrow> bool" where
  "tracks c S \<longleftrightarrow>
     length (backtrack c) = BACKTRACK_WORDS \<and> finite S \<and>
     unat (counter c) = window_top S \<and> unat (counter c) \<le> unat REJECT_AFTER_MESSAGES \<and>
     (\<forall>v. 0 < v \<longrightarrow> v div 64 \<le> unat (counter c) div 64 \<longrightarrow>
          unat (counter c) div 64 < v div 64 + 128 \<longrightarrow>
          (bit (backtrack c ! (v div 64 mod 128)) (v mod 64) \<longleftrightarrow> v - 1 \<in> S))"

lemma window_top_insert:
  "finite S \<Longrightarrow> window_top (insert n S) = max (Suc n) (window_top S)"
  by (auto simp: window_top_def)

lemma below_window_top: "finite S \<Longrightarrow> m \<in> S \<Longrightarrow> m < window_top S"
  by (auto simp: window_top_def less_Suc_eq_le)

lemma tracks_bit:
  assumes "tracks c S" "0 < v" "v div 64 \<le> unat (counter c) div 64"
    "unat (counter c) div 64 < v div 64 + 128"
  shows "bit (backtrack c ! (v div 64 mod 128)) (v mod 64) \<longleftrightarrow> v - 1 \<in> S"
  using assms by (auto simp: tracks_def)

section \<open>What the receive path relies on\<close>

locale replay_filter =
  fixes validate :: "'s \<Rightarrow> 'n \<Rightarrow> bool \<times> 's"
    and num :: "'n \<Rightarrow> nat"
    and filters :: "'s \<Rightarrow> nat set \<Rightarrow> bool"
    and accepts :: "nat set \<Rightarrow> nat \<Rightarrow> bool"
  assumes validate_result: "filters c S \<Longrightarrow> fst (validate c n) = accepts S (num n)"
    and validate_state: "filters c S \<Longrightarrow>
      filters (snd (validate c n)) (if accepts S (num n) then insert (num n) S else S)"
    and accepts_fresh: "accepts S m \<Longrightarrow> m \<notin> S"
begin

lemma run_filters:
  "filters c S \<Longrightarrow>
     filters (snd (validate_run validate c ns)) (S \<union> num ` set (fst (validate_run validate c ns)))"
proof (induction ns arbitrary: c S)
  case Nil
  then show ?case by simp
next
  case (Cons n ns)
  have "filters (snd (validate c n)) (if accepts S (num n) then insert (num n) S else S)"
    using Cons.prems by (rule validate_state)
  from Cons.IH [OF this] validate_result [OF Cons.prems, of n] show ?case
    by (auto simp: Let_def split: prod.splits)
qed

lemma run_no_replay:
  "filters c S \<Longrightarrow>
     distinct (map num (fst (validate_run validate c ns))) \<and>
     S \<inter> num ` set (fst (validate_run validate c ns)) = {}"
proof (induction ns arbitrary: c S)
  case Nil
  then show ?case by simp
next
  case (Cons n ns)
  have "filters (snd (validate c n)) (if accepts S (num n) then insert (num n) S else S)"
    using Cons.prems by (rule validate_state)
  from Cons.IH [OF this] validate_result [OF Cons.prems, of n] show ?case
    using accepts_fresh [of S "num n"] by (auto simp: Let_def split: prod.splits if_splits)
qed

lemma run_then_validate:
  "filters c S \<Longrightarrow>
     fst (validate (snd (validate_run validate c ns)) n) =
     accepts (S \<union> num ` set (fst (validate_run validate c ns))) (num n)"
  by (rule validate_result [OF run_filters])

end

section \<open>The bitmap refines the set\<close>

lemma unat_and_127: "unat ((x :: u64) AND 127) = unat x mod 128"
proof -
  have "(127 :: u64) = mask 7" by (simp add: mask_eq_exp_minus_1)
  then have "x AND 127 = take_bit 7 x" by (simp add: take_bit_eq_mask)
  then show ?thesis by (simp add: take_bit_eq_mod unat_mod)
qed

lemma unat_and_63: "unat ((x :: u64) AND 63) = unat x mod 64"
proof -
  have "(63 :: u64) = mask 6" by (simp add: mask_eq_exp_minus_1)
  then have "x AND 63 = take_bit 6 x" by (simp add: take_bit_eq_mask)
  then show ?thesis by (simp add: take_bit_eq_mod unat_mod)
qed

lemma unat_drop_bit_6: "unat (drop_bit 6 (x :: u64)) = unat x div 64"
  by (simp add: drop_bit_eq_div unat_div)

lemma BACKTRACK_WORDS_eq [simp]: "BACKTRACK_WORDS = 128"
  by (simp add: BACKTRACK_WORDS_def COUNTER_BITS_TOTAL_def)

lemma length_clear_backtrack [simp]: "length (clear_backtrack k cur bt) = length bt"
  by (induction k) auto

lemma clear_backtrack_index:
  assumes "i + unat cur < 2 ^ 64"
  shows "unat ((of_nat i + cur) AND (of_nat BACKTRACK_WORDS - 1 :: u64)) = (i + unat cur) mod 128"
proof -
  have "i < 2 ^ 64" using assms by simp
  then have "unat (of_nat i :: u64) = i"
    by (simp add: unat_of_nat)
  then have "unat (of_nat i + cur) = i + unat cur"
    using assms by (subst unat_plus_no_wrap) simp_all
  then show ?thesis
    by (simp add: BACKTRACK_WORDS_eq unat_and_127)
qed

lemma ex_pos_le_Suc:
  "(\<exists>i. 0 < i \<and> i \<le> Suc k \<and> Q i) \<longleftrightarrow> Q (Suc k) \<or> (\<exists>i. 0 < i \<and> i \<le> k \<and> Q i)"
  by (auto simp: le_Suc_eq)

lemma nth_clear_backtrack:
  assumes "length bt = 128" "j < 128" "k + unat cur < 2 ^ 64"
  shows "clear_backtrack k cur bt ! j =
     (if \<exists>i. 0 < i \<and> i \<le> k \<and> (i + unat cur) mod 128 = j then 0 else bt ! j)"
  using assms(3)
proof (induction k)
  case 0
  then show ?case by auto
next
  case (Suc k)
  from Suc.prems have b: "k + unat cur < 2 ^ 64" by simp
  have idx: "unat ((of_nat (Suc k) + cur) AND (of_nat BACKTRACK_WORDS - 1 :: u64)) = (Suc k + unat cur) mod 128"
    using clear_backtrack_index [of "Suc k" cur] Suc.prems by blast
  have "clear_backtrack (Suc k) cur bt ! j =
     (if (Suc k + unat cur) mod 128 = j then 0 else clear_backtrack k cur bt ! j)"
    unfolding clear_backtrack.simps idx using assms(1,2) by (simp add: nth_list_update_if)
  then show ?case
    unfolding Suc.IH [OF b] ex_pos_le_Suc by (auto simp del: clear_backtrack.simps)
qed

lemma tracks_init: "tracks replay_counter_init {}"
  by (auto simp: tracks_def replay_counter_init_def window_top_def)

lemma mod_eq_close:
  fixes x y m :: nat
  assumes eq: "x mod m = y mod m" and close: "x < y + m" "y < x + m"
  shows "x = y"
proof -
  have le: "a = b" if "a \<le> b" "a mod m = b mod m" "b < a + m" for a b
  proof -
    have "m dvd b - a" using that(1,2) by (metis mod_eq_dvd_iff_nat)
    moreover have "b - a < m" using that(1,3) by simp
    ultimately have "b - a = 0" by (metis dvd_imp_le gr0I not_less)
    then show ?thesis using that(1) by simp
  qed
  show ?thesis
    using le [of x y] le [of y x] assms by (metis nle_le)
qed

lemma mod_128_window:
  fixes x y :: nat
  assumes "x mod 128 = y mod 128" "x \<le> i" "y \<le> i" "i < x + 128" "i < y + 128"
  shows "x = y"
  using assms by (intro mod_eq_close [of x 128 y]) simp_all

lemma slide_covers:
  fixes I C x :: nat
  assumes "C < x" "x \<le> I"
  shows "\<exists>i. 0 < i \<and> i \<le> min (I - C) 128 \<and> (i + C) mod 128 = x mod 128"
proof (cases "x - C \<le> 128")
  case True
  with assms show ?thesis by (intro exI [of _ "x - C"]) auto
next
  case False
  let ?i = "Suc ((x - C - 1) mod 128)"
  have "(?i + C) mod 128 = (Suc (x - C - 1) + C) mod 128"
    by (metis add_Suc add_Suc_shift mod_add_left_eq)
  also have "\<dots> = x mod 128" using assms by simp
  finally have "(?i + C) mod 128 = x mod 128" .
  moreover have "?i \<le> 128" by (simp add: Suc_le_eq)
  ultimately show ?thesis using False assms by (intro exI [of _ ?i]) auto
qed

lemma tracks_slide:
  assumes t: "tracks c S" and gt: "counter c < n"
    and v: "0 < v" "v div 64 \<le> unat n div 64" "unat n div 64 < v div 64 + 128"
  shows "bit (backtrack (slide_window c n) ! (v div 64 mod 128)) (v mod 64) \<longleftrightarrow> v - 1 \<in> S"
proof -
  let ?C = "unat (counter c) div 64" and ?I = "unat n div 64"
  let ?k = "min (?I - ?C) 128"
  have lt: "unat (counter c) < unat n" using gt by (simp add: word_less_nat_alt)
  have CI: "?C \<le> ?I" using lt by (simp add: div_le_mono)
  have le: "drop_bit 6 (counter c) \<le> drop_bit 6 n"
    using lt by (simp add: word_le_nat_alt unat_drop_bit_6 div_le_mono)
  have k: "unat (min (drop_bit 6 n - drop_bit 6 (counter c)) 128) = ?k"
    using le by (simp add: min_def word_le_nat_alt unat_minus_no_wrap unat_drop_bit_6 BACKTRACK_WORDS_eq)
  have len: "length (backtrack c) = 128" using t by (simp add: tracks_def BACKTRACK_WORDS_eq)
  have nowrap: "?k + unat (drop_bit 6 (counter c)) < 2 ^ 64"
  proof -
    have "?C < 288230376151711744" by (simp add: less_mult_imp_div_less)
    then have "?k + ?C < 128 + 288230376151711745" by (intro add_le_less_mono) simp_all
    then show ?thesis by (simp add: unat_drop_bit_6)
  qed
  have bt: "backtrack (slide_window c n) ! (v div 64 mod 128) =
     (if \<exists>i. 0 < i \<and> i \<le> ?k \<and> (i + ?C) mod 128 = v div 64 mod 128
      then 0 else backtrack c ! (v div 64 mod 128))"
    using nth_clear_backtrack [OF len _ nowrap, of "v div 64 mod 128"] gt
    by (simp add: slide_window_def Let_def k unat_drop_bit_6)
  show ?thesis
  proof (cases "?C < v div 64")
    case True
    have "\<exists>i. 0 < i \<and> i \<le> ?k \<and> (i + ?C) mod 128 = v div 64 mod 128"
      using slide_covers [OF True v(2)] .
    then have "backtrack (slide_window c n) ! (v div 64 mod 128) = 0" using bt by simp
    moreover have "v - 1 \<notin> S"
    proof
      assume "v - 1 \<in> S"
      then have "v - 1 < unat (counter c)" using t by (auto simp: tracks_def below_window_top)
      then have "v div 64 \<le> ?C" by (simp add: div_le_mono)
      with True show False by simp
    qed
    ultimately show ?thesis by simp
  next
    case False
    have none: "\<nexists>i. 0 < i \<and> i \<le> ?k \<and> (i + ?C) mod 128 = v div 64 mod 128"
    proof
      assume "\<exists>i. 0 < i \<and> i \<le> ?k \<and> (i + ?C) mod 128 = v div 64 mod 128"
      then obtain i where i: "0 < i" "i \<le> ?k" "(i + ?C) mod 128 = v div 64 mod 128" by blast
      have le_I: "i + ?C \<le> ?I" using i(2) CI by (simp add: le_diff_conv2)
      have "i + ?C = v div 64"
        by (rule mod_128_window [OF i(3), of ?I]) (use le_I v(2,3) False in auto)
      with i(1) False show False by simp
    qed
    have "backtrack (slide_window c n) ! (v div 64 mod 128) = backtrack c ! (v div 64 mod 128)"
      by (simp only: bt none if_False)
    then show ?thesis
      using tracks_bit [OF t v(1)] False v(3) CI by simp
  qed
qed

lemma counter_validate_cases:
  assumes "tracks c S"
  shows "counter_validate c n =
   (if n \<ge> REJECT_AFTER_MESSAGES \<or> of_nat COUNTER_WINDOW_SIZE + (n + 1) < counter c then (False, c)
    else let c' = slide_window c (n + 1);
       i = unat (n + 1) div 64 mod 128; j = unat (n + 1) mod 64
     in (\<not> bit (backtrack c' ! i) j, c'\<lparr>backtrack := (backtrack c')[i := set_bit j (backtrack c' ! i)]\<rparr>))"
proof -
  have "\<not> REJECT_AFTER_MESSAGES + 1 \<le> counter c"
    using assms by (simp add: tracks_def word_le_nat_alt REJECT_AFTER_MESSAGES_eq)
  then show ?thesis
    by (simp add: counter_validate_def Let_def test_and_set_bit_def BACKTRACK_WORDS_eq unat_and_127
        unat_and_63 unat_drop_bit_6)
qed

lemma unat_window:
  "unat n < unat REJECT_AFTER_MESSAGES \<Longrightarrow>
     unat (of_nat COUNTER_WINDOW_SIZE + (n + 1) :: u64) = COUNTER_WINDOW_SIZE + Suc (unat n)"
  by (simp add: unat_plus_no_wrap)

lemma tracks_set_bit:
  assumes len: "length (backtrack c) = 128" and fin: "finite S"
    and bits: "\<And>v. 0 < v \<Longrightarrow> v div 64 \<le> unat (counter c) div 64 \<Longrightarrow>
          unat (counter c) div 64 < v div 64 + 128 \<Longrightarrow>
          bit (backtrack c ! (v div 64 mod 128)) (v mod 64) \<longleftrightarrow> v - 1 \<in> S"
    and top: "unat (counter c) = max (Suc n) (window_top S)" "unat (counter c) \<le> unat REJECT_AFTER_MESSAGES"
    and win: "unat (counter c) \<le> COUNTER_WINDOW_SIZE + Suc n"
  shows "tracks (c\<lparr>backtrack := (backtrack c)[Suc n div 64 mod 128 :=
      set_bit (Suc n mod 64) (backtrack c ! (Suc n div 64 mod 128))]\<rparr>) (insert n S)"
proof -
  let ?C = "unat (counter c) div 64" and ?i = "Suc n div 64 mod 128"
  have le: "Suc n div 64 \<le> ?C" using top(1) by (simp add: div_le_mono)
  have "?C \<le> (127 * 64 + Suc n) div 64" using win by (intro div_le_mono) simp
  then have in_win: "?C < Suc n div 64 + 128" by simp
  have "bit ((backtrack c)[?i := set_bit (Suc n mod 64) (backtrack c ! ?i)] ! (v div 64 mod 128)) (v mod 64)
     \<longleftrightarrow> v - 1 \<in> insert n S"
    if v: "0 < v" "v div 64 \<le> ?C" "?C < v div 64 + 128" for v
  proof -
    have same: "v div 64 mod 128 = ?i \<longleftrightarrow> v div 64 = Suc n div 64"
      using mod_128_window [of "v div 64" "Suc n div 64" ?C] v le in_win by auto
    have eq: "v = Suc n \<longleftrightarrow> v div 64 = Suc n div 64 \<and> v mod 64 = Suc n mod 64"
      by (metis div_mult_mod_eq)
    have "v - 1 = n \<longleftrightarrow> v = Suc n" using v(1) by auto
    moreover have "v mod 64 < 64" by simp
    ultimately show ?thesis
      using bits [OF v] len eq same
      by (auto simp: nth_list_update_if bit_set_bit_iff)
  qed
  then show ?thesis
    using len fin top by (simp add: tracks_def BACKTRACK_WORDS_eq window_top_insert)
qed

lemma counter_validate_tracks:
  assumes t: "tracks c S"
  shows "fst (counter_validate c n) = replay_accepts S (unat n) \<and>
     tracks (snd (counter_validate c n)) (if replay_accepts S (unat n) then insert (unat n) S else S)"
proof (cases "n \<ge> REJECT_AFTER_MESSAGES \<or> of_nat COUNTER_WINDOW_SIZE + (n + 1) < counter c")
  case True
  then have "counter_validate c n = (False, c)" by (simp add: counter_validate_cases [OF t])
  moreover have "\<not> replay_accepts S (unat n)"
    using True t unat_window by (auto simp: replay_accepts_def tracks_def word_le_nat_alt word_less_nat_alt)
  ultimately show ?thesis using t by simp
next
  case False
  have n: "unat n < unat REJECT_AFTER_MESSAGES" using False by (simp add: word_le_nat_alt)
  have Sn: "unat (n + 1) = Suc (unat n)" using n by (simp add: unat_plus_no_wrap)
  let ?c = "slide_window c (n + 1)"
  let ?i = "Suc (unat n) div 64 mod 128" and ?j = "Suc (unat n) mod 64"
  have step: "counter_validate c n = (\<not> bit (backtrack ?c ! ?i) ?j,
      ?c\<lparr>backtrack := (backtrack ?c)[?i := set_bit ?j (backtrack ?c ! ?i)]\<rparr>)"
    using False by (simp add: counter_validate_cases [OF t] Let_def Sn)
  have win: "unat (counter c) \<le> COUNTER_WINDOW_SIZE + Suc (unat n)"
    using False n unat_window [of n] by (simp add: word_less_nat_alt)
  have ctr: "counter ?c = max (counter c) (n + 1)"
    by (auto simp: slide_window_def Let_def max_def)
  have top: "unat (counter ?c) = max (Suc (unat n)) (window_top S)"
    using t Sn by (auto simp: ctr tracks_def max_def word_le_nat_alt)
  have bits: "bit (backtrack ?c ! (v div 64 mod 128)) (v mod 64) \<longleftrightarrow> v - 1 \<in> S"
    if "0 < v" "v div 64 \<le> unat (counter ?c) div 64" "unat (counter ?c) div 64 < v div 64 + 128" for v
  proof (cases "counter c < n + 1")
    case True
    then have "counter ?c = n + 1" by (simp add: ctr max_absorb2)
    then show ?thesis
      using tracks_slide [OF t True that(1)] that by simp
  next
    case False
    then have "?c = c" by (simp add: slide_window_def)
    then show ?thesis using tracks_bit [OF t that(1)] that by simp
  qed
  have len: "length (backtrack ?c) = 128" using t by (simp add: tracks_def slide_window_def Let_def)
  have fin: "finite S" using t by (simp add: tracks_def)
  have lim: "unat (counter ?c) \<le> unat REJECT_AFTER_MESSAGES"
    using t n top by (simp add: tracks_def)
  have win': "unat (counter ?c) \<le> COUNTER_WINDOW_SIZE + Suc (unat n)"
    using win top t by (simp add: tracks_def)
  have "bit (backtrack ?c ! ?i) ?j \<longleftrightarrow> unat n \<in> S"
  proof -
    have "unat (counter ?c) div 64 \<le> (127 * 64 + Suc (unat n)) div 64"
      using win' by (intro div_le_mono) simp
    then show ?thesis
      using bits [of "Suc (unat n)"] top by (simp add: div_le_mono)
  qed
  moreover have "replay_accepts S (unat n) \<longleftrightarrow> unat n \<notin> S"
    using n win t by (simp add: replay_accepts_def tracks_def)
  moreover have "tracks (snd (counter_validate c n)) (insert (unat n) S)"
    using tracks_set_bit [OF len fin bits top lim win'] by (simp add: step)
  ultimately show ?thesis
    by (auto simp: step insert_absorb)
qed

interpretation replay: replay_filter counter_validate unat tracks replay_accepts
proof unfold_locales
  show "fst (counter_validate c n) = replay_accepts S (unat n)" if "tracks c S" for c n S
    using counter_validate_tracks [OF that] by simp
  show "tracks (snd (counter_validate c n))
      (if replay_accepts S (unat n) then insert (unat n) S else S)" if "tracks c S" for c n S
    using counter_validate_tracks [OF that] by simp
  show "m \<notin> S" if "replay_accepts S m" for m S
    using that by (simp add: replay_accepts_def)
qed

section \<open>Properties\<close>

text \<open>
  C1. The bitmap filter implements the set filter: whatever state it is in, if it stands
  for the set \<open>S\<close> of accepted counters then it accepts \<open>n\<close> exactly when \<open>n\<close> is below the
  message limit, not in \<open>S\<close> and at most the window size behind the largest member of
  \<open>S\<close>, and afterwards it stands for \<open>S\<close> with the accepted counter added.
\<close>

theorem counter_validate_refines:
  assumes "tracks c S"
  shows "fst (counter_validate c n) = replay_accepts S (unat n) \<and>
     tracks (snd (counter_validate c n))
       (if replay_accepts S (unat n) then insert (unat n) S else S)"
  using assms by (rule counter_validate_tracks)

theorem counter_validate_refines_witness:
  "tracks replay_counter_init {} \<and> fst (counter_validate replay_counter_init 7) \<and>
   tracks (snd (counter_validate replay_counter_init 7)) {7}"
  using counter_validate_refines [OF tracks_init, of 7] tracks_init
  by (simp add: replay_accepts_def window_top_def)

text \<open>
  C2. No replay: of any sequence of counters offered to a fresh filter, in any order and
  with any repetitions, no counter is accepted twice.
\<close>

theorem counter_no_replay:
  "distinct (map unat (fst (validate_run counter_validate replay_counter_init ns)))"
  using replay.run_no_replay [OF tracks_init, of ns] by simp

text \<open>
  C3. After any sequence of packets the filter accepts exactly the counters that are below
  the limit, have not been accepted before and are not behind the window of the largest
  accepted counter: packets reordered within the window are never lost.
\<close>

theorem counter_accepts_exactly:
  "fst (counter_validate (snd (validate_run counter_validate replay_counter_init ns)) n) =
   replay_accepts (unat ` set (fst (validate_run counter_validate replay_counter_init ns))) (unat n)"
  using replay.run_then_validate [OF tracks_init, of ns n] by simp

end
