(* ===== verification/WG_Bits.thy ===== *)
theory WG_Bits
  imports WG_Prelude "HOL-Library.Sublist"
begin

unbundle bit_operations_syntax

text \<open>
  Addresses as the allowed-IPs trie sees them: byte arrays in CPU order on which the code
  runs \<^verbatim>\<open>fls\<close> and single byte reads. Everything is related to one view, the list of the
  address bits from the most significant one down.
\<close>

section \<open>Loads and bit scans\<close>

definition msb_bits :: "'a::len word \<Rightarrow> bool list" where
  "msb_bits w = map (bit w) (rev [0..<LENGTH('a)])"

text \<open>\<^verbatim>\<open>fls\<close> and \<^verbatim>\<open>fls64\<close>: the position of the last set bit, counted from 1, and 0 for 0.\<close>

definition fls :: "'a::len word \<Rightarrow> nat" where
  "fls w = length (dropWhile Not (msb_bits w))"

definition fls128 :: "u64 \<Rightarrow> u64 \<Rightarrow> nat" where
  "fls128 a b = (if a \<noteq> 0 then fls a + 64 else fls b)"

text \<open>
  The address argument of the trie operations is in network order; \<^verbatim>\<open>swap_endian\<close> turns it
  into CPU order, as one 32-bit or two 64-bit loads.
\<close>

definition swap_endian :: "bytes \<Rightarrow> bytes \<Rightarrow> u8 \<Rightarrow> bytes" where
  "swap_endian dst src bits =
     (if bits = 32 then rev (take 4 src) @ drop 4 dst
      else if bits = 128 then rev (take 8 src) @ rev (take 8 (drop 8 src)) @ drop 16 dst
      else dst)"

section \<open>The bits of an address\<close>

text \<open>
  \<open>key_bits N key\<close> lists the \<open>N\<close> bits of a key in CPU order from the most significant
  one, \<open>net_bits\<close> those of an address in network order.
\<close>

definition key_byte :: "nat \<Rightarrow> nat \<Rightarrow> nat" where
  "key_byte N i = (i div 8) XOR ((N div 8 - 1) mod 8)"

definition key_bits :: "nat \<Rightarrow> bytes \<Rightarrow> bool list" where
  "key_bits N key = map (\<lambda>i. bit (key ! key_byte N i) (7 - i mod 8)) [0..<N]"

definition net_bits :: "nat \<Rightarrow> bytes \<Rightarrow> bool list" where
  "net_bits N ip = map (\<lambda>i. bit (ip ! (i div 8)) (7 - i mod 8)) [0..<N]"

lemma length_msb_bits [simp]: "length (msb_bits (w :: 'a::len word)) = LENGTH('a)"
  by (simp add: msb_bits_def)

lemma nth_msb_bits [simp]:
  "i < LENGTH('a) \<Longrightarrow> msb_bits (w :: 'a::len word) ! i = bit w (LENGTH('a) - 1 - i)"
  by (simp add: msb_bits_def rev_nth)

lemma length_key_bits [simp]: "length (key_bits N key) = N"
  by (simp add: key_bits_def)

lemma nth_key_bits [simp]:
  "i < N \<Longrightarrow> key_bits N key ! i = bit (key ! key_byte N i) (7 - i mod 8)"
  by (simp add: key_bits_def)

lemma length_net_bits [simp]: "length (net_bits N ip) = N"
  by (simp add: net_bits_def)

lemma nth_net_bits [simp]:
  "i < N \<Longrightarrow> net_bits N ip ! i = bit (ip ! (i div 8)) (7 - i mod 8)"
  by (simp add: net_bits_def)

text \<open>Counting bits from the other end of \<open>k\<close> bytes.\<close>

lemma mirror_div_mod:
  assumes "i < 8 * k"
  shows "(8 * k - Suc i) div 8 = k - Suc (i div 8)" and "(8 * k - Suc i) mod 8 = 7 - i mod 8"
proof -
  define q r where "q = i div 8" and "r = i mod 8"
  have i: "i = 8 * q + r" and r: "r < 8" by (simp_all add: q_def r_def)
  have "q < k" using assms i by linarith
  then have "8 * k - Suc i = (7 - r) + 8 * (k - Suc q)" using i r by linarith
  moreover have "(s + 8 * m) div 8 = m" "(s + 8 * m) mod 8 = s" if "s < 8" for s m :: nat
    using that by simp_all
  moreover have "7 - r < 8" by simp
  ultimately show "(8 * k - Suc i) div 8 = k - Suc (i div 8)"
    and "(8 * k - Suc i) mod 8 = 7 - i mod 8"
    unfolding q_def [symmetric] r_def [symmetric] by metis+
qed

lemma diff_less_bound: "a < n \<Longrightarrow> a - b < (n :: nat)"
  by (rule le_less_trans [OF diff_le_self])

lemma upper_half:
  fixes d :: nat
  assumes "8 \<le> d" "d < 16"
  shows "8 + (15 - d) = 23 - d" and "15 - d < 8" and "\<not> 23 - d < 8" and "23 - d - 8 < 8"
    and "8 + (8 - Suc (23 - d - 8)) = d"
  using assms by linarith+

lemma lower_half:
  fixes d :: nat
  shows "d < 4 \<Longrightarrow> 3 - d < 4 \<and> 4 - Suc (3 - d) = d" and "d < 8 \<Longrightarrow> 7 - d < 8 \<and> 8 - Suc (7 - d) = d"
  by linarith+

lemma key_byte_32: "i < 32 \<Longrightarrow> key_byte 32 i = 3 - i div 8"
proof -
  assume "i < 32"
  then have "i div 8 \<in> set [0..<4]" by simp
  moreover have "\<forall>j \<in> set [0..<4]. j XOR 3 = 3 - (j :: nat)" by code_simp
  ultimately show ?thesis by (simp only: key_byte_def) simp
qed

lemma key_byte_128: "i < 128 \<Longrightarrow> key_byte 128 i = (if i < 64 then 7 - i div 8 else 23 - i div 8)"
proof -
  assume "i < 128"
  then have "i div 8 \<in> set [0..<16]" by simp
  moreover have "\<forall>j \<in> set [0..<16]. j XOR 7 = (if j < 8 then 7 - j else 23 - (j :: nat))" by code_simp
  moreover have "i < 64 \<longleftrightarrow> i div 8 < 8" by auto
  ultimately show ?thesis by (simp only: key_byte_def) simp
qed

lemma key_byte_less: "N = 32 \<or> N = 128 \<Longrightarrow> i < N \<Longrightarrow> key_byte N i < N div 8"
  by (auto simp: key_byte_32 key_byte_128)

lemma key_bits_32:
  "4 \<le> length key \<Longrightarrow> key_bits 32 key = msb_bits (load_le (take 4 key) :: u32)"
proof (rule nth_equalityI)
  fix i assume len: "4 \<le> length key" and "i < length (key_bits 32 key)"
  then have i: "i < 32" by simp
  have "(31 - i) div 8 = 3 - i div 8" "(31 - i) mod 8 = 7 - i mod 8"
    using mirror_div_mod [of i 4] i by simp_all
  then show "key_bits 32 key ! i = msb_bits (load_le (take 4 key) :: u32) ! i"
    using i len by (simp add: bit_load_le key_byte_32 diff_less_bound)
qed simp

lemma key_bits_128:
  "16 \<le> length key \<Longrightarrow> key_bits 128 key =
     msb_bits (load_le (take 8 key) :: u64) @ msb_bits (load_le (take 8 (drop 8 key)) :: u64)"
proof (rule nth_equalityI)
  fix i assume len: "16 \<le> length key" and "i < length (key_bits 128 key)"
  then have i: "i < 128" by simp
  show "key_bits 128 key ! i =
     (msb_bits (load_le (take 8 key) :: u64) @ msb_bits (load_le (take 8 (drop 8 key)) :: u64)) ! i"
  proof (cases "i < 64")
    case True
    then have "(63 - i) div 8 = 7 - i div 8" "(63 - i) mod 8 = 7 - i mod 8"
      using mirror_div_mod [of i 8] by simp_all
    then show ?thesis
      using True len by (simp add: bit_load_le key_byte_128 nth_append diff_less_bound)
  next
    case False
    then have "(127 - i) div 8 = 15 - i div 8" "(127 - i) mod 8 = 7 - i mod 8" "8 \<le> i div 8"
      using mirror_div_mod [of i 16] i by simp_all
    moreover have "i div 8 < 16" "i - 64 < 64" "63 - (i - 64) = 127 - i" using i False by auto
    moreover have "8 + (15 - i div 8) = 23 - i div 8" and small: "15 - i div 8 < 8"
      using upper_half [of "i div 8"] calculation by blast+
    moreover have "127 - i < 64" using i False by simp
    moreover have "15 - i div 8 < length key - 8" using less_le_trans [OF small, of "length key - 8"] len by simp
    ultimately show ?thesis
      using False i len by (simp add: bit_load_le key_byte_128 nth_append diff_less_bound)
  qed
qed simp

lemma swap_endian_bits:
  assumes "N = 32 \<or> N = 128" and "N div 8 \<le> length src"
  shows "key_bits N (swap_endian dst src (of_nat N)) = net_bits N src"
proof (rule nth_equalityI)
  fix i assume "i < length (key_bits N (swap_endian dst src (of_nat N)))"
  then have i: "i < N" by simp
  have d: "i div 8 < N div 8" using assms(1) i by auto
  have "swap_endian dst src (of_nat N) ! key_byte N i = src ! (i div 8)"
    using assms(1)
  proof
    assume N: "N = 32"
    then have "3 - i div 8 < 4 \<and> 4 - Suc (3 - i div 8) = i div 8"
      using d by (intro lower_half) simp
    then show ?thesis
      using N i d assms(2) by (simp add: swap_endian_def key_byte_32 nth_append rev_nth)
  next
    assume N: "N = 128"
    show ?thesis
    proof (cases "i < 64")
      case True
      then have "i div 8 < 8" by auto
      then have "7 - i div 8 < 8 \<and> 8 - Suc (7 - i div 8) = i div 8" by (rule lower_half)
      then show ?thesis
        using N i True d assms(2) by (simp add: swap_endian_def key_byte_128 nth_append rev_nth)
    next
      case False
      then have "8 \<le> i div 8" by auto
      moreover have "i div 8 < 16" using d N by simp
      ultimately have "\<not> 23 - i div 8 < 8" "23 - i div 8 - 8 < 8"
        "8 + (8 - Suc (23 - i div 8 - 8)) = i div 8"
        using upper_half [of "i div 8"] by blast+
      then show ?thesis
        using N i False d assms(2) by (simp add: swap_endian_def key_byte_128 nth_append rev_nth)
    qed
  qed
  then show "key_bits N (swap_endian dst src (of_nat N)) ! i = net_bits N src ! i"
    using i by simp
qed simp

section \<open>Common bits\<close>

lemma length_lcp_takeWhile:
  "length xs = length ys \<Longrightarrow>
     length (longest_common_prefix xs ys) = length (takeWhile Not (map2 (\<noteq>) xs ys))"
  by (induction xs ys rule: list_induct2) auto

lemma fls_alt: "LENGTH('a) - fls (w :: 'a::len word) = length (takeWhile Not (msb_bits w))"
proof -
  have "length (takeWhile Not (msb_bits w)) + length (dropWhile Not (msb_bits w)) = LENGTH('a)"
    by (metis length_append length_msb_bits takeWhile_dropWhile_id)
  then show ?thesis by (simp add: fls_def)
qed

lemma fls_le: "fls (w :: 'a::len word) \<le> LENGTH('a)"
  by (metis fls_def length_dropWhile_le length_msb_bits)

lemma msb_bits_xor: "msb_bits (v XOR w) = map2 (\<noteq>) (msb_bits v) (msb_bits w)"
  by (rule nth_equalityI) (auto simp: bit_xor_iff)

lemma fls_xor:
  "LENGTH('a) - fls (v XOR w :: 'a::len word) =
     length (longest_common_prefix (msb_bits v) (msb_bits w))"
  by (simp add: fls_alt length_lcp_takeWhile msb_bits_xor)

lemma msb_bits_eq_iff: "msb_bits v = msb_bits w \<longleftrightarrow> v = (w :: 'a::len word)"
proof
  assume eq: "msb_bits v = msb_bits w"
  show "v = w"
  proof (rule bit_word_eqI)
    fix n assume n: "n < LENGTH('a)"
    then have "msb_bits v ! (LENGTH('a) - Suc n) = bit v n"
      and "msb_bits w ! (LENGTH('a) - Suc n) = bit w n" by simp_all
    then show "bit v n = bit w n" using eq by simp
  qed
qed simp

lemma lcp_self [simp]: "longest_common_prefix xs xs = xs"
  by (induction xs) auto

lemma lcp_append_same:
  "length xs = length ys \<Longrightarrow>
     longest_common_prefix (xs @ us) (ys @ vs) =
     (if xs = ys then xs @ longest_common_prefix us vs else longest_common_prefix xs ys)"
  by (induction xs ys rule: list_induct2) auto

lemma xor_eq_0_iff: "v XOR w = 0 \<longleftrightarrow> v = (w :: 'a::len word)"
  by (auto simp: bit_eq_iff bit_xor_iff)

lemma fls128_xor:
  "128 - fls128 (a XOR c) (b XOR d) =
     length (longest_common_prefix (msb_bits a @ msb_bits b) (msb_bits c @ msb_bits d))"
proof (cases "a = c")
  case True
  then show ?thesis
    using fls_xor [of b d] fls_le [of "b XOR d"] by (simp add: fls128_def lcp_append_same)
next
  case False
  then have "a XOR c \<noteq> 0" by (simp add: xor_eq_0_iff)
  then show ?thesis
    using False fls_xor [of a c] by (simp add: fls128_def lcp_append_same msb_bits_eq_iff)
qed

lemma take_lcp:
  "n \<le> length (longest_common_prefix xs ys) \<longleftrightarrow>
     n \<le> length xs \<and> n \<le> length ys \<and> take n xs = take n ys"
proof (induction xs ys arbitrary: n rule: longest_common_prefix.induct)
  case (1 x xs y ys)
  then show ?case by (cases n) auto
qed (auto simp: take_Cons' neq_Nil_conv split: if_splits)

end
