(* ===== verification/WG_Trie.thy ===== *)
theory WG_Trie
  imports WG_Prelude "HOL-Library.Sublist"
begin

text \<open>
  The prefix trees behind the allowed-IPs tables, as mathematical objects: a node carries
  the address of the \<^verbatim>\<open>allowedips_node\<close> it stands for, its prefix as a list of bits and
  its peer. The theory defines lookup, insertion and deletion on such trees and shows
  that they implement longest-prefix match on the set of (prefix, peer) entries.
  \<^verbatim>\<open>WG_AllowedIPs\<close> shows that the pointer code implements these functions.
\<close>

section \<open>Trees\<close>

datatype ptrie = PLf | PNd addr "bool list" "peer_id option" ptrie ptrie

fun addrs :: "ptrie \<Rightarrow> addr list" where
  "addrs PLf = []"
| "addrs (PNd a q pr l r) = a # addrs l @ addrs r"

text \<open>The entries of a tree: prefix, peer and node of every node that has a peer.\<close>

fun ents :: "ptrie \<Rightarrow> (bool list \<times> peer_id \<times> addr) set" where
  "ents PLf = {}"
| "ents (PNd a q pr l r) =
     (case pr of None \<Rightarrow> {} | Some p \<Rightarrow> {(q, p, a)}) \<union> ents l \<union> ents r"

definition entries :: "ptrie \<Rightarrow> (bool list \<times> peer_id) set" where
  "entries t = {(q, p). \<exists>a. (q, p, a) \<in> ents t}"

text \<open>
  Well-formed below the prefix \<open>b\<close>, for addresses of \<open>N\<close> bits: a child extends its
  parent's prefix by the bit of its side, and a node without a peer has two children.
\<close>

fun wft :: "nat \<Rightarrow> bool list \<Rightarrow> ptrie \<Rightarrow> bool" where
  "wft N b PLf \<longleftrightarrow> True"
| "wft N b (PNd a q pr l r) \<longleftrightarrow>
     prefix b q \<and> length q \<le> N \<and> wft N (q @ [False]) l \<and> wft N (q @ [True]) r \<and>
     (pr = None \<longrightarrow> l \<noteq> PLf \<and> r \<noteq> PLf)"

fun theight :: "ptrie \<Rightarrow> nat" where
  "theight PLf = 0"
| "theight (PNd a q pr l r) = Suc (max (theight l) (theight r))"

section \<open>Lookup\<close>

fun tfind :: "ptrie \<Rightarrow> bool list \<Rightarrow> addr option \<Rightarrow> addr option" where
  "tfind PLf key found = found"
| "tfind (PNd a q pr l r) key found =
     (if prefix q key then
        let found = (if pr \<noteq> None then Some a else found) in
        if length q = length key then found
        else tfind (if key ! length q then r else l) key found
      else found)"

section \<open>Trees with a hole\<close>

type_synonym frame = "addr \<times> bool list \<times> peer_id option \<times> bool \<times> ptrie"

fun plug :: "frame list \<Rightarrow> ptrie \<Rightarrow> ptrie" where
  "plug [] u = u"
| "plug ((a, q, pr, d, sib) # fs) u =
     (if d then PNd a q pr sib (plug fs u) else PNd a q pr (plug fs u) sib)"

fun hole_bound :: "bool list \<Rightarrow> frame list \<Rightarrow> bool list" where
  "hole_bound b [] = b"
| "hole_bound b ((a, q, pr, d, sib) # fs) = hole_bound (q @ [d]) fs"

fun frames_addrs :: "frame list \<Rightarrow> addr list" where
  "frames_addrs [] = []"
| "frames_addrs ((a, q, pr, d, sib) # fs) = a # addrs sib @ frames_addrs fs"

fun frames_ents :: "frame list \<Rightarrow> (bool list \<times> peer_id \<times> addr) set" where
  "frames_ents [] = {}"
| "frames_ents ((a, q, pr, d, sib) # fs) =
     (case pr of None \<Rightarrow> {} | Some p \<Rightarrow> {(q, p, a)}) \<union> ents sib \<union> frames_ents fs"

definition frame_peer :: "frame \<Rightarrow> peer_id option" where
  "frame_peer f = fst (snd (snd f))"

definition frame_sib :: "frame \<Rightarrow> ptrie" where
  "frame_sib f = snd (snd (snd (snd f)))"

section \<open>Insertion\<close>

text \<open>The place of a new prefix: the deepest node that is a strict prefix of it, and below.\<close>

fun tplace :: "bool list \<Rightarrow> ptrie \<Rightarrow> frame list \<times> ptrie" where
  "tplace k PLf = ([], PLf)"
| "tplace k (PNd a q pr l r) =
     (if prefix q k \<and> q \<noteq> k then
        (if k ! length q
         then let (fs, u) = tplace k r in ((a, q, pr, True, l) # fs, u)
         else let (fs, u) = tplace k l in ((a, q, pr, False, r) # fs, u))
      else ([], PNd a q pr l r))"

definition graft :: "bool list \<Rightarrow> peer_id \<Rightarrow> addr \<Rightarrow> addr \<Rightarrow> ptrie \<Rightarrow> ptrie" where
  "graft k p new split u =
     (case u of
        PLf \<Rightarrow> PNd new k (Some p) PLf PLf
      | PNd a q pr l r \<Rightarrow>
          if q = k then PNd a q (Some p) l r
          else
            let c = length (longest_common_prefix k q) in
            if c = length k
            then (if q ! c then PNd new k (Some p) PLf u else PNd new k (Some p) u PLf)
            else if k ! c
            then PNd split (take c k) None u (PNd new k (Some p) PLf PLf)
            else PNd split (take c k) None (PNd new k (Some p) PLf PLf) u)"

definition tinsert :: "bool list \<Rightarrow> peer_id \<Rightarrow> addr \<Rightarrow> addr \<Rightarrow> ptrie \<Rightarrow> ptrie" where
  "tinsert k p new split t = (let (fs, u) = tplace k t in plug fs (graft k p new split u))"

section \<open>Deletion\<close>

fun tlocate :: "addr \<Rightarrow> ptrie \<Rightarrow> (frame list \<times> ptrie) option" where
  "tlocate a PLf = None"
| "tlocate a (PNd b q pr l r) =
     (if a = b then Some ([], PNd b q pr l r)
      else case tlocate a l of
        Some (fs, u) \<Rightarrow> Some ((b, q, pr, False, r) # fs, u)
      | None \<Rightarrow> (case tlocate a r of
          Some (fs, u) \<Rightarrow> Some ((b, q, pr, True, l) # fs, u)
        | None \<Rightarrow> None))"

definition tprune :: "frame list \<Rightarrow> ptrie \<Rightarrow> ptrie" where
  "tprune fs u =
     (case u of
        PLf \<Rightarrow> plug fs PLf
      | PNd a q pr l r \<Rightarrow>
          if l \<noteq> PLf \<and> r \<noteq> PLf then plug fs (PNd a q None l r)
          else
            let c = (if l = PLf then r else l) in
            if c = PLf \<and> fs \<noteq> [] \<and> frame_peer (last fs) = None
            then plug (butlast fs) (frame_sib (last fs))
            else plug fs c)"

definition tdel :: "addr \<Rightarrow> ptrie \<Rightarrow> ptrie" where
  "tdel a t = (case tlocate a t of None \<Rightarrow> t | Some (fs, u) \<Rightarrow> tprune fs u)"

section \<open>Facts about trees with a hole\<close>

lemma set_addrs_plug: "set (addrs (plug fs u)) = set (frames_addrs fs) \<union> set (addrs u)"
  by (induction fs u rule: plug.induct) auto

lemma distinct_addrs_plug:
  "distinct (addrs (plug fs u)) \<longleftrightarrow>
     distinct (frames_addrs fs) \<and> distinct (addrs u) \<and> set (frames_addrs fs) \<inter> set (addrs u) = {}"
  by (induction fs u rule: plug.induct) (auto simp: set_addrs_plug)

lemma ents_plug: "ents (plug fs u) = frames_ents fs \<union> ents u"
  by (induction fs u rule: plug.induct) (auto split: option.splits)

lemma plug_append: "plug (fs @ gs) u = plug fs (plug gs u)"
  by (induction fs u rule: plug.induct) auto

lemma hole_bound_append: "hole_bound b (fs @ gs) = hole_bound (hole_bound b fs) gs"
  by (induction b fs rule: hole_bound.induct) auto

lemma plug_eq_PLf: "plug fs u = PLf \<longleftrightarrow> fs = [] \<and> u = PLf"
  by (cases "(fs, u)" rule: plug.cases) auto

lemma wft_hole: "wft N b (plug fs u) \<Longrightarrow> wft N (hole_bound b fs) u"
  by (induction fs u arbitrary: b rule: plug.induct) (auto split: if_splits)

lemma wft_plug_replace:
  "wft N b (plug fs u) \<Longrightarrow> wft N (hole_bound b fs) v \<Longrightarrow> (v = PLf \<Longrightarrow> u = PLf) \<Longrightarrow> wft N b (plug fs v)"
  by (induction fs u arbitrary: b rule: plug.induct) (auto simp: plug_eq_PLf split: if_splits)

lemma wft_plug_leaf:
  "wft N b (plug fs u) \<Longrightarrow> fs = [] \<or> frame_peer (last fs) \<noteq> None \<Longrightarrow> wft N b (plug fs PLf)"
proof (induction fs u arbitrary: b rule: plug.induct)
  case (2 a q pr d sib fs u)
  show ?case
  proof (cases "fs = []")
    case True
    with "2.prems" show ?thesis by (auto simp: frame_peer_def split: if_splits)
  next
    case False
    then show ?thesis
      using "2.prems" "2.IH"(1,2) [of "q @ [d]"] by (auto simp: plug_eq_PLf split: if_splits)
  qed
qed simp

lemma ents_addrs: "(q, p, a) \<in> ents t \<Longrightarrow> a \<in> set (addrs t)"
  by (induction t) (auto split: option.splits)

lemma entries_iff: "(q, p) \<in> entries t \<longleftrightarrow> (\<exists>a. (q, p, a) \<in> ents t)"
  by (simp add: entries_def)

lemma frames_ents_addrs: "(q, p, a) \<in> frames_ents fs \<Longrightarrow> a \<in> set (frames_addrs fs)"
  by (induction fs rule: frames_ents.induct) (auto split: option.splits dest: ents_addrs)

lemma wft_ents_prefix: "wft N b t \<Longrightarrow> (q, p, a) \<in> ents t \<Longrightarrow> prefix b q"
proof (induction t arbitrary: b)
  case (PNd a' q' pr l r)
  then show ?case
    by (auto split: option.splits) (meson prefix_order.trans append_prefixD)+
qed simp

lemma wft_mono: "wft N b t \<Longrightarrow> prefix b' b \<Longrightarrow> wft N b' t"
  by (cases t) (auto intro: prefix_order.trans)

section \<open>Lookup finds the longest matching prefix\<close>

lemma not_prefix_snoc_self [simp]: "\<not> prefix (q @ [d]) q"
  by (auto dest: prefix_length_le)

lemma prefix_snoc_nth: "prefix (q @ [d]) key \<Longrightarrow> key ! length q = d"
  by (auto simp: prefix_def)

lemma prefix_snoc_iff:
  "prefix (q @ [d]) key \<longleftrightarrow> prefix q key \<and> length q < length key \<and> key ! length q = d"
proof
  assume l: "prefix q key \<and> length q < length key \<and> key ! length q = d"
  then obtain zs where zs: "key = q @ zs" by (auto simp: prefix_def)
  with l obtain z zs' where "zs = z # zs'" by (cases zs) auto
  with l zs show "prefix (q @ [d]) key" by (auto simp: prefix_def)
qed (auto simp: prefix_def)

lemma tfind_none:
  "(\<And>q p a. (q, p, a) \<in> ents t \<Longrightarrow> \<not> prefix q key) \<Longrightarrow> tfind t key found = found"
proof (induction t arbitrary: found)
  case (PNd a q pr l r)
  have "pr = None" if "prefix q key"
    using PNd.prems [of q _ a] that by (cases pr) auto
  moreover have "tfind l key f = f" "tfind r key f = f" for f
    using PNd.prems by (auto intro!: PNd.IH)
  ultimately show ?case by (auto simp: Let_def)
qed simp

lemma tfind_some:
  assumes "wft N b t" "(q, p, a) \<in> ents t" "prefix q key"
    and "\<And>q' p' a'. (q', p', a') \<in> ents t \<Longrightarrow> prefix q' key \<Longrightarrow> length q' \<le> length q"
  shows "tfind t key found = Some a"
  using assms
proof (induction t arbitrary: b found)
  case (PNd a0 q0 pr l r)
  have wl: "wft N (q0 @ [False]) l" and wr: "wft N (q0 @ [True]) r"
    using PNd.prems(1) by auto
  show ?case
  proof (cases "\<exists>d. (q, p, a) \<in> ents (if d then r else l)")
    case False
    then have root: "q = q0" "a = a0" "pr = Some p"
      using PNd.prems(2) by (auto split: option.splits dest: spec [of _ True] spec [of _ False])
    have "\<not> prefix q' key" if "(q', p', a') \<in> ents (if d then r else l)" for q' p' a' d
    proof
      assume pk: "prefix q' key"
      have "prefix (q0 @ [d]) q'" using that wl wr wft_ents_prefix by (cases d) auto
      then have "length q0 < length q'" by (auto dest: prefix_length_le)
      moreover have "length q' \<le> length q"
        using PNd.prems(4) [of q' p' a'] that pk by (cases d) (auto split: option.splits)
      ultimately show False using root by simp
    qed
    then have "tfind (if d then r else l) key f = f" for d f
      by (intro tfind_none) blast
    from this [of "key ! length q0"] show ?thesis
      using root PNd.prems(3) by (simp add: Let_def)
  next
    case True
    then obtain d where d: "(q, p, a) \<in> ents (if d then r else l)" by blast
    have "prefix (q0 @ [d]) q" using d wl wr wft_ents_prefix by (cases d) auto
    then have "prefix (q0 @ [d]) key" using PNd.prems(3) by (meson prefix_order.trans)
    then have key: "prefix q0 key" "length q0 < length key" "key ! length q0 = d"
      by (auto simp: prefix_snoc_iff)
    have longest: "length q' \<le> length q"
      if "(q', p', a') \<in> ents (if d then r else l)" "prefix q' key" for q' p' a'
      using PNd.prems(4) [of q' p' a'] that by (cases d) auto
    have "tfind (if d then r else l) key f = Some a" for f
      using PNd.IH(1) [OF wl _ PNd.prems(3), of f] PNd.IH(2) [OF wr _ PNd.prems(3), of f] d longest
      by (cases d) auto
    then show ?thesis using key by (simp add: Let_def)
  qed
qed simp

text \<open>A prefix occurs at most once in a well-formed tree.\<close>

lemma prefix_snoc_conflict: "prefix (q @ [True]) k \<Longrightarrow> prefix (q @ [False]) k \<Longrightarrow> False"
  by (auto simp: prefix_def)

lemma wft_ents_unique:
  "wft N b t \<Longrightarrow> (q, p, a) \<in> ents t \<Longrightarrow> (q, p', a') \<in> ents t \<Longrightarrow> p = p' \<and> a = a'"
proof (induction t arbitrary: b)
  case (PNd a0 q0 pr l r)
  have wl: "wft N (q0 @ [False]) l" and wr: "wft N (q0 @ [True]) r"
    using PNd.prems(1) by auto
  have l: "prefix (q0 @ [False]) q" if "(q, p, a) \<in> ents l" for p a
    using wft_ents_prefix [OF wl that] .
  have r: "prefix (q0 @ [True]) q" if "(q, p, a) \<in> ents r" for p a
    using wft_ents_prefix [OF wr that] .
  show ?case
    using PNd.prems(2,3) PNd.IH(1) [OF wl] PNd.IH(2) [OF wr] l r prefix_snoc_conflict [of q0 q]
    by (auto split: option.splits; blast)
qed simp

section \<open>Insertion\<close>

lemma tplace_plug: "tplace k t = (fs, u) \<Longrightarrow> plug fs u = t"
  by (induction k t arbitrary: fs u rule: tplace.induct) (auto split: prod.splits if_splits)

lemma tplace_stop:
  "tplace k t = (fs, PNd a q pr l r) \<Longrightarrow> q = k \<or> \<not> prefix q k"
  by (induction k t arbitrary: fs rule: tplace.induct) (auto split: prod.splits if_splits)

lemma strict_prefix_nth:
  "prefix q k \<Longrightarrow> q \<noteq> k \<Longrightarrow> prefix (q @ [k ! length q]) k"
  by (metis prefix_snoc_iff prefix_length_less strict_prefix_def)

lemma tplace_hole_bound:
  "tplace k t = (fs, u) \<Longrightarrow> prefix b k \<Longrightarrow> prefix (hole_bound b fs) k"
proof (induction k t arbitrary: fs u b rule: tplace.induct)
  case (2 k a q pr l r)
  then show ?case
    using strict_prefix_nth [of q k] by (auto split: prod.splits if_splits)
qed auto

lemma take_prefix: "prefix xs ys \<Longrightarrow> take (length xs) ys = xs"
  by (auto simp: prefix_def)

lemma lcp_strict:
  assumes "q \<noteq> k" "\<not> prefix q k"
  defines "c \<equiv> length (longest_common_prefix k q)"
  shows "c < length q" and "take c k = take c q"
    and "c \<noteq> length k \<Longrightarrow> c < length k \<and> k ! c \<noteq> q ! c"
proof -
  have p1: "prefix (longest_common_prefix k q) k" by (rule longest_common_prefix_prefix1)
  have p2: "prefix (longest_common_prefix k q) q" by (rule longest_common_prefix_prefix2)
  have "longest_common_prefix k q \<noteq> q" using p1 assms by metis
  then show cq: "c < length q"
    using p2 unfolding c_def by (metis prefix_length_less strict_prefix_def)
  have tk: "take c k = longest_common_prefix k q" "take c q = longest_common_prefix k q"
    using p1 p2 unfolding c_def by (simp_all add: take_prefix)
  then show "take c k = take c q" by simp
  assume "c \<noteq> length k"
  then have ck: "c < length k"
    using p1 unfolding c_def by (metis prefix_length_le le_neq_implies_less)
  moreover have "k ! c \<noteq> q ! c"
  proof
    assume eq: "k ! c = q ! c"
    have "prefix (take (Suc c) k) k" by (rule take_is_prefix)
    moreover have "prefix (take (Suc c) k) q"
      using take_Suc_conv_app_nth [OF ck] take_Suc_conv_app_nth [OF cq] tk eq
      by (metis take_is_prefix)
    ultimately have "prefix (take (Suc c) k) (longest_common_prefix k q)"
      by (rule longest_common_prefix_max_prefix)
    then show False using ck by (auto dest: prefix_length_le simp: c_def)
  qed
  ultimately show "c < length k \<and> k ! c \<noteq> q ! c" ..
qed

lemma graft_ents:
  assumes "u = PLf \<or> (\<exists>a q pr l r. u = PNd a q pr l r \<and> (q = k \<or> \<not> prefix q k))"
    and "wft N b u"
  shows "(q, p', a) \<in> ents (graft k p new split u) \<longleftrightarrow>
     (if q = k then p' = p \<and> a = (case u of PNd a' q' _ _ _ \<Rightarrow> if q' = k then a' else new | PLf \<Rightarrow> new)
      else (q, p', a) \<in> ents u)"
proof (cases u)
  case (PNd a0 q0 pr l r)
  have ext: "prefix q0 q" if "(q, p', a) \<in> ents u" for q p' a
    using wft_ents_prefix [OF _ that, of N q0] assms(2) PNd by auto
  have wl: "wft N (q0 @ [False]) l" and wr: "wft N (q0 @ [True]) r" using assms(2) PNd by auto
  show ?thesis
  proof (cases "q0 = k")
    case True
    have "(q0, p', a) \<notin> ents l" "(q0, p', a) \<notin> ents r" for p' a
      using wft_ents_prefix [OF wl, of q0 p' a] wft_ents_prefix [OF wr, of q0 p' a] by auto
    then show ?thesis using True PNd by (auto simp: graft_def split: option.splits)
  next
    case False
    with assms(1) PNd have "\<not> prefix q0 k" by auto
    then have "(k, p', a) \<notin> ents u" for p' a using ext by auto
    then show ?thesis using False PNd by (auto simp: graft_def Let_def)
  qed
qed (auto simp: graft_def)

lemma graft_wft:
  assumes stop: "u = PLf \<or> (\<exists>a q pr l r. u = PNd a q pr l r \<and> (q = k \<or> \<not> prefix q k))"
    and u: "wft N b u" and k: "prefix b k" "length k \<le> N"
  shows "wft N b (graft k p new split u)"
proof (cases u)
  case PLf
  then show ?thesis using k by (simp add: graft_def)
next
  case (PNd a q pr l r)
  show ?thesis
  proof (cases "q = k")
    case True
    then show ?thesis using PNd u k by (auto simp: graft_def)
  next
    case False
    let ?c = "length (longest_common_prefix k q)"
    have np: "\<not> prefix q k" using stop PNd False by auto
    note c = lcp_strict [OF False np]
    have bq: "prefix b q" "length q \<le> N" using u PNd by auto
    have below: "wft N (take ?c q @ [q ! ?c]) u"
      using u PNd c(1) take_is_prefix [of "Suc ?c" q]
      by (simp add: take_Suc_conv_app_nth)
    have bc: "prefix b (take ?c k)"
      using longest_common_prefix_max_prefix [OF k(1) bq(1)] longest_common_prefix_prefix1 [of k q]
      by (simp add: take_prefix)
    show ?thesis
    proof (cases "?c = length k")
      case True
      then have "take ?c q = k" using c(2) by simp
      then show ?thesis
        using True False PNd below k by (auto simp: graft_def Let_def)
    next
      case cl: False
      then have kc: "?c < length k" "k ! ?c \<noteq> q ! ?c" using c(3) by auto
      have kpre: "prefix (take ?c k @ [k ! ?c]) k"
        using take_is_prefix [of "Suc ?c" k] kc(1) by (simp add: take_Suc_conv_app_nth)
      have "q ! ?c = (\<not> k ! ?c)" using kc(2) by auto
      then show ?thesis
        using cl False PNd below k kc bc kpre c(2) by (auto simp: graft_def Let_def)
    qed
  qed
qed

lemma graft_not_PLf: "graft k p new split u \<noteq> PLf"
  by (auto simp: graft_def Let_def split: ptrie.splits)

lemma tplace_stops:
  "tplace k t = (fs, u) \<Longrightarrow> u = PLf \<or> (\<exists>a q pr l r. u = PNd a q pr l r \<and> (q = k \<or> \<not> prefix q k))"
  by (cases u) (auto dest: tplace_stop)

lemma tinsert_wft:
  "wft N b t \<Longrightarrow> prefix b k \<Longrightarrow> length k \<le> N \<Longrightarrow> wft N b (tinsert k p new split t)"
proof -
  assume t: "wft N b t" and k: "prefix b k" "length k \<le> N"
  obtain fs u where pl: "tplace k t = (fs, u)" by force
  then have tp: "wft N b (plug fs u)" using t tplace_plug by metis
  have "wft N (hole_bound b fs) (graft k p new split u)"
    using graft_wft [OF tplace_stops [OF pl] wft_hole [OF tp] tplace_hole_bound [OF pl k(1)] k(2)] .
  then have "wft N b (plug fs (graft k p new split u))"
    by (rule wft_plug_replace [OF tp]) (simp add: graft_not_PLf)
  then show ?thesis by (simp add: tinsert_def pl)
qed

lemma tplace_frames_ents:
  "tplace k t = (fs, u) \<Longrightarrow> wft N b t \<Longrightarrow> (k, p, a) \<notin> frames_ents fs"
proof (induction k t arbitrary: fs u b rule: tplace.induct)
  case (2 k a0 q pr l r)
  show ?case
  proof (cases "prefix q k \<and> q \<noteq> k")
    case True
    then have pre: "prefix (q @ [k ! length q]) k" using strict_prefix_nth by blast
    have wl: "wft N (q @ [False]) l" and wr: "wft N (q @ [True]) r" using "2.prems"(2) by auto
    have "(k, p, a) \<notin> ents l" if "k ! length q"
      using wft_ents_prefix [OF wl] pre that prefix_snoc_conflict [of q k] by auto
    moreover have "(k, p, a) \<notin> ents r" if "\<not> k ! length q"
      using wft_ents_prefix [OF wr] pre that prefix_snoc_conflict [of q k] by auto
    ultimately show ?thesis
      using "2.prems"(1) "2.IH" wl wr True
      by (auto split: prod.splits if_splits option.splits)
  qed (use 2 in auto)
qed auto

lemma tinsert_entries:
  assumes "wft N b t"
  shows "entries (tinsert k p new split t) = insert (k, p) {(q, p') \<in> entries t. q \<noteq> k}"
proof -
  obtain fs u where pl: "tplace k t = (fs, u)" by force
  have t: "plug fs u = t" using tplace_plug [OF pl] .
  have "wft N (hole_bound b fs) u" using assms t wft_hole by metis
  note g = graft_ents [OF tplace_stops [OF pl] this, of _ _ _ p new split]
  have fk: "(k, p', a) \<notin> frames_ents fs" for p' a
    using tplace_frames_ents [OF pl assms] .
  have e: "(q, p', a) \<in> ents (tinsert k p new split t) \<longleftrightarrow>
     (q, p', a) \<in> frames_ents fs \<or> (q, p', a) \<in> ents (graft k p new split u)" for q p' a
    by (simp add: tinsert_def pl ents_plug)
  have "(q, p') \<in> entries (tinsert k p new split t) \<longleftrightarrow>
      (q, p') \<in> insert (k, p) {(q, p') \<in> entries t. q \<noteq> k}" for q p'
  proof (cases "q = k")
    case True
    then have "(q, p', a) \<in> ents (tinsert k p new split t) \<longleftrightarrow> p' = p \<and>
        a = (case u of PNd a' q' _ _ _ \<Rightarrow> if q' = k then a' else new | PLf \<Rightarrow> new)" for a
      unfolding e g using fk by simp
    then show ?thesis using True by (simp add: entries_iff)
  next
    case False
    then have "(q, p', a) \<in> ents (tinsert k p new split t) \<longleftrightarrow> (q, p', a) \<in> ents t" for a
      unfolding e g by (simp add: t [symmetric] ents_plug)
    then show ?thesis using False by (simp add: entries_iff)
  qed
  then show ?thesis by auto
qed

section \<open>Deletion\<close>

lemma tlocate_plug: "tlocate a t = Some (fs, u) \<Longrightarrow> plug fs u = t \<and> (\<exists>q pr l r. u = PNd a q pr l r)"
  by (induction a t arbitrary: fs u rule: tlocate.induct) (auto split: if_splits option.splits)

lemma tlocate_None: "tlocate a t = None \<longleftrightarrow> a \<notin> set (addrs t)"
  by (induction a t rule: tlocate.induct) (auto split: option.splits)

lemma plug_butlast:
  "fs \<noteq> [] \<Longrightarrow> plug fs u = plug (butlast fs) (plug [last fs] u)"
  by (metis append_butlast_last_id plug_append)

lemma frames_ents_append: "frames_ents (fs @ gs) = frames_ents fs \<union> frames_ents gs"
  by (induction fs rule: frames_ents.induct) auto

lemma frames_addrs_append: "frames_addrs (fs @ gs) = frames_addrs fs @ frames_addrs gs"
  by (induction fs rule: frames_addrs.induct) auto

lemma frames_ents_last:
  assumes "fs \<noteq> []" "frame_peer (last fs) = None"
  shows "frames_ents fs = frames_ents (butlast fs) \<union> ents (frame_sib (last fs))"
proof -
  have "frames_ents fs = frames_ents (butlast fs) \<union> frames_ents [last fs]"
    using assms(1) by (metis append_butlast_last_id frames_ents_append)
  then show ?thesis using assms(2) by (cases "last fs") (simp add: frame_peer_def frame_sib_def)
qed

lemma tprune_ents:
  assumes "u = PNd a q pr l r" "distinct (addrs (plug fs u))"
  shows "ents (tprune fs u) = {(q, p, a') \<in> ents (plug fs u). a' \<noteq> a}"
proof -
  have "a' \<noteq> a" if "(q', p, a') \<in> frames_ents fs \<union> ents l \<union> ents r" for q' p a'
    using that assms(2) frames_ents_addrs [of q' p a' fs] ents_addrs [of q' p a']
    by (auto simp: distinct_addrs_plug assms(1))
  moreover have "ents (tprune fs u) = frames_ents fs \<union> ents l \<union> ents r"
    using frames_ents_last [of fs]
    by (auto simp: tprune_def assms(1) Let_def ents_plug split: option.splits)
  ultimately show ?thesis
    by (auto simp: ents_plug assms(1) split: option.splits)
qed

lemma tprune_wft:
  assumes u: "u = PNd a q pr l r" and w: "wft N b (plug fs u)"
  shows "wft N b (tprune fs u)"
proof -
  note h = wft_hole [OF w, unfolded u, simplified]
  have child: "wft N (hole_bound b fs) (if l = PLf then r else l)"
    using h by (auto intro: wft_mono [of N] prefix_order.trans)
  consider (both) "l \<noteq> PLf" "r \<noteq> PLf"
    | (sib) "l = PLf" "r = PLf" "fs \<noteq> []" "frame_peer (last fs) = None"
    | (leaf) "l = PLf" "r = PLf" "fs = [] \<or> frame_peer (last fs) \<noteq> None"
    | (one) "(if l = PLf then r else l) \<noteq> PLf" "l = PLf \<or> r = PLf"
    by fastforce
  then show ?thesis
  proof cases
    case both
    then show ?thesis
      using wft_plug_replace [OF w, of "PNd a q None l r"] h u by (simp add: tprune_def)
  next
    case sib
    obtain a' q' d s where f: "last fs = (a', q', None, d, s)"
      using sib(4) by (cases "last fs") (auto simp: frame_peer_def)
    have w': "wft N b (plug (butlast fs) (plug [last fs] u))" using w plug_butlast sib(3) by metis
    have s: "wft N (hole_bound b (butlast fs)) s \<and> s \<noteq> PLf"
      using wft_hole [OF w'] f u by (cases d) (auto intro: wft_mono [of N] prefix_order.trans)
    then have "wft N b (plug (butlast fs) s)"
      using wft_plug_replace [OF w'] by blast
    then show ?thesis using sib u f by (simp add: tprune_def frame_sib_def)
  next
    case leaf
    then show ?thesis using wft_plug_leaf [OF w] u by (auto simp: tprune_def)
  next
    case one
    then show ?thesis
      using wft_plug_replace [OF w child] u by (auto simp: tprune_def Let_def)
  qed
qed

lemma tdel_ents:
  "distinct (addrs t) \<Longrightarrow> ents (tdel a t) = {(q, p, a') \<in> ents t. a' \<noteq> a}"
proof (cases "tlocate a t")
  case None
  then have "tdel a t = t" "a \<notin> set (addrs t)" by (simp_all add: tdel_def tlocate_None [symmetric])
  then show ?thesis by (auto dest: ents_addrs)
next
  case (Some fu)
  assume d: "distinct (addrs t)"
  obtain fs u where fu: "fu = (fs, u)" by (cases fu)
  from tlocate_plug [OF Some [unfolded fu]] obtain q pr l r
    where t: "plug fs u = t" and u: "u = PNd a q pr l r" by blast
  show ?thesis using tprune_ents [OF u, of fs] d Some fu t by (simp add: tdel_def)
qed

lemma tdel_wft: "wft N b t \<Longrightarrow> wft N b (tdel a t)"
proof (cases "tlocate a t")
  case (Some fu)
  assume w: "wft N b t"
  obtain fs u where fu: "fu = (fs, u)" by (cases fu)
  from tlocate_plug [OF Some [unfolded fu]] obtain q pr l r
    where t: "plug fs u = t" and u: "u = PNd a q pr l r" by blast
  show ?thesis using tprune_wft [OF u, of N b fs] w Some fu t by (simp add: tdel_def)
qed (simp add: tdel_def)

section \<open>Height\<close>

text \<open>Prefixes grow along every path, so a tree for \<open>N\<close>-bit addresses has at most \<open>N + 1\<close> levels.\<close>

lemma wft_height: "wft N b t \<Longrightarrow> length b \<le> Suc N \<Longrightarrow> theight t \<le> Suc N - length b"
proof (induction t arbitrary: b)
  case (PNd a q pr l r)
  have q: "length b \<le> length q" "length q \<le> N" using PNd.prems by (auto dest: prefix_length_le)
  have "theight l \<le> N - length q" "theight r \<le> N - length q"
    using PNd.IH(1) [of "q @ [False]"] PNd.IH(2) [of "q @ [True]"] PNd.prems q by auto
  then show ?case using q by simp
qed simp

end
