(* ===== verification/WG_Skb.thy ===== *)
theory WG_Skb
  imports WG_Prelude
begin

unbundle bit_operations_syntax

text \<open>
  The socket buffers the driver handles, as far as it looks into them: the protocol in
  network order, the bytes from the network header on, and the reads of IP header fields
  that the code does through \<^verbatim>\<open>struct iphdr\<close> and \<^verbatim>\<open>struct ipv6hdr\<close>.
\<close>

definition ETH_P_IP :: u16 where "ETH_P_IP = 0x0800"
definition ETH_P_IPV6 :: u16 where "ETH_P_IPV6 = 0x86DD"

definition htons :: "u16 \<Rightarrow> u16" where
  "htons w = push_bit 8 w OR drop_bit 8 w"

record sk_buff =
  protocol :: u16
  network :: bytes

definition ip_saddr :: "bytes \<Rightarrow> bytes" where "ip_saddr hdr = take 4 (drop 12 hdr)"
definition ip_daddr :: "bytes \<Rightarrow> bytes" where "ip_daddr hdr = take 4 (drop 16 hdr)"
definition ipv6_saddr :: "bytes \<Rightarrow> bytes" where "ipv6_saddr hdr = take 16 (drop 8 hdr)"
definition ipv6_daddr :: "bytes \<Rightarrow> bytes" where "ipv6_daddr hdr = take 16 (drop 24 hdr)"

lemma htons_protocols: "htons ETH_P_IP = 8" "htons ETH_P_IPV6 = 0xDD86"
  by (simp_all add: htons_def ETH_P_IP_def ETH_P_IPV6_def)

end
