(* ===== verification/WG_PeerRef.thy ===== *)
theory WG_PeerRef
  imports WG_Prelude
begin

text \<open>
  Taking references on peers, as \<^verbatim>\<open>peer.h\<close> and \<^verbatim>\<open>peer.c\<close> do through \<^verbatim>\<open>struct kref\<close>. A
  reference count is a natural number: \<^verbatim>\<open>refcount_t\<close> saturates instead of wrapping. The
  lookups of all tables hand out peers through \<open>wg_peer_get_maybe_zero\<close>.
\<close>

type_synonym refcounts = "peer_id \<Rightarrow> nat"

definition kref_get :: "refcounts \<Rightarrow> peer_id \<Rightarrow> refcounts" where
  "kref_get refs p = refs(p := refs p + 1)"

definition wg_peer_get :: "refcounts \<Rightarrow> peer_id \<Rightarrow> peer_id \<times> refcounts" where
  "wg_peer_get refs p = (p, kref_get refs p)"

definition wg_peer_get_maybe_zero ::
    "refcounts \<Rightarrow> peer_id option \<Rightarrow> peer_id option \<times> refcounts" where
  "wg_peer_get_maybe_zero refs p =
     (case p of
        None \<Rightarrow> (None, refs)
      | Some q \<Rightarrow> if refs q = 0 then (None, refs) else (Some q, kref_get refs q))"

lemma get_maybe_zero_simps [simp]:
  "wg_peer_get_maybe_zero refs None = (None, refs)"
  "refs q = 0 \<Longrightarrow> wg_peer_get_maybe_zero refs (Some q) = (None, refs)"
  "0 < refs q \<Longrightarrow> wg_peer_get_maybe_zero refs (Some q) = (Some q, kref_get refs q)"
  by (simp_all add: wg_peer_get_maybe_zero_def)

end
