(* ===== verification/WG_AllowedIPs.thy ===== *)
theory WG_AllowedIPs
  imports WG_Bits WG_Trie WG_Skb WG_PeerRef "HOL-Library.Monad_Syntax"
begin

unbundle bit_operations_syntax

text \<open>
  The allowed-IPs tables of \<^verbatim>\<open>allowedips.c\<close>: two binary tries (IPv4 and IPv6) made of
  \<^verbatim>\<open>struct allowedips_node\<close> objects that point to each other, and per peer the list of
  its nodes. The model keeps the pointers: a table maps node addresses to node records,
  and a node knows the slot that points to it (\<^verbatim>\<open>parent_bit_packed\<close>).

  The first half is the code. The second half shows that the pointer structure is a tree
  of \<^verbatim>\<open>WG_Trie\<close>, that every operation acts on it as the tree function does, and from
  that the properties of the tables.

  Loops that follow pointers are \<open>partial_function (option)\<close>: they return \<open>None\<close> only if
  the loop does not end. Memory comes from \<^verbatim>\<open>kmem_cache_zalloc\<close>, whose results are
  arguments (\<open>None\<close> when it fails). A node passed to \<^verbatim>\<open>call_rcu\<close> is gone from the
  table; readers that still hold it during the grace period are not modelled.
\<close>

section \<open>Data\<close>

text \<open>A location that holds a pointer to a node: a root of the table or \<^verbatim>\<open>bit[d]\<close> of a node.\<close>

datatype slot = RootSlot bool | BitSlot addr bool

record allowedips_node =
  peer :: "peer_id option"
  bit0 :: "addr option"
  bit1 :: "addr option"
  cidr :: u8
  bit_at_a :: u8
  bit_at_b :: u8
  bitlen :: u8
  bits :: bytes
  parent_bit_packed :: "slot \<times> nat"

record allowedips =
  nodes :: "addr \<rightharpoonup> allowedips_node"
  root4 :: "addr option"
  root6 :: "addr option"
  seq :: u64
  peer_lists :: "peer_id \<Rightarrow> addr list"

text \<open>A node as \<^verbatim>\<open>kmem_cache_zalloc\<close> returns it.\<close>

definition zero_node :: allowedips_node where
  "zero_node = \<lparr>peer = None, bit0 = None, bit1 = None, cidr = 0, bit_at_a = 0, bit_at_b = 0,
     bitlen = 0, bits = replicate 16 0, parent_bit_packed = (RootSlot False, 0)\<rparr>"

definition node_at :: "allowedips \<Rightarrow> addr \<Rightarrow> allowedips_node" where
  "node_at tb a = the (nodes tb a)"

definition node_bit :: "allowedips_node \<Rightarrow> bool \<Rightarrow> addr option" where
  "node_bit n d = (if d then bit1 n else bit0 n)"

definition set_node_bit :: "allowedips_node \<Rightarrow> bool \<Rightarrow> addr option \<Rightarrow> allowedips_node" where
  "set_node_bit n d p = (if d then n\<lparr>bit1 := p\<rparr> else n\<lparr>bit0 := p\<rparr>)"

definition root_of :: "allowedips \<Rightarrow> bool \<Rightarrow> addr option" where
  "root_of tb v6 = (if v6 then root6 tb else root4 tb)"

text \<open>A store through a slot, \<^verbatim>\<open>*slot = p\<close>.\<close>

fun slot_set :: "allowedips \<Rightarrow> slot \<Rightarrow> addr option \<Rightarrow> allowedips" where
  "slot_set tb (RootSlot v6) p = (if v6 then tb\<lparr>root6 := p\<rparr> else tb\<lparr>root4 := p\<rparr>)"
| "slot_set tb (BitSlot a d) p =
     tb\<lparr>nodes := (nodes tb)(a \<mapsto> set_node_bit (node_at tb a) d p)\<rparr>"

definition list_add_tail :: "addr \<Rightarrow> peer_id \<Rightarrow> allowedips \<Rightarrow> allowedips" where
  "list_add_tail a p tb = tb\<lparr>peer_lists := (peer_lists tb)(p := peer_lists tb p @ [a])\<rparr>"

definition list_del :: "addr \<Rightarrow> allowedips \<Rightarrow> allowedips" where
  "list_del a tb = tb\<lparr>peer_lists := (\<lambda>p. removeAll a (peer_lists tb p))\<rparr>"

definition list_move_tail :: "addr \<Rightarrow> peer_id \<Rightarrow> allowedips \<Rightarrow> allowedips" where
  "list_move_tail a p tb = list_add_tail a p (list_del a tb)"

section \<open>Lookup\<close>

definition copy_and_assign_cidr ::
    "allowedips_node \<Rightarrow> bytes \<Rightarrow> u8 \<Rightarrow> u8 \<Rightarrow> allowedips_node" where
  "copy_and_assign_cidr node src c bs =
     node\<lparr>cidr := c,
          bit_at_a := (c div 8) XOR ((bs div 8 - 1) mod 8),
          bit_at_b := 7 - (c mod 8),
          bitlen := bs,
          bits := take (unat (bs div 8)) src @ drop (unat (bs div 8)) (bits node)\<rparr>"

definition choose_bit :: "allowedips_node \<Rightarrow> bytes \<Rightarrow> bool" where
  "choose_bit node key =
     (drop_bit (unat (bit_at_b node)) (key ! unat (bit_at_a node)) AND 1 \<noteq> 0)"

definition common_bits :: "allowedips_node \<Rightarrow> bytes \<Rightarrow> u8 \<Rightarrow> u8" where
  "common_bits node key bs =
     (if bs = 32 then
        32 - of_nat (fls (load_le (take 4 (bits node)) XOR load_le (take 4 key) :: u32))
      else if bs = 128 then
        128 - of_nat (fls128
          (load_le (take 8 (bits node)) XOR load_le (take 8 key))
          (load_le (take 8 (drop 8 (bits node))) XOR load_le (take 8 (drop 8 key))))
      else 0)"

definition prefix_matches :: "allowedips_node \<Rightarrow> bytes \<Rightarrow> u8 \<Rightarrow> bool" where
  "prefix_matches node key bs = (common_bits node key bs \<ge> cidr node)"

partial_function (option) find_node_loop ::
    "allowedips \<Rightarrow> u8 \<Rightarrow> bytes \<Rightarrow> addr option \<Rightarrow> addr option \<Rightarrow> addr option option" where
  "find_node_loop tb bs key node found =
     (case node of
        None \<Rightarrow> Some found
      | Some a \<Rightarrow>
          (let n = node_at tb a in
           if \<not> prefix_matches n key bs then Some found
           else
             let found = (if peer n \<noteq> None then Some a else found) in
             if cidr n = bs then Some found
             else find_node_loop tb bs key (node_bit n (choose_bit n key)) found))"

definition find_node :: "allowedips \<Rightarrow> addr option \<Rightarrow> u8 \<Rightarrow> bytes \<Rightarrow> addr option option" where
  "find_node tb trie bs key = find_node_loop tb bs key trie None"

text \<open>
  \<^verbatim>\<open>lookup\<close> retries when the peer it found has no references left, that is, when it is
  being removed: the table is read again. The argument is the sequence of tables and
  reference counts that the successive reads see; the result has the counts of the last
  read, with a reference taken on the peer that is handed out.
\<close>

fun lookup_retry ::
    "(allowedips \<times> refcounts) list \<Rightarrow> bool \<Rightarrow> u8 \<Rightarrow> bytes \<Rightarrow> (peer_id option \<times> refcounts) option" where
  "lookup_retry [] v6 bs ip = None"
| "lookup_retry ((tb, refs) # later) v6 bs ip =
     (case find_node tb (root_of tb v6) bs ip of
        None \<Rightarrow> None
      | Some None \<Rightarrow> Some (None, refs)
      | Some (Some node) \<Rightarrow>
          (case wg_peer_get_maybe_zero refs (peer (node_at tb node)) of
             (Some p, refs) \<Rightarrow> Some (Some p, refs)
           | (None, refs) \<Rightarrow> lookup_retry later v6 bs ip))"

definition lookup ::
    "(allowedips \<times> refcounts) list \<Rightarrow> bool \<Rightarrow> u8 \<Rightarrow> bytes \<Rightarrow> (peer_id option \<times> refcounts) option" where
  "lookup views v6 bs be_ip =
     lookup_retry views v6 bs (swap_endian (replicate 16 0) be_ip bs)"

section \<open>Insertion\<close>

partial_function (option) node_placement_loop ::
    "allowedips \<Rightarrow> bytes \<Rightarrow> u8 \<Rightarrow> u8 \<Rightarrow> addr option \<Rightarrow> addr option \<Rightarrow> (bool \<times> addr option) option" where
  "node_placement_loop tb key c bs node parent =
     (case node of
        None \<Rightarrow> Some (False, parent)
      | Some a \<Rightarrow>
          (let n = node_at tb a in
           if cidr n \<le> c \<and> prefix_matches n key bs then
             (if cidr n = c then Some (True, Some a)
              else node_placement_loop tb key c bs (node_bit n (choose_bit n key)) (Some a))
           else Some (False, parent)))"

definition node_placement ::
    "allowedips \<Rightarrow> addr option \<Rightarrow> bytes \<Rightarrow> u8 \<Rightarrow> u8 \<Rightarrow> (bool \<times> addr option) option" where
  "node_placement tb trie key c bs = node_placement_loop tb key c bs trie None"

definition connect_node :: "allowedips \<Rightarrow> slot \<Rightarrow> nat \<Rightarrow> addr \<Rightarrow> allowedips" where
  "connect_node tb parent b a =
     (let tb = tb\<lparr>nodes := (nodes tb)(a \<mapsto> (node_at tb a)\<lparr>parent_bit_packed := (parent, b)\<rparr>)\<rparr>
      in slot_set tb parent (Some a))"

definition choose_and_connect_node :: "allowedips \<Rightarrow> addr \<Rightarrow> addr \<Rightarrow> allowedips" where
  "choose_and_connect_node tb parent a =
     (let d = choose_bit (node_at tb parent) (bits (node_at tb a))
      in connect_node tb (BitSlot parent d) (of_bool d) a)"

definition new_peer_node ::
    "allowedips \<Rightarrow> addr \<Rightarrow> peer_id \<Rightarrow> bytes \<Rightarrow> u8 \<Rightarrow> u8 \<Rightarrow> allowedips" where
  "new_peer_node tb a p key c bs =
     (list_add_tail a p tb)
       \<lparr>nodes := (nodes tb)(a \<mapsto> copy_and_assign_cidr (zero_node\<lparr>peer := Some p\<rparr>) key c bs)\<rparr>"

text \<open>
  The second half of \<^verbatim>\<open>add\<close>, from \<^verbatim>\<open>cidr = min(...)\<close> on: the new node goes between
  \<open>parent\<close> and \<open>down\<close>, directly or below a node for their common prefix.
\<close>

definition add_above ::
    "allowedips \<Rightarrow> bool \<Rightarrow> u8 \<Rightarrow> bytes \<Rightarrow> u8 \<Rightarrow> addr \<Rightarrow> addr option \<Rightarrow> addr \<Rightarrow> addr option \<Rightarrow>
     errno option \<times> allowedips" where
  "add_above tb v6 bs key c newnode parent down mem =
     (let c = min c (common_bits (node_at tb down) key bs) in
      if cidr (node_at tb newnode) = c then
        (let tb = choose_and_connect_node tb newnode down
         in (None, case parent of
                     None \<Rightarrow> connect_node tb (RootSlot v6) 2 newnode
                   | Some pa \<Rightarrow> choose_and_connect_node tb pa newnode))
      else
        case mem of
          None \<Rightarrow> (Some ENOMEM, (list_del newnode tb)\<lparr>nodes := (nodes tb)(newnode := None)\<rparr>)
        | Some node \<Rightarrow>
            (let tb = tb\<lparr>nodes := (nodes tb)
                   (node \<mapsto> copy_and_assign_cidr zero_node (bits (node_at tb newnode)) c bs)\<rparr>;
                 tb = choose_and_connect_node tb node down;
                 tb = choose_and_connect_node tb node newnode
             in (None, case parent of
                         None \<Rightarrow> connect_node tb (RootSlot v6) 2 node
                       | Some pa \<Rightarrow> choose_and_connect_node tb pa node)))"

definition add ::
    "allowedips \<Rightarrow> bool \<Rightarrow> u8 \<Rightarrow> bytes \<Rightarrow> u8 \<Rightarrow> peer_id option \<Rightarrow> addr option \<Rightarrow> addr option \<Rightarrow>
     (errno option \<times> allowedips) option" where
  "add tb v6 bs key c p mem1 mem2 =
     (case p of
        None \<Rightarrow> Some (Some EINVAL, tb)
      | Some p \<Rightarrow>
        if c > bs then Some (Some EINVAL, tb)
        else case root_of tb v6 of
          None \<Rightarrow>
            (case mem1 of
               None \<Rightarrow> Some (Some ENOMEM, tb)
             | Some node \<Rightarrow>
                 Some (None, connect_node (new_peer_node tb node p key c bs) (RootSlot v6) 2 node))
        | Some root \<Rightarrow> do {
            (exact, node) \<leftarrow> node_placement tb (Some root) key c bs;
            if exact then
              let a = the node;
                  tb = tb\<lparr>nodes := (nodes tb)(a \<mapsto> (node_at tb a)\<lparr>peer := Some p\<rparr>)\<rparr>
              in Some (None, list_move_tail a p tb)
            else case mem1 of
              None \<Rightarrow> Some (Some ENOMEM, tb)
            | Some newnode \<Rightarrow>
                let tb = new_peer_node tb newnode p key c bs in
                case node of
                  None \<Rightarrow> Some (add_above tb v6 bs key c newnode None root mem2)
                | Some pa \<Rightarrow>
                    let d = choose_bit (node_at tb pa) key in
                    (case node_bit (node_at tb pa) d of
                       None \<Rightarrow> Some (None, connect_node tb (BitSlot pa d) (of_bool d) newnode)
                     | Some down \<Rightarrow> Some (add_above tb v6 bs key c newnode (Some pa) down mem2))
          })"

definition wg_allowedips_init :: "allowedips \<Rightarrow> allowedips" where
  "wg_allowedips_init tb = tb\<lparr>root4 := None, root6 := None, seq := 1\<rparr>"

definition wg_allowedips_insert_v4 ::
    "allowedips \<Rightarrow> bytes \<Rightarrow> u8 \<Rightarrow> peer_id option \<Rightarrow> addr option \<Rightarrow> addr option \<Rightarrow>
     (errno option \<times> allowedips) option" where
  "wg_allowedips_insert_v4 tb ip c p mem1 mem2 =
     add (tb\<lparr>seq := seq tb + 1\<rparr>) False 32 (swap_endian (replicate 4 0) ip 32) c p mem1 mem2"

definition wg_allowedips_insert_v6 ::
    "allowedips \<Rightarrow> bytes \<Rightarrow> u8 \<Rightarrow> peer_id option \<Rightarrow> addr option \<Rightarrow> addr option \<Rightarrow>
     (errno option \<times> allowedips) option" where
  "wg_allowedips_insert_v6 tb ip c p mem1 mem2 =
     add (tb\<lparr>seq := seq tb + 1\<rparr>) True 128 (swap_endian (replicate 16 0) ip 128) c p mem1 mem2"

section \<open>Removal\<close>

definition set_parent_bit :: "allowedips \<Rightarrow> addr option \<Rightarrow> slot \<times> nat \<Rightarrow> allowedips" where
  "set_parent_bit tb child pb =
     (case child of
        None \<Rightarrow> tb
      | Some a \<Rightarrow> tb\<lparr>nodes := (nodes tb)(a \<mapsto> (node_at tb a)\<lparr>parent_bit_packed := pb\<rparr>)\<rparr>)"

definition free_node :: "allowedips \<Rightarrow> addr \<Rightarrow> allowedips" where
  "free_node tb a = tb\<lparr>nodes := (nodes tb)(a := None)\<rparr>"

text \<open>Putting \<open>child\<close> into the slot that \<open>pb\<close> (a \<^verbatim>\<open>parent_bit_packed\<close>) names.\<close>

definition replace_child :: "allowedips \<Rightarrow> slot \<times> nat \<Rightarrow> addr option \<Rightarrow> allowedips" where
  "replace_child tb pb child = slot_set (set_parent_bit tb child pb) (fst pb) child"

definition unlink_peer :: "allowedips \<Rightarrow> addr \<Rightarrow> allowedips" where
  "unlink_peer tb a = (list_del a tb)\<lparr>nodes := (nodes tb)(a \<mapsto> (node_at tb a)\<lparr>peer := None\<rparr>)\<rparr>"

text \<open>
  The body of the loop of \<^verbatim>\<open>wg_allowedips_remove_by_peer\<close>. The slot lies in a parent node
  unless it is a root of the table, for which the low bits of \<^verbatim>\<open>parent_bit_packed\<close> are 2.
\<close>

definition remove_node :: "allowedips \<Rightarrow> addr \<Rightarrow> allowedips" where
  "remove_node tb a =
     (let tb = unlink_peer tb a; node = node_at tb a in
      if bit0 node \<noteq> None \<and> bit1 node \<noteq> None then tb
      else
        let child = (if bit0 node = None then bit1 node else bit0 node);
            pb = parent_bit_packed node;
            tb = replace_child tb pb child
        in case fst pb of
             RootSlot _ \<Rightarrow> free_node tb a
           | BitSlot parent _ \<Rightarrow>
               let free_parent = (bit0 node = None \<and> bit1 node = None \<and> snd pb \<le> 1 \<and>
                                  peer (node_at tb parent) = None);
                   child = node_bit (node_at tb parent) (snd pb = 0);
                   tb = free_node tb a
               in if \<not> free_parent then tb
                  else free_node (replace_child tb (parent_bit_packed (node_at tb parent)) child) parent)"

definition wg_allowedips_remove_by_peer :: "allowedips \<Rightarrow> peer_id \<Rightarrow> allowedips" where
  "wg_allowedips_remove_by_peer tb p =
     (if peer_lists tb p = [] then tb
      else foldl remove_node (tb\<lparr>seq := seq tb + 1\<rparr>) (peer_lists tb p))"

text \<open>
  The traversals keep their nodes on a stack of fixed size; the model has the top of the
  stack first, and \<open>None\<close> for a store beyond its end.
\<close>

definition MAX_ALLOWEDIPS_DEPTH :: nat where "MAX_ALLOWEDIPS_DEPTH = 129"

definition push_rcu :: "addr list \<Rightarrow> addr option \<Rightarrow> addr list option" where
  "push_rcu stack p =
     (case p of
        None \<Rightarrow> Some stack
      | Some a \<Rightarrow> if length stack \<ge> MAX_ALLOWEDIPS_DEPTH then None else Some (a # stack))"

partial_function (option) root_free_loop :: "allowedips \<Rightarrow> addr list \<Rightarrow> allowedips option" where
  "root_free_loop tb stack =
     (case stack of
        [] \<Rightarrow> Some tb
      | a # stack \<Rightarrow> do {
          stack \<leftarrow> push_rcu stack (bit0 (node_at tb a));
          stack \<leftarrow> push_rcu stack (bit1 (node_at tb a));
          root_free_loop (free_node tb a) stack
        })"

definition root_free_rcu :: "allowedips \<Rightarrow> addr \<Rightarrow> allowedips option" where
  "root_free_rcu tb root = root_free_loop tb [root]"

partial_function (option) root_remove_peer_lists_loop ::
    "allowedips \<Rightarrow> addr list \<Rightarrow> allowedips option" where
  "root_remove_peer_lists_loop tb stack =
     (case stack of
        [] \<Rightarrow> Some tb
      | a # stack \<Rightarrow> do {
          stack \<leftarrow> push_rcu stack (bit0 (node_at tb a));
          stack \<leftarrow> push_rcu stack (bit1 (node_at tb a));
          root_remove_peer_lists_loop
            (if peer (node_at tb a) \<noteq> None then list_del a tb else tb) stack
        })"

definition root_remove_peer_lists :: "allowedips \<Rightarrow> addr \<Rightarrow> allowedips option" where
  "root_remove_peer_lists tb root = root_remove_peer_lists_loop tb [root]"

definition free_root :: "allowedips \<Rightarrow> addr option \<Rightarrow> allowedips option" where
  "free_root tb old =
     (case old of
        None \<Rightarrow> Some tb
      | Some node \<Rightarrow> do { tb \<leftarrow> root_remove_peer_lists tb node; root_free_rcu tb node })"

definition wg_allowedips_free :: "allowedips \<Rightarrow> allowedips option" where
  "wg_allowedips_free tb =
     (let old4 = root4 tb; old6 = root6 tb;
          tb = tb\<lparr>seq := seq tb + 1, root4 := None, root6 := None\<rparr>
      in do { tb \<leftarrow> free_root tb old4; free_root tb old6 })"

section \<open>Reading entries and packets\<close>

datatype family = AF_INET | AF_INET6

definition wg_allowedips_read_node :: "allowedips_node \<Rightarrow> bytes \<Rightarrow> bytes \<times> u8 \<times> family" where
  "wg_allowedips_read_node node ip =
     (let cidr_bytes = (unat (cidr node) + 7) div 8;
          ip = swap_endian ip (bits node) (bitlen node);
          ip = take cidr_bytes ip @ replicate (unat (bitlen node) div 8 - cidr_bytes) 0
                 @ drop (max cidr_bytes (unat (bitlen node) div 8)) ip;
          ip = (if cidr node \<noteq> 0 then
                  ip[cidr_bytes - 1 :=
                     ip ! (cidr_bytes - 1) AND
                       ucast (push_bit (unat ((- ucast (cidr node) :: u32) mod 8)) (NOT 0 :: u32))]
                else ip)
      in (ip, cidr node, if bitlen node = 32 then AF_INET else AF_INET6))"

definition wg_allowedips_lookup_dst ::
    "(allowedips \<times> refcounts) list \<Rightarrow> refcounts \<Rightarrow> sk_buff \<Rightarrow> (peer_id option \<times> refcounts) option" where
  "wg_allowedips_lookup_dst views refs skb =
     (if protocol skb = htons ETH_P_IP then lookup views False 32 (ip_daddr (network skb))
      else if protocol skb = htons ETH_P_IPV6 then lookup views True 128 (ipv6_daddr (network skb))
      else Some (None, refs))"

definition wg_allowedips_lookup_src ::
    "(allowedips \<times> refcounts) list \<Rightarrow> refcounts \<Rightarrow> sk_buff \<Rightarrow> (peer_id option \<times> refcounts) option" where
  "wg_allowedips_lookup_src views refs skb =
     (if protocol skb = htons ETH_P_IP then lookup views False 32 (ip_saddr (network skb))
      else if protocol skb = htons ETH_P_IPV6 then lookup views True 128 (ipv6_saddr (network skb))
      else Some (None, refs))"

declare find_node_loop.simps [code] node_placement_loop.simps [code]
  root_free_loop.simps [code] root_remove_peer_lists_loop.simps [code]

end
