(* ===== verification/WG_Ratelimiter.thy ===== *)
theory WG_Ratelimiter
  imports WG_Bits WG_Skb WG_Messages
begin

unbundle bit_operations_syntax

text \<open>
  The handshake rate limiter of \<^verbatim>\<open>ratelimiter.c\<close>: a token bucket per source address and
  network namespace, kept in two hash tables with a bounded number of entries and a
  periodic sweep of idle entries. The keyed hash, the clock and the results of the
  allocators are arguments. An entry passed to \<^verbatim>\<open>call_rcu\<close> still counts in
  \<^verbatim>\<open>total_entries\<close> until its grace period ends (\<open>entry_free\<close>).
\<close>

section \<open>State\<close>

record ratelimiter_entry =
  last_time_ns :: u64
  tokens :: u64
  rl_ip :: u64
  rl_net :: u64

record 'k ratelimiter =
  init_refcnt :: u64
  entry_cache :: bool
  rl_key :: 'k
  total_entries :: u32
  max_entries :: u32
  table_size :: u32
  table_v4 :: "ratelimiter_entry list list option"
  table_v6 :: "ratelimiter_entry list list option"
  gc_queued :: bool
  rcu_pending :: nat

text \<open>The keyed hash functions \<^verbatim>\<open>hsiphash_2u32\<close> and \<^verbatim>\<open>hsiphash_3u32\<close>.\<close>

record 'k hsiphash =
  hsiphash_2u32 :: "u32 \<Rightarrow> u32 \<Rightarrow> 'k \<Rightarrow> u32"
  hsiphash_3u32 :: "u32 \<Rightarrow> u32 \<Rightarrow> u32 \<Rightarrow> 'k \<Rightarrow> u32"

definition PACKETS_PER_SECOND :: u64 where "PACKETS_PER_SECOND = 20"
definition PACKETS_BURSTABLE :: u64 where "PACKETS_BURSTABLE = 5"
definition PACKET_COST :: u64 where "PACKET_COST = NSEC_PER_SEC div PACKETS_PER_SECOND"
definition TOKEN_MAX :: u64 where "TOKEN_MAX = PACKET_COST * PACKETS_BURSTABLE"

section \<open>Entries\<close>

definition entry_free :: "'k ratelimiter \<Rightarrow> 'k ratelimiter" where
  "entry_free rl = rl\<lparr>rcu_pending := rcu_pending rl - 1, total_entries := total_entries rl - 1\<rparr>"

text \<open>All pending callbacks run, as \<^verbatim>\<open>rcu_barrier\<close> waits for.\<close>

definition rcu_barrier :: "'k ratelimiter \<Rightarrow> 'k ratelimiter" where
  "rcu_barrier rl = (entry_free ^^ rcu_pending rl) rl"

definition gc_keeps :: "bool \<Rightarrow> u64 \<Rightarrow> ratelimiter_entry \<Rightarrow> bool" where
  "gc_keeps work now e \<longleftrightarrow> \<not> (\<not> work \<or> now - last_time_ns e > NSEC_PER_SEC)"

definition gc_table :: "bool \<Rightarrow> u64 \<Rightarrow> ratelimiter_entry list list option \<Rightarrow>
    nat \<times> ratelimiter_entry list list option" where
  "gc_table work now tbl =
     (case tbl of
        None \<Rightarrow> (0, None)
      | Some bs \<Rightarrow>
          (sum_list (map (\<lambda>b. length (filter (\<lambda>e. \<not> gc_keeps work now e) b)) bs),
           Some (map (filter (gc_keeps work now)) bs)))"

definition wg_ratelimiter_gc_entries :: "bool \<Rightarrow> u64 \<Rightarrow> 'k ratelimiter \<Rightarrow> 'k ratelimiter" where
  "wg_ratelimiter_gc_entries work now rl =
     (let (n4, t4) = gc_table work now (table_v4 rl);
          (n6, t6) = gc_table work now (table_v6 rl);
          rl = rl\<lparr>table_v4 := t4, table_v6 := t6, rcu_pending := rcu_pending rl + n4 + n6\<rparr>
      in if work then rl\<lparr>gc_queued := True\<rparr> else rl)"

text \<open>The token bucket: the locked section of \<^verbatim>\<open>wg_ratelimiter_allow\<close> on a found entry.\<close>

definition entry_allow :: "u64 \<Rightarrow> ratelimiter_entry \<Rightarrow> bool \<times> ratelimiter_entry" where
  "entry_allow now e =
     (let toks = min TOKEN_MAX (tokens e + now - last_time_ns e);
          ret = (toks \<ge> PACKET_COST)
      in (ret, e\<lparr>last_time_ns := now, tokens := (if ret then toks - PACKET_COST else toks)\<rparr>))"

fun bucket_allow :: "u64 \<Rightarrow> u64 \<Rightarrow> u64 \<Rightarrow> ratelimiter_entry list \<Rightarrow>
    (bool \<times> ratelimiter_entry list) option" where
  "bucket_allow n i now [] = None"
| "bucket_allow n i now (e # es) =
     (if rl_net e = n \<and> rl_ip e = i then
        let (ret, e) = entry_allow now e in Some (ret, e # es)
      else map_option (\<lambda>(ret, es). (ret, e # es)) (bucket_allow n i now es))"

definition new_entry :: "u64 \<Rightarrow> u64 \<Rightarrow> u64 \<Rightarrow> ratelimiter_entry" where
  "new_entry n i now =
     \<lparr>last_time_ns = now, tokens = TOKEN_MAX - PACKET_COST, rl_ip = i, rl_net = n\<rparr>"

definition set_bucket :: "bool \<Rightarrow> nat \<Rightarrow> ratelimiter_entry list \<Rightarrow> 'k ratelimiter \<Rightarrow> 'k ratelimiter" where
  "set_bucket v6 i b rl =
     (if v6 then rl\<lparr>table_v6 := map_option (\<lambda>t. t[i := b]) (table_v6 rl)\<rparr>
      else rl\<lparr>table_v4 := map_option (\<lambda>t. t[i := b]) (table_v4 rl)\<rparr>)"

text \<open>
  The source of a packet as the limiter sees it: the IPv4 address, or the first half of
  the IPv6 address; and the bucket it hashes to.
\<close>

definition packet_source :: "sk_buff \<Rightarrow> (bool \<times> u64) option" where
  "packet_source skb =
     (if protocol skb = htons ETH_P_IP
      then Some (False, ucast (load_le (ip_saddr (network skb)) :: u32))
      else if protocol skb = htons ETH_P_IPV6
      then Some (True, load_le (take 8 (ipv6_saddr (network skb))))
      else None)"

definition bucket_of :: "'k hsiphash \<Rightarrow> 'k ratelimiter \<Rightarrow> bool \<Rightarrow> u64 \<Rightarrow> u64 \<Rightarrow> nat" where
  "bucket_of H rl v6 i n =
     (let net_word = ucast n :: u32 in
      unat ((if v6 then hsiphash_3u32 H net_word (ucast (drop_bit 32 i)) (ucast i) (rl_key rl)
             else hsiphash_2u32 H net_word (ucast i) (rl_key rl)) AND (table_size rl - 1)))"

definition buckets :: "'k ratelimiter \<Rightarrow> bool \<Rightarrow> ratelimiter_entry list list" where
  "buckets rl v6 = the (if v6 then table_v6 rl else table_v4 rl)"

definition wg_ratelimiter_allow ::
    "'k hsiphash \<Rightarrow> sk_buff \<Rightarrow> u64 \<Rightarrow> u64 \<Rightarrow> bool \<Rightarrow> 'k ratelimiter \<Rightarrow> bool \<times> 'k ratelimiter" where
  "wg_ratelimiter_allow H skb n now alloc rl =
     (case packet_source skb of
        None \<Rightarrow> (False, rl)
      | Some (v6, i) \<Rightarrow>
          let b = bucket_of H rl v6 i n; bucket = buckets rl v6 ! b in
          (case bucket_allow n i now bucket of
             Some (ret, bucket) \<Rightarrow> (ret, set_bucket v6 b bucket rl)
           | None \<Rightarrow>
               let rl = rl\<lparr>total_entries := total_entries rl + 1\<rparr> in
               if total_entries rl > max_entries rl \<or> \<not> alloc
               then (False, rl\<lparr>total_entries := total_entries rl - 1\<rparr>)
               else (True, set_bucket v6 b (new_entry n i now # bucket) rl)))"

section \<open>Setup\<close>

definition PAGE_SHIFT :: nat where "PAGE_SHIFT = 12"

definition roundup_pow_of_two :: "u64 \<Rightarrow> u64" where
  "roundup_pow_of_two n = push_bit (fls (n - 1)) 1"

definition compute_table_size :: "u64 \<Rightarrow> u32" where
  "compute_table_size totalram_pages =
     (if totalram_pages > push_bit 30 1 div push_bit PAGE_SHIFT 1 then 8192
      else ucast (max 16 (roundup_pow_of_two
        (push_bit PAGE_SHIFT totalram_pages div push_bit 14 1 div 8))))"

definition empty_buckets :: "u32 \<Rightarrow> ratelimiter_entry list list" where
  "empty_buckets n = replicate (unat n) []"

text \<open>
  \<^verbatim>\<open>cache_ok\<close>, \<^verbatim>\<open>v4_ok\<close> and \<^verbatim>\<open>v6_ok\<close> say whether the three allocations succeed.
\<close>

definition wg_ratelimiter_init ::
    "u64 \<Rightarrow> bool \<Rightarrow> bool \<Rightarrow> bool \<Rightarrow> 'k \<Rightarrow> 'k ratelimiter \<Rightarrow> errno option \<times> 'k ratelimiter" where
  "wg_ratelimiter_init pages cache_ok v4_ok v6_ok k rl =
     (let rl = rl\<lparr>init_refcnt := init_refcnt rl + 1\<rparr> in
      if init_refcnt rl \<noteq> 1 then (None, rl)
      else if \<not> cache_ok then
        (Some ENOMEM, rl\<lparr>entry_cache := False, init_refcnt := init_refcnt rl - 1\<rparr>)
      else
        let rl = rl\<lparr>entry_cache := True, table_size := compute_table_size pages\<rparr>;
            rl = rl\<lparr>max_entries := table_size rl * 8\<rparr> in
        if \<not> v4_ok then
          (Some ENOMEM, rl\<lparr>table_v4 := None, entry_cache := False, init_refcnt := init_refcnt rl - 1\<rparr>)
        else if \<not> v6_ok then
          (Some ENOMEM, rl\<lparr>table_v4 := None, table_v6 := None, entry_cache := False,
                          init_refcnt := init_refcnt rl - 1\<rparr>)
        else
          (None, rl\<lparr>table_v4 := Some (empty_buckets (table_size rl)),
                    table_v6 := Some (empty_buckets (table_size rl)),
                    gc_queued := True, rl_key := k\<rparr>))"

definition wg_ratelimiter_uninit :: "u64 \<Rightarrow> 'k ratelimiter \<Rightarrow> 'k ratelimiter" where
  "wg_ratelimiter_uninit now rl =
     (if init_refcnt rl = 0 then rl
      else
        let rl = rl\<lparr>init_refcnt := init_refcnt rl - 1\<rparr> in
        if init_refcnt rl \<noteq> 0 then rl
        else
          let rl = rl\<lparr>gc_queued := False\<rparr>;
              rl = wg_ratelimiter_gc_entries False now rl;
              rl = rcu_barrier rl
          in rl\<lparr>table_v4 := None, table_v6 := None, entry_cache := False\<rparr>)"

section \<open>Specification\<close>

text \<open>
  What happens to the limiter over time: packets that ask for permission, sweeps of the
  table and ends of grace periods. Every event has a time.
\<close>

datatype rl_event = Allow sk_buff u64 u64 bool | Gc u64 | Grace u64

fun event_time :: "rl_event \<Rightarrow> u64" where
  "event_time (Allow skb n now alloc) = now"
| "event_time (Gc now) = now"
| "event_time (Grace now) = now"

fun rl_step :: "'k hsiphash \<Rightarrow> rl_event \<Rightarrow> 'k ratelimiter \<Rightarrow> bool \<times> 'k ratelimiter" where
  "rl_step H (Allow skb n now alloc) rl = wg_ratelimiter_allow H skb n now alloc rl"
| "rl_step H (Gc now) rl = (False, wg_ratelimiter_gc_entries True now rl)"
| "rl_step H (Grace now) rl = (False, if rcu_pending rl = 0 then rl else entry_free rl)"

text \<open>A source: family, address as the limiter keeps it, and network namespace.\<close>

type_synonym source = "bool \<times> u64 \<times> u64"

fun from_source :: "source \<Rightarrow> rl_event \<Rightarrow> bool" where
  "from_source (v6, i, n) (Allow skb n' now alloc) \<longleftrightarrow> packet_source skb = Some (v6, i) \<and> n' = n"
| "from_source s _ \<longleftrightarrow> False"

text \<open>How many packets of a source a run of events lets through.\<close>

fun allowed_count :: "'k hsiphash \<Rightarrow> source \<Rightarrow> rl_event list \<Rightarrow> 'k ratelimiter \<Rightarrow> nat" where
  "allowed_count H s [] rl = 0"
| "allowed_count H s (ev # evs) rl =
     (let (ret, rl') = rl_step H ev rl
      in (if ret \<and> from_source s ev then 1 else 0) + allowed_count H s evs rl')"

text \<open>Times do not go back, from \<open>t\<close> on, and the clock is not about to overflow.\<close>

fun timed :: "nat \<Rightarrow> rl_event list \<Rightarrow> bool" where
  "timed t [] \<longleftrightarrow> True"
| "timed t (ev # evs) \<longleftrightarrow> t \<le> unat (event_time ev) \<and> unat (event_time ev) < 2 ^ 63 \<and>
     timed (unat (event_time ev)) evs"

definition last_time :: "nat \<Rightarrow> rl_event list \<Rightarrow> nat" where
  "last_time t evs = (if evs = [] then t else unat (event_time (last evs)))"

text \<open>The tokens a source has at time \<open>t\<close>; a source without an entry has a full bucket.\<close>

definition entry_for :: "ratelimiter_entry list \<Rightarrow> u64 \<Rightarrow> u64 \<Rightarrow> ratelimiter_entry option" where
  "entry_for es i n = find (\<lambda>e. rl_net e = n \<and> rl_ip e = i) es"

definition entry_level :: "nat \<Rightarrow> ratelimiter_entry option \<Rightarrow> nat" where
  "entry_level t eo = (case eo of
      None \<Rightarrow> unat TOKEN_MAX
    | Some e \<Rightarrow> min (unat TOKEN_MAX) (unat (tokens e) + (t - unat (last_time_ns e))))"

definition level :: "'k hsiphash \<Rightarrow> 'k ratelimiter \<Rightarrow> source \<Rightarrow> nat \<Rightarrow> nat" where
  "level H rl s t = (case s of (v6, i, n) \<Rightarrow>
     entry_level t (entry_for (buckets rl v6 ! bucket_of H rl v6 i n) i n))"

text \<open>The invariant of a limiter in use, at time \<open>t\<close>.\<close>

definition bucket_ok :: "nat \<Rightarrow> ratelimiter_entry list \<Rightarrow> bool" where
  "bucket_ok t es \<longleftrightarrow>
     distinct (map (\<lambda>e. (rl_net e, rl_ip e)) es) \<and>
     (\<forall>e \<in> set es. tokens e \<le> TOKEN_MAX \<and> unat (last_time_ns e) \<le> t)"

definition live_entries :: "'k ratelimiter \<Rightarrow> nat" where
  "live_entries rl = sum_list (map length (buckets rl False)) + sum_list (map length (buckets rl True))"

definition rl_ok :: "nat \<Rightarrow> 'k ratelimiter \<Rightarrow> bool" where
  "rl_ok t rl \<longleftrightarrow>
     (\<exists>k. unat (table_size rl) = 2 ^ k) \<and> table_size rl \<le> 8192 \<and> max_entries rl = table_size rl * 8 \<and>
     table_v4 rl \<noteq> None \<and> table_v6 rl \<noteq> None \<and>
     (\<forall>v6. length (buckets rl v6) = unat (table_size rl) \<and> (\<forall>es \<in> set (buckets rl v6). bucket_ok t es)) \<and>
     unat (total_entries rl) = live_entries rl + rcu_pending rl \<and>
     total_entries rl \<le> max_entries rl"

text \<open>Nothing is allocated.\<close>

definition rl_off :: "'k ratelimiter \<Rightarrow> bool" where
  "rl_off rl \<longleftrightarrow> init_refcnt rl = 0 \<and> \<not> entry_cache rl \<and> table_v4 rl = None \<and> table_v6 rl = None \<and>
     total_entries rl = 0 \<and> rcu_pending rl = 0 \<and> \<not> gc_queued rl"

fun rl_run :: "'k hsiphash \<Rightarrow> rl_event list \<Rightarrow> 'k ratelimiter \<Rightarrow> 'k ratelimiter" where
  "rl_run H [] rl = rl"
| "rl_run H (ev # evs) rl = rl_run H evs (snd (rl_step H ev rl))"

text \<open>A limiter before its first use, and one set up on a machine with little memory.\<close>

definition zero_ratelimiter :: "unit ratelimiter" where
  "zero_ratelimiter = \<lparr>init_refcnt = 0, entry_cache = False, rl_key = (), total_entries = 0,
     max_entries = 0, table_size = 0, table_v4 = None, table_v6 = None, gc_queued = False, rcu_pending = 0\<rparr>"

definition demo_limiter :: "unit ratelimiter" where
  "demo_limiter = snd (wg_ratelimiter_init 100 True True True () zero_ratelimiter)"

definition demo_hash :: "unit hsiphash" where
  "demo_hash = \<lparr>hsiphash_2u32 = (\<lambda>a b k. a + b), hsiphash_3u32 = (\<lambda>a b c k. a + b + c)\<rparr>"

definition demo_packet :: sk_buff where
  "demo_packet = \<lparr>protocol = htons ETH_P_IP, network = replicate 12 0 @ [10, 0, 0, 1] @ replicate 4 0\<rparr>"

section \<open>One entry\<close>

lemma constants:
  "NSEC_PER_SEC = 1000000000" "PACKET_COST = 50000000" "TOKEN_MAX = 250000000"
  by (simp_all add: NSEC_PER_SEC_def PACKET_COST_def TOKEN_MAX_def PACKETS_PER_SECOND_def PACKETS_BURSTABLE_def)

lemma unat_min_word: "unat (min a b) = min (unat a) (unat (b :: 'a::len word))"
  by (simp add: min_def word_le_nat_alt)

lemma entry_tokens:
  assumes "tokens e \<le> TOKEN_MAX" "unat (last_time_ns e) \<le> unat now" "unat now < 2 ^ 63"
  shows "unat (min TOKEN_MAX (tokens e + now - last_time_ns e)) =
    min (unat TOKEN_MAX) (unat (tokens e) + (unat now - unat (last_time_ns e)))"
proof -
  have le: "last_time_ns e \<le> now" using assms(2) by (simp add: word_le_nat_alt)
  have eq: "tokens e + now - last_time_ns e = tokens e + (now - last_time_ns e)" by simp
  have d: "unat (now - last_time_ns e) = unat now - unat (last_time_ns e)" by (rule unat_sub [OF le])
  have "unat (tokens e) \<le> 250000000" using assms(1) by (simp add: constants word_le_nat_alt)
  then have "unat (tokens e + (now - last_time_ns e)) = unat (tokens e) + (unat now - unat (last_time_ns e))"
    using assms(3) d by (subst unat_plus_no_wrap) auto
  then show ?thesis unfolding eq unat_min_word by simp
qed

lemma entry_allow_level:
  assumes e: "tokens e \<le> TOKEN_MAX" "unat (last_time_ns e) \<le> unat now" "unat now < 2 ^ 63"
    and r: "entry_allow now e = (ret, e')"
  shows "ret \<longleftrightarrow> unat PACKET_COST \<le> entry_level (unat now) (Some e)"
    and "entry_level (unat now) (Some e') + (if ret then unat PACKET_COST else 0) = entry_level (unat now) (Some e)"
    and "rl_net e' = rl_net e" "rl_ip e' = rl_ip e" "tokens e' \<le> TOKEN_MAX" "last_time_ns e' = now"
proof -
  define toks where "toks = min TOKEN_MAX (tokens e + now - last_time_ns e)"
  have t: "unat toks = entry_level (unat now) (Some e)"
    using entry_tokens [OF e] by (simp add: toks_def entry_level_def)
  have e': "ret = (toks \<ge> PACKET_COST)"
    "e' = e\<lparr>last_time_ns := now, tokens := (if ret then toks - PACKET_COST else toks)\<rparr>"
    using r by (auto simp: entry_allow_def toks_def Let_def)
  show ret: "ret \<longleftrightarrow> unat PACKET_COST \<le> entry_level (unat now) (Some e)"
    unfolding e'(1) t [symmetric] by (simp add: word_le_nat_alt)
  have tm: "unat toks \<le> 250000000" unfolding t by (simp add: entry_level_def constants)
  have "unat (tokens e') = (if ret then unat toks - unat PACKET_COST else unat toks)"
    using e' by (auto simp: unat_sub)
  then show "entry_level (unat now) (Some e') + (if ret then unat PACKET_COST else 0) = entry_level (unat now) (Some e)"
    and "tokens e' \<le> TOKEN_MAX"
    using e'(2) ret t tm by (auto simp: entry_level_def constants word_le_nat_alt)
qed (use r in \<open>auto simp: entry_allow_def Let_def\<close>)

lemma entry_level_mono:
  "t \<le> t' \<Longrightarrow> entry_level t' eo \<le> entry_level t eo + (t' - t)"
  by (auto simp: entry_level_def split: option.splits)

section \<open>One bucket\<close>

lemma entry_for_Cons:
  "entry_for (e # es) i n = (if rl_net e = n \<and> rl_ip e = i then Some e else entry_for es i n)"
  by (simp add: entry_for_def)

lemma entry_for_Some: "entry_for es i n = Some e \<Longrightarrow> e \<in> set es \<and> rl_net e = n \<and> rl_ip e = i"
  by (auto simp: entry_for_def find_Some_iff)

lemma entry_for_None: "entry_for es i n = None \<longleftrightarrow> (\<forall>e \<in> set es. \<not> (rl_net e = n \<and> rl_ip e = i))"
  by (auto simp: entry_for_def find_None_iff)

lemma bucket_ok_mono: "bucket_ok t es \<Longrightarrow> t \<le> t' \<Longrightarrow> bucket_ok t' es"
  by (auto simp: bucket_ok_def)

lemma bucket_ok_Cons:
  "bucket_ok t (e # es) \<longleftrightarrow> bucket_ok t es \<and> tokens e \<le> TOKEN_MAX \<and> unat (last_time_ns e) \<le> t \<and>
     entry_for es (rl_ip e) (rl_net e) = None"
  by (auto simp: bucket_ok_def entry_for_None image_iff)

lemma bucket_allow_None: "bucket_allow n i now es = None \<longleftrightarrow> entry_for es i n = None"
  by (induction es) (auto simp: entry_for_Cons entry_for_def split: prod.splits)

lemma bucket_allow_Some:
  assumes "bucket_allow n i now es = Some (ret, es')" "bucket_ok t es" "t \<le> unat now" "unat now < 2 ^ 63"
  shows "length es' = length es \<and> bucket_ok (unat now) es' \<and>
     (\<forall>i' n'. (i', n') \<noteq> (i, n) \<longrightarrow> entry_for es' i' n' = entry_for es i' n') \<and>
     (\<exists>e e'. entry_for es i n = Some e \<and> entry_for es' i n = Some e' \<and> entry_allow now e = (ret, e'))"
  using assms(1,2)
proof (induction es arbitrary: es')
  case (Cons e es)
  have ok: "bucket_ok t es" "tokens e \<le> TOKEN_MAX" "unat (last_time_ns e) \<le> unat now"
    "entry_for es (rl_ip e) (rl_net e) = None"
    using Cons.prems(2) assms(3) by (auto simp: bucket_ok_Cons)
  show ?case
  proof (cases "rl_net e = n \<and> rl_ip e = i")
    case True
    then obtain e' where e': "entry_allow now e = (ret, e')" "es' = e' # es"
      using Cons.prems(1) by (auto split: prod.splits)
    note l = entry_allow_level [OF ok(2,3) assms(4) e'(1)]
    show ?thesis
      using True e' l ok bucket_ok_mono [OF ok(1) assms(3)]
      by (auto simp: entry_for_Cons bucket_ok_Cons)
  next
    case False
    then obtain es1 where es1: "bucket_allow n i now es = Some (ret, es1)" "es' = e # es1"
      using Cons.prems(1) by auto
    have IH: "length es1 = length es" "bucket_ok (unat now) es1"
      "\<And>i' n'. (i', n') \<noteq> (i, n) \<Longrightarrow> entry_for es1 i' n' = entry_for es i' n'"
      "\<exists>e e'. entry_for es i n = Some e \<and> entry_for es1 i n = Some e' \<and> entry_allow now e = (ret, e')"
      using Cons.IH [OF es1(1) ok(1)] by blast+
    then have "entry_for es1 (rl_ip e) (rl_net e) = None" using False ok(4) by auto
    then show ?thesis using es1 IH False ok by (auto simp: entry_for_Cons bucket_ok_Cons)
  qed
qed simp

lemma entry_for_filter:
  assumes "distinct (map (\<lambda>e. (rl_net e, rl_ip e)) es)"
  shows "entry_for (filter P es) i n =
    (case entry_for es i n of None \<Rightarrow> None | Some e \<Rightarrow> if P e then Some e else None)"
  using assms
proof (induction es)
  case (Cons e es)
  have "entry_for es i n = None" if "rl_net e = n \<and> rl_ip e = i"
    using Cons.prems that by (auto simp: entry_for_None image_iff)
  then show ?case using Cons by (auto simp: entry_for_Cons split: option.splits)
qed (simp add: entry_for_def)

text \<open>Sweeping an idle entry is not observable: its bucket would be full.\<close>

lemma gc_level:
  assumes ok: "bucket_ok t es" and t: "t \<le> unat now" "unat now \<le> t'"
  shows "entry_level t' (entry_for (filter (gc_keeps True now) es) i n) = entry_level t' (entry_for es i n)"
proof (cases "entry_for es i n")
  case (Some e)
  have d: "distinct (map (\<lambda>e. (rl_net e, rl_ip e)) es)" using ok by (simp add: bucket_ok_def)
  have "unat (last_time_ns e) \<le> unat now"
    using ok entry_for_Some [OF Some] t by (auto simp: bucket_ok_def)
  then have "unat (now - last_time_ns e) = unat now - unat (last_time_ns e)"
    by (simp add: unat_sub word_le_nat_alt)
  then have "\<not> gc_keeps True now e \<Longrightarrow> 1000000000 < unat now - unat (last_time_ns e)"
    by (simp add: gc_keeps_def constants word_less_nat_alt)
  then have "\<not> gc_keeps True now e \<Longrightarrow> entry_level t' (Some e) = entry_level t' None"
    using t by (auto simp: entry_level_def constants)
  then show ?thesis using Some entry_for_filter [OF d] by simp
qed (use ok in \<open>simp add: entry_for_filter bucket_ok_def\<close>)

lemma bucket_ok_filter: "bucket_ok t es \<Longrightarrow> bucket_ok t (filter P es)"
  by (auto simp: bucket_ok_def distinct_map_filter)

section \<open>The limiter\<close>

lemma and_minus_one_less:
  fixes x m :: "'a::len word"
  assumes "0 < m"
  shows "unat (x AND (m - 1)) < unat m"
proof -
  have "unat (x AND (m - 1)) \<le> unat (m - 1)" by (simp add: word_and_le1 unat_mono word_le_nat_alt [symmetric])
  also have "\<dots> < unat m" using assms by (metis measure_unat less_imp_neq)
  finally show ?thesis .
qed

lemma rl_ok_size: "rl_ok t rl \<Longrightarrow> 0 < table_size rl"
  by (auto simp: rl_ok_def word_less_nat_alt)

lemma bucket_of_less: "rl_ok t rl \<Longrightarrow> bucket_of H rl v6 i n < length (buckets rl v6)"
proof -
  assume ok: "rl_ok t rl"
  have "bucket_of H rl v6 i n < unat (table_size rl)"
    unfolding bucket_of_def Let_def by (rule and_minus_one_less [OF rl_ok_size [OF ok]])
  then show ?thesis using ok by (simp add: rl_ok_def)
qed

lemma rl_ok_bucket:
  "rl_ok t rl \<Longrightarrow> bucket_ok t (buckets rl v6 ! bucket_of H rl v6 i n)"
  using nth_mem [OF bucket_of_less [of t rl H v6 i n]] unfolding rl_ok_def by blast

lemma rl_ok_mono: "rl_ok t rl \<Longrightarrow> t \<le> t' \<Longrightarrow> rl_ok t' rl"
  using bucket_ok_mono unfolding rl_ok_def by blast

lemma set_bucket_sel [simp]:
  "table_size (set_bucket v6 j es rl) = table_size rl" "max_entries (set_bucket v6 j es rl) = max_entries rl"
  "total_entries (set_bucket v6 j es rl) = total_entries rl" "rcu_pending (set_bucket v6 j es rl) = rcu_pending rl"
  "rl_key (set_bucket v6 j es rl) = rl_key rl"
  "table_v4 (set_bucket v6 j es rl) = None \<longleftrightarrow> table_v4 rl = None"
  "table_v6 (set_bucket v6 j es rl) = None \<longleftrightarrow> table_v6 rl = None"
  by (auto simp: set_bucket_def)

lemma buckets_set_bucket:
  "rl_ok t rl \<Longrightarrow> buckets (set_bucket v6 j es rl) w = (if w = v6 then (buckets rl v6)[j := es] else buckets rl w)"
  by (cases v6; cases w) (auto simp: set_bucket_def buckets_def rl_ok_def)

lemma live_set_bucket:
  assumes "rl_ok t rl" "j < length (buckets rl v6)"
  shows "live_entries (set_bucket v6 j es rl) + length (buckets rl v6 ! j) = live_entries rl + length es"
proof -
  have "length (buckets rl v6 ! j) \<le> sum_list (map length (buckets rl v6))"
    using assms(2) by (metis elem_le_sum_list length_map nth_map)
  then show ?thesis
    using assms(2) by (cases v6) (auto simp: live_entries_def buckets_set_bucket [OF assms(1)] map_update sum_list_update)
qed

lemma set_bucket_ok:
  assumes ok: "rl_ok t rl" "t \<le> t'" and j: "j < length (buckets rl v6)" and es: "bucket_ok t' es"
    and len: "length es = length (buckets rl v6 ! j) + d"
    and tot: "unat (total_entries rl') = unat (total_entries rl) + d" "total_entries rl' \<le> max_entries rl"
    and rl': "rl' = rl\<lparr>total_entries := total_entries rl'\<rparr>"
  shows "rl_ok t' (set_bucket v6 j es rl')"
proof -
  have b: "buckets rl' = buckets rl" by (subst rl') (simp add: buckets_def fun_eq_iff)
  have bk: "buckets (set_bucket v6 j es rl') w = (if w = v6 then (buckets rl v6)[j := es] else buckets rl w)" for w
    using ok(1) by (subst rl') (cases v6; cases w; auto simp: set_bucket_def buckets_def rl_ok_def)
  have "live_entries (set_bucket v6 j es rl') = live_entries (set_bucket v6 j es rl)"
    unfolding live_entries_def bk buckets_set_bucket [OF ok(1)] ..
  then have live: "live_entries (set_bucket v6 j es rl') = live_entries rl + d"
    using live_set_bucket [OF ok(1) j, of es] len by simp
  have sel: "table_size rl' = table_size rl" "max_entries rl' = max_entries rl" "rcu_pending rl' = rcu_pending rl"
    "table_v4 rl' = table_v4 rl" "table_v6 rl' = table_v6 rl" by (subst rl', simp)+
  have "bucket_ok t' x" if "x \<in> set (buckets (set_bucket v6 j es rl') w)" for x w
  proof -
    have "x = es \<or> x \<in> set (buckets rl w)"
      using that unfolding bk by (auto split: if_splits dest: set_update_subset_insert [THEN subsetD])
    then show ?thesis using es ok bucket_ok_mono unfolding rl_ok_def by blast
  qed
  then show ?thesis
    using ok(1) tot live unfolding rl_ok_def by (auto simp: sel bk)
qed

text \<open>Replacing one bucket: the levels of all other sources stay.\<close>

lemma level_set_bucket:
  assumes ok: "rl_ok t rl" and rl': "rl' = rl\<lparr>total_entries := x\<rparr>"
    and b: "b = bucket_of H rl v6 i n"
    and other: "\<And>i' n'. (i', n') \<noteq> (i, n) \<Longrightarrow> entry_for es i' n' = entry_for (buckets rl v6 ! b) i' n'"
  shows "level H (set_bucket v6 b es rl') (w, i', n') t' =
    (if (w, i', n') = (v6, i, n) then entry_level t' (entry_for es i n) else level H rl (w, i', n') t')"
proof -
  have bo: "bucket_of H (set_bucket v6 b es rl') w i' n' = bucket_of H rl w i' n'" for w i' n'
    by (simp add: rl' bucket_of_def Let_def)
  have bk: "buckets (set_bucket v6 b es rl') w = (if w = v6 then (buckets rl v6)[b := es] else buckets rl w)"
    using ok by (cases v6; cases w) (auto simp: rl' set_bucket_def buckets_def rl_ok_def)
  have bl: "b < length (buckets rl v6)" using bucket_of_less [OF ok] b by simp
  have "level H (set_bucket v6 b es rl') (w, i', n') t' = entry_level t' (entry_for
      ((if w = v6 then (buckets rl v6)[b := es] else buckets rl w) ! bucket_of H rl w i' n') i' n')"
    by (simp only: level_def prod.case bo bk)
  also have "\<dots> = (if (w, i', n') = (v6, i, n) then entry_level t' (entry_for es i n)
      else level H rl (w, i', n') t')"
    using bl other [of i' n'] by (auto simp: level_def b nth_list_update_if)
  finally show ?thesis .
qed

text \<open>The packet of a source that has an entry.\<close>

lemma allow_found:
  assumes ok: "rl_ok t rl" and t: "t \<le> unat now" "unat now < 2 ^ 63"
    and b: "b = bucket_of H rl v6 i n" and ba: "bucket_allow n i now (buckets rl v6 ! b) = Some (ret, es)"
  shows "rl_ok (unat now) (set_bucket v6 b es rl)"
    and "level H (set_bucket v6 b es rl) s (unat now) + (if ret \<and> s = (v6, i, n) then unat PACKET_COST else 0)
      = level H rl s (unat now)"
proof -
  have bl: "b < length (buckets rl v6)" using bucket_of_less [OF ok] by (simp add: b)
  have bok: "bucket_ok t (buckets rl v6 ! b)" using rl_ok_bucket [OF ok] by (simp add: b)
  note B = bucket_allow_Some [OF ba bok t]
  obtain e e' where e: "entry_for (buckets rl v6 ! b) i n = Some e" "entry_for es i n = Some e'"
    "entry_allow now e = (ret, e')" using B by blast
  have "tokens e \<le> TOKEN_MAX" "unat (last_time_ns e) \<le> unat now"
    using entry_for_Some [OF e(1)] bok t(1) by (auto simp: bucket_ok_def)
  note L = entry_allow_level(2) [OF this t(2) e(3)]
  have "total_entries rl \<le> max_entries rl" using ok unfolding rl_ok_def by blast
  then show "rl_ok (unat now) (set_bucket v6 b es rl)"
    by (intro set_bucket_ok [OF ok t(1) bl, where d = 0]) (use B in auto)
  obtain w i' n' where s: "s = (w, i', n')" by (cases s)
  have rl0: "rl = rl\<lparr>total_entries := total_entries rl\<rparr>" by simp
  have "level H (set_bucket v6 b es rl) s (unat now) = (if s = (v6, i, n) then entry_level (unat now) (Some e')
      else level H rl s (unat now))"
    unfolding s using level_set_bucket [OF ok rl0 b, of es w i' n' "unat now"] B e(2) by auto
  moreover have "level H rl (v6, i, n) (unat now) = entry_level (unat now) (Some e)"
    by (simp add: level_def b [symmetric] e(1))
  ultimately show "level H (set_bucket v6 b es rl) s (unat now) +
      (if ret \<and> s = (v6, i, n) then unat PACKET_COST else 0) = level H rl s (unat now)"
    using L by auto
qed

text \<open>The first packet of a source, with room for an entry.\<close>

lemma allow_new:
  assumes ok: "rl_ok t rl" and t: "t \<le> unat now" and b: "b = bucket_of H rl v6 i n"
    and nf: "entry_for (buckets rl v6 ! b) i n = None" and room: "\<not> total_entries rl + 1 > max_entries rl"
  defines "es \<equiv> new_entry n i now # buckets rl v6 ! b"
    and "rl1 \<equiv> rl\<lparr>total_entries := total_entries rl + 1\<rparr>"
  shows "rl_ok (unat now) (set_bucket v6 b es rl1)"
    and "level H (set_bucket v6 b es rl1) s (unat now) + (if s = (v6, i, n) then unat PACKET_COST else 0)
      = level H rl s (unat now)"
proof -
  have bl: "b < length (buckets rl v6)" using bucket_of_less [OF ok] by (simp add: b)
  have bok: "bucket_ok t (buckets rl v6 ! b)" using rl_ok_bucket [OF ok] by (simp add: b)
  have "unat (max_entries rl) \<le> 65536" "total_entries rl \<le> max_entries rl"
    using ok by (auto simp: rl_ok_def word_le_nat_alt unat_word_ariths)
  then have "unat (total_entries rl + 1) = unat (total_entries rl) + 1"
    by (subst unat_plus_no_wrap) (auto simp: word_le_nat_alt)
  moreover have "bucket_ok (unat now) es"
    using nf bucket_ok_mono [OF bok t]
    by (simp add: es_def bucket_ok_Cons new_entry_def constants word_le_nat_alt)
  ultimately show "rl_ok (unat now) (set_bucket v6 b es rl1)"
    unfolding es_def rl1_def by (intro set_bucket_ok [OF ok t bl, where d = 1]) (use room in auto)
  obtain w i' n' where s: "s = (w, i', n')" by (cases s)
  have oth: "entry_for es j m = entry_for (buckets rl v6 ! b) j m" if "(j, m) \<noteq> (i, n)" for j m
    using that by (auto simp: es_def entry_for_Cons new_entry_def)
  have "entry_level (unat now) (entry_for es i n) = unat TOKEN_MAX - unat PACKET_COST"
    by (simp add: es_def entry_for_Cons new_entry_def entry_level_def constants)
  then have "level H (set_bucket v6 b es rl1) s (unat now) = (if s = (v6, i, n)
      then unat TOKEN_MAX - unat PACKET_COST else level H rl s (unat now))"
    unfolding s using level_set_bucket [OF ok rl1_def [THEN meta_eq_to_obj_eq] b oth] by simp
  moreover have "level H rl (v6, i, n) (unat now) = unat TOKEN_MAX"
    by (simp add: level_def b [symmetric] nf entry_level_def)
  ultimately show "level H (set_bucket v6 b es rl1) s (unat now) +
      (if s = (v6, i, n) then unat PACKET_COST else 0) = level H rl s (unat now)"
    by (auto simp: constants)
qed

lemma allow_step:
  assumes ok: "rl_ok t rl" and t: "t \<le> unat now" "unat now < 2 ^ 63"
    and r: "wg_ratelimiter_allow H skb n now alloc rl = (ret, rl')"
  shows "rl_ok (unat now) rl' \<and>
     level H rl' s (unat now) + (if ret \<and> from_source s (Allow skb n now alloc) then unat PACKET_COST else 0)
       = level H rl s (unat now)"
proof (cases "packet_source skb")
  case None
  then show ?thesis using r rl_ok_mono [OF ok t(1)] by (cases s) (auto simp: wg_ratelimiter_allow_def)
next
  case (Some src)
  obtain v6 i where src: "packet_source skb = Some (v6, i)" using Some by (cases src) simp
  have fs: "from_source s (Allow skb n now alloc) \<longleftrightarrow> s = (v6, i, n)" using src by (cases s) auto
  define b where "b = bucket_of H rl v6 i n"
  show ?thesis
  proof (cases "bucket_allow n i now (buckets rl v6 ! b)")
    case (Some re)
    then obtain es where ba: "bucket_allow n i now (buckets rl v6 ! b) = Some (ret, es)"
      and rl': "rl' = set_bucket v6 b es rl"
      using r src by (cases re) (auto simp: wg_ratelimiter_allow_def b_def [symmetric] Let_def)
    show ?thesis unfolding fs rl' using allow_found [OF ok t b_def ba] by blast
  next
    case None
    then have nf: "entry_for (buckets rl v6 ! b) i n = None" by (simp add: bucket_allow_None)
    show ?thesis
    proof (cases "total_entries rl + 1 > max_entries rl \<or> \<not> alloc")
      case True
      then have "ret = False" "rl' = rl"
        using r None src by (auto simp: wg_ratelimiter_allow_def b_def [symmetric] Let_def)
      then show ?thesis using rl_ok_mono [OF ok t(1)] by simp
    next
      case False
      then have room: "\<not> total_entries rl + 1 > max_entries rl" by simp
      have "ret = True" "rl' = set_bucket v6 b (new_entry n i now # buckets rl v6 ! b)
          (rl\<lparr>total_entries := total_entries rl + 1\<rparr>)"
        using r None False src by (auto simp: wg_ratelimiter_allow_def b_def [symmetric] Let_def)
      then show ?thesis unfolding fs using allow_new [OF ok t(1) b_def nf room] by simp
    qed
  qed
qed

lemma gc_buckets:
  assumes "table_v4 rl \<noteq> None" "table_v6 rl \<noteq> None"
  shows "buckets (wg_ratelimiter_gc_entries work now rl) v6 = map (filter (gc_keeps work now)) (buckets rl v6)"
    and "live_entries (wg_ratelimiter_gc_entries work now rl) + rcu_pending (wg_ratelimiter_gc_entries work now rl)
      = live_entries rl + rcu_pending rl"
proof -
  show b: "buckets (wg_ratelimiter_gc_entries work now rl) v6 = map (filter (gc_keeps work now)) (buckets rl v6)" for v6
    using assms by (auto simp: wg_ratelimiter_gc_entries_def gc_table_def buckets_def Let_def)
  have sum: "sum_list (map length (map (filter P) bs)) +
      sum_list (map (\<lambda>b. length (filter (\<lambda>e. \<not> P e) b)) bs) = sum_list (map length bs)"
    for P :: "ratelimiter_entry \<Rightarrow> bool" and bs
  proof (induction bs)
    case (Cons b bs)
    then show ?case using sum_length_filter_compl [of P b] by simp
  qed simp
  have "rcu_pending (wg_ratelimiter_gc_entries work now rl) = rcu_pending rl +
      sum_list (map (\<lambda>b. length (filter (\<lambda>e. \<not> gc_keeps work now e) b)) (buckets rl False)) +
      sum_list (map (\<lambda>b. length (filter (\<lambda>e. \<not> gc_keeps work now e) b)) (buckets rl True))"
    using assms by (auto simp: wg_ratelimiter_gc_entries_def gc_table_def buckets_def Let_def)
  then show "live_entries (wg_ratelimiter_gc_entries work now rl) + rcu_pending (wg_ratelimiter_gc_entries work now rl)
      = live_entries rl + rcu_pending rl"
    using sum [of "gc_keeps work now" "buckets rl False"] sum [of "gc_keeps work now" "buckets rl True"]
    by (simp add: live_entries_def b)
qed

lemma gc_sel [simp]:
  "table_size (wg_ratelimiter_gc_entries work now rl) = table_size rl"
  "max_entries (wg_ratelimiter_gc_entries work now rl) = max_entries rl"
  "total_entries (wg_ratelimiter_gc_entries work now rl) = total_entries rl"
  "rl_key (wg_ratelimiter_gc_entries work now rl) = rl_key rl"
  "init_refcnt (wg_ratelimiter_gc_entries work now rl) = init_refcnt rl"
  "table_v4 (wg_ratelimiter_gc_entries work now rl) = None \<longleftrightarrow> table_v4 rl = None"
  "table_v6 (wg_ratelimiter_gc_entries work now rl) = None \<longleftrightarrow> table_v6 rl = None"
  by (auto simp: wg_ratelimiter_gc_entries_def gc_table_def Let_def split: option.splits)

lemma gc_step:
  assumes ok: "rl_ok t rl" and t: "t \<le> unat now"
  shows "rl_ok (unat now) (wg_ratelimiter_gc_entries True now rl)"
    and "level H (wg_ratelimiter_gc_entries True now rl) s (unat now) = level H rl s (unat now)"
proof -
  have tb: "table_v4 rl \<noteq> None" "table_v6 rl \<noteq> None" using ok by (simp_all add: rl_ok_def)
  note g = gc_buckets [OF tb, of True now]
  show "rl_ok (unat now) (wg_ratelimiter_gc_entries True now rl)"
    using rl_ok_mono [OF ok t] g unfolding rl_ok_def
    by (auto simp: bucket_ok_filter)
  obtain w i n where s: "s = (w, i, n)" by (cases s)
  have "bucket_of H (wg_ratelimiter_gc_entries True now rl) w i n = bucket_of H rl w i n"
    by (simp add: bucket_of_def Let_def)
  moreover have "entry_level (unat now) (entry_for (filter (gc_keeps True now)
        (buckets rl w ! bucket_of H rl w i n)) i n) = level H rl s (unat now)"
    unfolding s level_def prod.case by (rule gc_level [OF rl_ok_bucket [OF ok] t order_refl])
  ultimately show "level H (wg_ratelimiter_gc_entries True now rl) s (unat now) = level H rl s (unat now)"
    using bucket_of_less [OF ok, of H w i n] by (simp add: s level_def g(1))
qed

lemma entry_free_sel [simp]:
  "table_size (entry_free rl) = table_size rl" "max_entries (entry_free rl) = max_entries rl"
  "total_entries (entry_free rl) = total_entries rl - 1" "rcu_pending (entry_free rl) = rcu_pending rl - 1"
  "table_v4 (entry_free rl) = table_v4 rl" "table_v6 (entry_free rl) = table_v6 rl"
  "rl_key (entry_free rl) = rl_key rl" "init_refcnt (entry_free rl) = init_refcnt rl"
  "entry_cache (entry_free rl) = entry_cache rl" "gc_queued (entry_free rl) = gc_queued rl"
  by (simp_all add: entry_free_def)

lemma grace_step:
  assumes ok: "rl_ok t rl" and t: "t \<le> t'" and p: "rcu_pending rl \<noteq> 0"
  shows "rl_ok t' (entry_free rl) \<and> level H (entry_free rl) s t' = level H rl s t'"
proof -
  have b: "buckets (entry_free rl) = buckets rl" by (simp add: buckets_def fun_eq_iff)
  have "unat (total_entries rl) = live_entries rl + rcu_pending rl" using ok unfolding rl_ok_def by blast
  then have "1 \<le> total_entries rl" using p by (simp add: word_le_nat_alt)
  then have u: "unat (total_entries rl - 1) = unat (total_entries rl) - 1" by (simp add: unat_sub)
  have "live_entries (entry_free rl) = live_entries rl" by (simp add: live_entries_def b)
  moreover have "total_entries rl - 1 \<le> max_entries rl"
    using ok u unfolding rl_ok_def word_le_nat_alt by linarith
  ultimately have "rl_ok t' (entry_free rl)"
    using rl_ok_mono [OF ok t] u p unfolding rl_ok_def by (auto simp: b)
  moreover have "level H (entry_free rl) s t' = level H rl s t'"
    by (cases s) (simp add: level_def b bucket_of_def Let_def)
  ultimately show ?thesis ..
qed

lemma rl_step_level:
  assumes "rl_ok t rl" "t \<le> unat (event_time ev)" "unat (event_time ev) < 2 ^ 63"
    and "rl_step H ev rl = (ret, rl')"
  shows "rl_ok (unat (event_time ev)) rl' \<and>
     level H rl' s (unat (event_time ev)) + (if ret \<and> from_source s ev then unat PACKET_COST else 0)
       = level H rl s (unat (event_time ev))"
proof (cases ev)
  case (Allow skb n now alloc)
  then show ?thesis using allow_step [of t rl now H skb n alloc ret rl' s] assms by simp
next
  case (Gc now)
  then show ?thesis using gc_step [of t rl now] assms by auto
next
  case (Grace now)
  then show ?thesis using grace_step [of t rl "unat now" H s] rl_ok_mono assms by (auto split: if_splits)
qed

lemma level_le: "level H rl s t \<le> unat TOKEN_MAX"
  by (cases s) (auto simp: level_def entry_level_def split: option.splits)

lemma level_mono: "t \<le> t' \<Longrightarrow> level H rl s t' \<le> level H rl s t + (t' - t)"
  using entry_level_mono by (cases s) (auto simp: level_def)

lemma last_time_Cons: "last_time t (ev # evs) = last_time (unat (event_time ev)) evs"
  by (simp add: last_time_def)

lemma timed_last: "timed t evs \<Longrightarrow> t \<le> last_time t evs"
proof (induction evs arbitrary: t)
  case (Cons ev evs)
  then have "t \<le> unat (event_time ev)" "unat (event_time ev) \<le> last_time (unat (event_time ev)) evs"
    by simp_all
  then show ?case unfolding last_time_Cons by (rule order_trans)
qed (simp add: last_time_def)

lemma allowed_count_bound:
  "rl_ok t rl \<Longrightarrow> timed t evs \<Longrightarrow>
     allowed_count H s evs rl * unat PACKET_COST \<le> level H rl s t + (last_time t evs - t)"
proof (induction evs arbitrary: t rl)
  case (Cons ev evs)
  obtain ret rl' where st: "rl_step H ev rl = (ret, rl')" by force
  let ?t = "unat (event_time ev)"
  have tm: "t \<le> ?t" "?t < 2 ^ 63" "timed ?t evs" using Cons.prems by auto
  have S: "rl_ok ?t rl'" "level H rl' s ?t + (if ret \<and> from_source s ev then unat PACKET_COST else 0) = level H rl s ?t"
    using rl_step_level [OF Cons.prems(1) tm(1,2) st, of s] by auto
  have "allowed_count H s evs rl' * unat PACKET_COST \<le> level H rl' s ?t + (last_time ?t evs - ?t)"
    using Cons.IH [OF S(1) tm(3)] .
  moreover have "level H rl s ?t \<le> level H rl s t + (?t - t)" using level_mono [OF tm(1)] .
  moreover have "?t \<le> last_time ?t evs" using timed_last [OF tm(3)] .
  ultimately show ?case using S(2) tm(1) by (auto simp: st last_time_Cons algebra_simps)
qed (simp add: last_time_def)

section \<open>Setup and teardown\<close>

lemma bit_le_unat: "bit (w :: 'a::len word) k \<Longrightarrow> 2 ^ k \<le> unat w"
proof -
  assume "bit w k"
  then have "bit (unat w) k" by (simp add: bit_unsigned_iff bit_imp_le_length)
  then have "unat w div 2 ^ k \<noteq> 0" by (metis bit_iff_odd even_zero)
  then show ?thesis by (metis div_less not_le)
qed

lemma fls_bound: "unat w < 2 ^ k \<Longrightarrow> fls (w :: 'a::len word) \<le> k"
proof (rule ccontr)
  assume w: "unat w < 2 ^ k" and "\<not> fls w \<le> k"
  then have k: "k < fls w" by simp
  let ?m = "length (takeWhile Not (msb_bits w))"
  have m: "LENGTH('a) - fls w = ?m" by (rule fls_alt)
  have le: "fls w \<le> LENGTH('a)" by (rule fls_le)
  have ml: "?m < LENGTH('a)" using m k le by linarith
  then have "msb_bits w ! ?m" using nth_length_takeWhile [of Not "msb_bits w"] by simp
  then have "bit w (LENGTH('a) - 1 - ?m)" using ml by simp
  then have "2 ^ (LENGTH('a) - 1 - ?m) \<le> unat w" by (rule bit_le_unat)
  moreover have "k \<le> LENGTH('a) - 1 - ?m" using m k le by linarith
  then have "(2::nat) ^ k \<le> 2 ^ (LENGTH('a) - 1 - ?m)" by (intro power_increasing) auto
  ultimately show False using w by linarith
qed

lemma table_size_ok:
  "\<exists>k. unat (compute_table_size pages) = 2 ^ k \<and> 4 \<le> k \<and> k \<le> 13"
proof (cases "pages > push_bit 30 1 div push_bit PAGE_SHIFT 1")
  case True
  then have "unat (compute_table_size pages) = 2 ^ 13" by (simp add: compute_table_size_def)
  then show ?thesis by (intro exI [of _ 13]) simp
next
  case False
  then have p: "unat pages \<le> 262144" by (simp add: PAGE_SHIFT_def word_less_nat_alt push_bit_eq_mult)
  let ?n = "push_bit PAGE_SHIFT pages div push_bit 14 1 div 8"
  have "unat (push_bit PAGE_SHIFT pages) = unat pages * 4096"
    using p by (simp add: PAGE_SHIFT_def push_bit_eq_mult unat_word_ariths)
  then have n: "unat ?n = unat pages * 4096 div 16384 div 8"
    by (simp add: unat_div push_bit_eq_mult)
  have "roundup_pow_of_two ?n = push_bit (fls (?n - 1)) 1" by (simp add: roundup_pow_of_two_def)
  show ?thesis
  proof (cases "?n = 0")
    case True
    then have "roundup_pow_of_two ?n \<le> 16"
      unfolding roundup_pow_of_two_def True by code_simp
    then have "unat (compute_table_size pages) = 2 ^ 4"
      using False by (simp add: compute_table_size_def max_def)
    then show ?thesis by (intro exI [of _ 4]) simp
  next
    case nz: False
    then have "1 \<le> ?n" by (simp add: word_le_nat_alt unat_gt_0 Suc_le_eq)
    then have "unat (?n - 1) = unat ?n - 1" by (simp add: unat_sub)
    then have "unat (?n - 1) < 2 ^ 13" using n p by simp
    then have f: "fls (?n - 1) \<le> 13" by (rule fls_bound)
    define f where "f = fls (?n - 1)"
    have f13: "f \<le> 13" using f by (simp add: f_def)
    have "(2::nat) ^ f < 2 ^ 64" using f13 by (intro power_strict_increasing) auto
    then have "unat (of_nat (2 ^ f) :: u64) = 2 ^ f"
      by (simp only: unat_of_nat take_bit_eq_mod) simp
    then have pf: "unat (push_bit f 1 :: u64) = 2 ^ f" by (simp add: push_bit_eq_mult)
    have p4: "16 \<le> (2::nat) ^ f \<longleftrightarrow> 4 \<le> f"
      using power_increasing_iff [of "2::nat" 4 f] by simp
    from pf have mx: "unat (max 16 (roundup_pow_of_two ?n)) = 2 ^ (max 4 f)"
      unfolding roundup_pow_of_two_def f_def [symmetric]
      using p4 by (auto simp: max_def word_le_nat_alt)
    have "(2::nat) ^ (max 4 f) < 2 ^ 32" using f13 by (intro power_strict_increasing) auto
    then have "unat (ucast (max 16 (roundup_pow_of_two ?n)) :: u32) = 2 ^ (max 4 f)"
      using mx by (simp add: unsigned_ucast_eq take_bit_eq_mod)
    then have "unat (compute_table_size pages) = 2 ^ (max 4 f)"
      using False by (simp add: compute_table_size_def)
    then show ?thesis using f13 by (intro exI [of _ "max 4 f"]) simp
  qed
qed

lemma entry_free_pow:
  "(entry_free ^^ n) rl = rl\<lparr>rcu_pending := rcu_pending rl - n, total_entries := total_entries rl - of_nat n\<rparr>"
  by (induction n) (simp_all add: entry_free_def)

lemma init_ok:
  assumes "rl_off rl" "wg_ratelimiter_init pages cache_ok v4_ok v6_ok k rl = (e, rl')"
  shows "if cache_ok \<and> v4_ok \<and> v6_ok
    then e = None \<and> rl_ok 0 rl' \<and> init_refcnt rl' = 1 \<and> gc_queued rl'
    else e = Some ENOMEM \<and> rl_off rl'"
proof (cases "cache_ok \<and> v4_ok \<and> v6_ok")
  case True
  let ?ts = "compute_table_size pages"
  obtain j where j: "unat ?ts = 2 ^ j" "4 \<le> j" "j \<le> 13" using table_size_ok by blast
  have "(2::nat) ^ j \<le> 2 ^ 13" using j by (intro power_increasing) auto
  then have le: "?ts \<le> 8192" using j by (simp add: word_le_nat_alt)
  have rl': "e = None" "rl' = rl\<lparr>init_refcnt := 1, entry_cache := True, table_size := ?ts,
      max_entries := ?ts * 8, table_v4 := Some (empty_buckets ?ts), table_v6 := Some (empty_buckets ?ts),
      gc_queued := True, rl_key := k\<rparr>"
    using assms True by (auto simp: wg_ratelimiter_init_def rl_off_def Let_def)
  have b: "buckets rl' v = replicate (unat ?ts) []" for v
    by (simp add: rl' buckets_def empty_buckets_def)
  have live: "live_entries rl' = 0"
    unfolding live_entries_def b by (simp add: sum_list_replicate)
  have "rl_ok 0 rl'"
    unfolding rl_ok_def b live using assms(1) j le
    by (auto simp: rl' rl_off_def bucket_ok_def)
  then show ?thesis using True rl' by simp
next
  case False
  then show ?thesis
    using assms by (auto simp: wg_ratelimiter_init_def rl_off_def Let_def split: if_splits)
qed

lemma gc_not_queued:
  "gc_queued (wg_ratelimiter_gc_entries False now rl) = gc_queued rl"
  by (simp add: wg_ratelimiter_gc_entries_def Let_def split: prod.splits)

lemma uninit_off:
  assumes ok: "rl_ok t rl" and one: "init_refcnt rl = 1"
  shows "rl_off (wg_ratelimiter_uninit now rl)"
proof -
  let ?rl = "rl\<lparr>init_refcnt := 0, gc_queued := False\<rparr>"
  let ?g = "wg_ratelimiter_gc_entries False now ?rl"
  have tb: "table_v4 ?rl \<noteq> None" "table_v6 ?rl \<noteq> None" using ok by (simp_all add: rl_ok_def)
  have b: "buckets ?g v = map (\<lambda>_. []) (buckets ?rl v)" for v
    unfolding gc_buckets(1) [OF tb] by (simp add: gc_keeps_def)
  have "live_entries ?g = 0"
    unfolding live_entries_def b by (simp add: comp_def)
  moreover have "live_entries ?rl = live_entries rl" by (simp add: live_entries_def buckets_def)
  moreover have "unat (total_entries rl) = live_entries rl + rcu_pending rl" using ok unfolding rl_ok_def by blast
  moreover have "rcu_pending ?rl = rcu_pending rl" by simp
  ultimately have "rcu_pending ?g = unat (total_entries rl)"
    using gc_buckets(2) [OF tb, of False now] by simp
  then have "of_nat (rcu_pending ?g) = total_entries rl" by simp
  then show ?thesis
    using one by (simp add: wg_ratelimiter_uninit_def Let_def rcu_barrier_def entry_free_pow rl_off_def gc_not_queued)
qed

section \<open>Properties\<close>

lemma zero_off: "rl_off zero_ratelimiter"
  by (simp add: rl_off_def zero_ratelimiter_def)

lemma demo_ok: "rl_ok 0 demo_limiter"
  using init_ok [OF zero_off, of 100 True True True "()"]
  by (cases "wg_ratelimiter_init 100 True True True () zero_ratelimiter") (simp add: demo_limiter_def)

lemma rl_run_ok:
  "rl_ok t rl \<Longrightarrow> timed t evs \<Longrightarrow> rl_ok (last_time t evs) (rl_run H evs rl)"
proof (induction evs arbitrary: t rl)
  case (Cons ev evs)
  obtain ret rl' where st: "rl_step H ev rl = (ret, rl')" by force
  have "rl_ok (unat (event_time ev)) rl'"
    using rl_step_level [OF Cons.prems(1) _ _ st] Cons.prems(2) by simp
  then show ?case using Cons.IH Cons.prems(2) st by (simp add: last_time_Cons)
qed (simp add: last_time_def)

lemma timed_replicate:
  "t \<le> unat (event_time ev) \<Longrightarrow> unat (event_time ev) < 2 ^ 63 \<Longrightarrow> timed t (replicate n ev)"
  by (induction n arbitrary: t) auto

lemma max_entries_bound: "rl_ok t rl \<Longrightarrow> unat (max_entries rl) \<le> 65536"
  by (auto simp: rl_ok_def word_le_nat_alt unat_word_ariths)



text \<open>
  C12. The memory of the limiter is bounded: along any run the count of entries is exact
  (entries in the tables plus entries waiting for their grace period), never exceeds
  \<^verbatim>\<open>max_entries\<close>, which is at most 65536, and no entry holds more than a full bucket.
\<close>

theorem rate_limiter_memory_bounded:
  assumes "rl_ok t rl" "timed t evs"
  shows "rl_ok (last_time t evs) (rl_run H evs rl) \<and>
     live_entries (rl_run H evs rl) + rcu_pending (rl_run H evs rl) \<le> 65536"
proof -
  have ok: "rl_ok (last_time t evs) (rl_run H evs rl)" by (rule rl_run_ok [OF assms])
  then have "unat (total_entries (rl_run H evs rl)) = live_entries (rl_run H evs rl) + rcu_pending (rl_run H evs rl)"
    "unat (total_entries (rl_run H evs rl)) \<le> unat (max_entries (rl_run H evs rl))"
    unfolding rl_ok_def word_le_nat_alt by blast+
  then show ?thesis using ok max_entries_bound [OF ok] by linarith
qed

theorem rate_limiter_memory_bounded_witness:
  "rl_ok 2000 (rl_run demo_hash [Allow demo_packet 0 1000 True, Gc 2000] demo_limiter) \<and>
   live_entries (rl_run demo_hash [Allow demo_packet 0 1000 True, Gc 2000] demo_limiter) +
     rcu_pending (rl_run demo_hash [Allow demo_packet 0 1000 True, Gc 2000] demo_limiter) \<le> 65536"
  using rate_limiter_memory_bounded [OF demo_ok, of "[Allow demo_packet 0 1000 True, Gc 2000]" demo_hash]
  by (simp add: last_time_def)

text \<open>
  C13. Setup and teardown: starting the limiter either gives a running limiter with one
  user and a scheduled sweep, or fails with ENOMEM having released everything and taken no
  reference; when the last user stops a running limiter, nothing stays allocated, no entry
  is left and no sweep is scheduled.
\<close>

theorem rate_limiter_setup_teardown:
  assumes "rl_off rl" "rl_ok t rl1" "init_refcnt rl1 = 1"
  shows "(case wg_ratelimiter_init pages cache_ok v4_ok v6_ok k rl of
       (None, rl') \<Rightarrow> cache_ok \<and> v4_ok \<and> v6_ok \<and> rl_ok 0 rl' \<and> init_refcnt rl' = 1 \<and> gc_queued rl'
     | (Some e, rl') \<Rightarrow> \<not> (cache_ok \<and> v4_ok \<and> v6_ok) \<and> e = ENOMEM \<and> rl_off rl') \<and>
     rl_off (wg_ratelimiter_uninit now rl1)"
proof
  obtain e rl' where i: "wg_ratelimiter_init pages cache_ok v4_ok v6_ok k rl = (e, rl')" by force
  show "case wg_ratelimiter_init pages cache_ok v4_ok v6_ok k rl of
       (None, rl') \<Rightarrow> cache_ok \<and> v4_ok \<and> v6_ok \<and> rl_ok 0 rl' \<and> init_refcnt rl' = 1 \<and> gc_queued rl'
     | (Some e, rl') \<Rightarrow> \<not> (cache_ok \<and> v4_ok \<and> v6_ok) \<and> e = ENOMEM \<and> rl_off rl'"
    using init_ok [OF assms(1) i] i by (cases e) (auto split: if_splits)
  show "rl_off (wg_ratelimiter_uninit now rl1)" by (rule uninit_off [OF assms(2,3)])
qed

theorem rate_limiter_setup_teardown_witness:
  "fst (wg_ratelimiter_init 100 True True False () zero_ratelimiter) = Some ENOMEM \<and>
   rl_off (snd (wg_ratelimiter_init 100 True True False () zero_ratelimiter)) \<and>
   rl_off (wg_ratelimiter_uninit 5 demo_limiter)"
proof -
  have one: "init_refcnt demo_limiter = 1" by code_simp
  show ?thesis
    using rate_limiter_setup_teardown [OF zero_off demo_ok one,
        where pages = 100 and cache_ok = True and ?v4_ok = True and ?v6_ok = False and k = "()" and now = 5]
    by (auto split: prod.splits option.splits)
qed

end
