(* ===== verification/WG_Peerlookup.thy ===== *)
theory WG_Peerlookup
  imports WG_Messages WG_PeerRef
begin

unbundle bit_operations_syntax

text \<open>
  The two hash tables of \<^verbatim>\<open>peerlookup.c\<close>: peers by static public key, and handshakes and
  sessions by the 32-bit index that packets carry. Both are arrays of the kernel's linked
  hash lists. The index table is filled without holding its lock while it searches for a
  free index, so insertion is modelled together with what other CPUs do in between. Both
  tables implement the interface \<open>keyed_table\<close>, a finite map.
\<close>

section \<open>Linked hash lists\<close>

text \<open>
  The buckets of a table, each a list of the objects linked into it, and per object the
  bucket its node is linked into (\<^verbatim>\<open>pprev\<close>), if any.
\<close>

record 'p hlists =
  hl_first :: "nat \<Rightarrow> 'p list"
  hl_pprev :: "'p \<Rightarrow> nat option"

definition hash_init :: "'p hlists \<Rightarrow> 'p hlists" where
  "hash_init h = h\<lparr>hl_first := (\<lambda>_. [])\<rparr>"

definition hlist_unhashed :: "'p hlists \<Rightarrow> 'p \<Rightarrow> bool" where
  "hlist_unhashed h p \<longleftrightarrow> hl_pprev h p = None"

definition hlist_add_head :: "'p hlists \<Rightarrow> nat \<Rightarrow> 'p \<Rightarrow> 'p hlists" where
  "hlist_add_head h b p =
     h\<lparr>hl_first := (hl_first h)(b := p # hl_first h b), hl_pprev := (hl_pprev h)(p := Some b)\<rparr>"

definition hlist_del_init :: "'p hlists \<Rightarrow> 'p \<Rightarrow> 'p hlists" where
  "hlist_del_init h p =
     (case hl_pprev h p of
        None \<Rightarrow> h
      | Some b \<Rightarrow>
          h\<lparr>hl_first := (hl_first h)(b := remove1 p (hl_first h b)), hl_pprev := (hl_pprev h)(p := None)\<rparr>)"

text \<open>\<^verbatim>\<open>hlist_replace_rcu\<close> followed by \<^verbatim>\<open>INIT_HLIST_NODE\<close> on the old node.\<close>

definition hlist_replace_init :: "'p hlists \<Rightarrow> 'p \<Rightarrow> 'p \<Rightarrow> 'p hlists" where
  "hlist_replace_init h old new =
     (case hl_pprev h old of
        None \<Rightarrow> h
      | Some b \<Rightarrow>
          h\<lparr>hl_first := (hl_first h)(b := map (\<lambda>x. if x = old then new else x) (hl_first h b)),
            hl_pprev := (hl_pprev h)(new := Some b, old := None)\<rparr>)"

section \<open>Peers by public key\<close>

record 'k pubkey_hashtable =
  ph_hashtable :: "peer_id hlists"
  ph_key :: 'k

definition PUBKEY_HASH_BITS :: nat where "PUBKEY_HASH_BITS = 11"

text \<open>
  \<^verbatim>\<open>siphash\<close> is a function of the message and the random key; the public key of each peer
  (\<^verbatim>\<open>handshake.remote_static\<close>) never changes.
\<close>

definition pubkey_bucket :: "(bytes \<Rightarrow> 'k \<Rightarrow> u64) \<Rightarrow> 'k pubkey_hashtable \<Rightarrow> bytes \<Rightarrow> nat" where
  "pubkey_bucket siphash tbl pubkey =
     unat (siphash pubkey (ph_key tbl) AND (2 ^ PUBKEY_HASH_BITS - 1))"

text \<open>The memory the allocator returns, if any, has arbitrary contents.\<close>

definition wg_pubkey_hashtable_alloc ::
    "'k pubkey_hashtable option \<Rightarrow> 'k \<Rightarrow> 'k pubkey_hashtable option" where
  "wg_pubkey_hashtable_alloc mem random =
     (case mem of
        None \<Rightarrow> None
      | Some tbl \<Rightarrow> Some (tbl\<lparr>ph_key := random, ph_hashtable := hash_init (ph_hashtable tbl)\<rparr>))"

definition wg_pubkey_hashtable_add ::
    "(bytes \<Rightarrow> 'k \<Rightarrow> u64) \<Rightarrow> (peer_id \<Rightarrow> bytes) \<Rightarrow> 'k pubkey_hashtable \<Rightarrow> peer_id \<Rightarrow>
     'k pubkey_hashtable" where
  "wg_pubkey_hashtable_add siphash remote_static tbl p =
     tbl\<lparr>ph_hashtable :=
       hlist_add_head (ph_hashtable tbl) (pubkey_bucket siphash tbl (remote_static p)) p\<rparr>"

definition wg_pubkey_hashtable_remove ::
    "'k pubkey_hashtable \<Rightarrow> peer_id \<Rightarrow> 'k pubkey_hashtable" where
  "wg_pubkey_hashtable_remove tbl p = tbl\<lparr>ph_hashtable := hlist_del_init (ph_hashtable tbl) p\<rparr>"

definition pubkey_find ::
    "(bytes \<Rightarrow> 'k \<Rightarrow> u64) \<Rightarrow> (peer_id \<Rightarrow> bytes) \<Rightarrow> 'k pubkey_hashtable \<Rightarrow> bytes \<Rightarrow> peer_id option" where
  "pubkey_find siphash remote_static tbl pubkey =
     find (\<lambda>p. pubkey = remote_static p) (hl_first (ph_hashtable tbl) (pubkey_bucket siphash tbl pubkey))"

definition wg_pubkey_hashtable_lookup ::
    "(bytes \<Rightarrow> 'k \<Rightarrow> u64) \<Rightarrow> (peer_id \<Rightarrow> bytes) \<Rightarrow> 'k pubkey_hashtable \<Rightarrow> refcounts \<Rightarrow> bytes \<Rightarrow>
     peer_id option \<times> refcounts" where
  "wg_pubkey_hashtable_lookup siphash remote_static tbl refs pubkey =
     wg_peer_get_maybe_zero refs (pubkey_find siphash remote_static tbl pubkey)"

section \<open>Handshakes and sessions by index\<close>

text \<open>An entry is a member of a peer's handshake or of a keypair.\<close>

datatype index_ptr = HandshakeEntry peer_id | KeypairEntry addr

definition INDEX_HASHTABLE_HANDSHAKE :: u32 where "INDEX_HASHTABLE_HANDSHAKE = push_bit 0 1"
definition INDEX_HASHTABLE_KEYPAIR :: u32 where "INDEX_HASHTABLE_KEYPAIR = push_bit 1 1"

record index_hashtable_entry =
  ie_peer :: "peer_id option"
  ie_type :: u32
  ie_index :: u32

record index_hashtable =
  ih_hashtable :: "index_ptr hlists"
  ih_entry :: "index_ptr \<Rightarrow> index_hashtable_entry"

definition INDEX_HASH_BITS :: nat where "INDEX_HASH_BITS = 13"

definition index_bucket :: "u32 \<Rightarrow> nat" where
  "index_bucket i = unat (i AND (2 ^ INDEX_HASH_BITS - 1))"

definition wg_index_hashtable_alloc :: "index_hashtable option \<Rightarrow> index_hashtable option" where
  "wg_index_hashtable_alloc mem =
     (case mem of
        None \<Rightarrow> None
      | Some tbl \<Rightarrow> Some (tbl\<lparr>ih_hashtable := hash_init (ih_hashtable tbl)\<rparr>))"

definition set_index :: "index_hashtable \<Rightarrow> index_ptr \<Rightarrow> u32 \<Rightarrow> index_hashtable" where
  "set_index tbl e i = tbl\<lparr>ih_entry := (ih_entry tbl)(e := (ih_entry tbl e)\<lparr>ie_index := i\<rparr>)\<rparr>"

text \<open>The walk over the bucket of an index that looks for an entry with that index.\<close>

definition index_find :: "index_hashtable \<Rightarrow> u32 \<Rightarrow> index_ptr option" where
  "index_find tbl i = find (\<lambda>e. ie_index (ih_entry tbl e) = i) (hl_first (ih_hashtable tbl) (index_bucket i))"

definition index_link :: "index_hashtable \<Rightarrow> u32 \<Rightarrow> index_ptr \<Rightarrow> index_hashtable" where
  "index_link tbl i e = tbl\<lparr>ih_hashtable := hlist_add_head (ih_hashtable tbl) (index_bucket i) e\<rparr>"

text \<open>
  One attempt of the search: what other CPUs did since the last attempt, the random
  number drawn, and what other CPUs do between the unlocked search and the acquisition of
  the lock.
\<close>

record index_attempt =
  ia_before :: "index_hashtable \<Rightarrow> index_hashtable"
  ia_random :: u32
  ia_between :: "index_hashtable \<Rightarrow> index_hashtable"

fun search_unused_slot ::
    "index_attempt list \<Rightarrow> index_hashtable \<Rightarrow> index_ptr \<Rightarrow> (u32 \<times> index_hashtable) option" where
  "search_unused_slot [] tbl e = None"
| "search_unused_slot (a # later) tbl e =
     (let tbl = set_index (ia_before a tbl) e (ia_random a) in
      if index_find tbl (ia_random a) \<noteq> None then search_unused_slot later tbl e
      else
        let tbl = ia_between a tbl in
        if index_find tbl (ia_random a) \<noteq> None then search_unused_slot later tbl e
        else Some (ia_random a, index_link tbl (ia_random a) e))"

definition wg_index_hashtable_remove :: "index_hashtable \<Rightarrow> index_ptr \<Rightarrow> index_hashtable" where
  "wg_index_hashtable_remove tbl e = tbl\<lparr>ih_hashtable := hlist_del_init (ih_hashtable tbl) e\<rparr>"

definition wg_index_hashtable_insert ::
    "index_attempt list \<Rightarrow> index_hashtable \<Rightarrow> index_ptr \<Rightarrow> (u32 \<times> index_hashtable) option" where
  "wg_index_hashtable_insert attempts tbl e =
     (let tbl = tbl\<lparr>ih_hashtable := hlist_del_init (ih_hashtable tbl) e\<rparr>
      in search_unused_slot attempts tbl e)"

definition wg_index_hashtable_replace ::
    "index_hashtable \<Rightarrow> index_ptr \<Rightarrow> index_ptr \<Rightarrow> bool \<times> index_hashtable" where
  "wg_index_hashtable_replace tbl old new =
     (if hlist_unhashed (ih_hashtable tbl) old then (False, tbl)
      else
        let tbl = set_index tbl new (ie_index (ih_entry tbl old))
        in (True, tbl\<lparr>ih_hashtable := hlist_replace_init (ih_hashtable tbl) old new\<rparr>))"

text \<open>
  The lookup stores the peer it got, or NULL, back into the entry. The result is the entry
  and the peer, with a reference taken.
\<close>

definition wg_index_hashtable_lookup ::
    "index_hashtable \<Rightarrow> refcounts \<Rightarrow> u32 \<Rightarrow> u32 \<Rightarrow>
     (index_ptr \<times> peer_id) option \<times> index_hashtable \<times> refcounts" where
  "wg_index_hashtable_lookup tbl refs type_mask i =
     (case index_find tbl i of
        None \<Rightarrow> (None, tbl, refs)
      | Some e \<Rightarrow>
          if ie_type (ih_entry tbl e) AND type_mask = 0 then (None, tbl, refs)
          else
            let (p, refs) = wg_peer_get_maybe_zero refs (ie_peer (ih_entry tbl e));
                tbl = tbl\<lparr>ih_entry := (ih_entry tbl)(e := (ih_entry tbl e)\<lparr>ie_peer := p\<rparr>)\<rparr>
            in (map_option (Pair e) p, tbl, refs))"

section \<open>Specification\<close>

definition hlists_ok :: "'p hlists \<Rightarrow> bool" where
  "hlists_ok h \<longleftrightarrow>
     (\<forall>b. distinct (hl_first h b)) \<and> (\<forall>b p. p \<in> set (hl_first h b) \<longleftrightarrow> hl_pprev h p = Some b)"

text \<open>Linked peers are in the bucket of their key and no two of them have the same key.\<close>

definition pubkey_ok ::
    "(bytes \<Rightarrow> 'k \<Rightarrow> u64) \<Rightarrow> (peer_id \<Rightarrow> bytes) \<Rightarrow> 'k pubkey_hashtable \<Rightarrow> bool" where
  "pubkey_ok siphash remote_static tbl \<longleftrightarrow>
     hlists_ok (ph_hashtable tbl) \<and>
     (\<forall>p b. hl_pprev (ph_hashtable tbl) p = Some b \<longrightarrow> b = pubkey_bucket siphash tbl (remote_static p)) \<and>
     (\<forall>p q. hl_pprev (ph_hashtable tbl) p \<noteq> None \<longrightarrow> hl_pprev (ph_hashtable tbl) q \<noteq> None \<longrightarrow>
        remote_static p = remote_static q \<longrightarrow> p = q)"

text \<open>Linked entries are in the bucket of their index and no two of them have the same index.\<close>

definition linked :: "index_hashtable \<Rightarrow> index_ptr \<Rightarrow> bool" where
  "linked tbl e \<longleftrightarrow> hl_pprev (ih_hashtable tbl) e \<noteq> None"

definition index_ok :: "index_hashtable \<Rightarrow> bool" where
  "index_ok tbl \<longleftrightarrow>
     hlists_ok (ih_hashtable tbl) \<and>
     (\<forall>e b. hl_pprev (ih_hashtable tbl) e = Some b \<longrightarrow> b = index_bucket (ie_index (ih_entry tbl e))) \<and>
     (\<forall>e f. linked tbl e \<longrightarrow> linked tbl f \<longrightarrow>
        ie_index (ih_entry tbl e) = ie_index (ih_entry tbl f) \<longrightarrow> e = f)"

text \<open>
  What others may do to the table while the entry \<open>e\<close> is being inserted: anything that keeps
  the table well formed and leaves \<open>e\<close>, which nobody else can see, alone.
\<close>

definition leaves_alone :: "index_ptr \<Rightarrow> (index_hashtable \<Rightarrow> index_hashtable) \<Rightarrow> bool" where
  "leaves_alone e f \<longleftrightarrow>
     (\<forall>tbl. index_ok tbl \<longrightarrow> \<not> linked tbl e \<longrightarrow>
        index_ok (f tbl) \<and> \<not> linked (f tbl) e \<and> ih_entry (f tbl) e = ih_entry tbl e)"

definition attempts_fair :: "index_ptr \<Rightarrow> index_attempt list \<Rightarrow> bool" where
  "attempts_fair e as \<longleftrightarrow> list_all (\<lambda>a. leaves_alone e (ia_before a) \<and> leaves_alone e (ia_between a)) as"

text \<open>The indices in use, and actions of others that stay within a set of indices.\<close>

definition indices :: "index_hashtable \<Rightarrow> u32 set" where
  "indices tbl = {i. index_find tbl i \<noteq> None}"

definition stays_within :: "u32 set \<Rightarrow> (index_hashtable \<Rightarrow> index_hashtable) \<Rightarrow> bool" where
  "stays_within U f \<longleftrightarrow> (\<forall>tbl. index_ok tbl \<longrightarrow> indices tbl \<subseteq> U \<longrightarrow> indices (f tbl) \<subseteq> U)"

text \<open>A table with no entries, and another CPU that takes an index for its own entry.\<close>

definition empty_index :: index_hashtable where
  "empty_index =
     \<lparr>ih_hashtable = \<lparr>hl_first = (\<lambda>_. []), hl_pprev = (\<lambda>_. None)\<rparr>,
      ih_entry = (\<lambda>_. \<lparr>ie_peer = Some 1, ie_type = INDEX_HASHTABLE_HANDSHAKE, ie_index = 0\<rparr>)\<rparr>"

definition steal :: "index_ptr \<Rightarrow> u32 \<Rightarrow> index_hashtable \<Rightarrow> index_hashtable" where
  "steal f i tbl =
     (if \<not> linked tbl f \<and> index_find tbl i = None then index_link (set_index tbl f i) i f else tbl)"

definition demo_attempts :: "index_attempt list" where
  "demo_attempts =
     [\<lparr>ia_before = id, ia_random = 7, ia_between = steal (HandshakeEntry 2) 7\<rparr>,
      \<lparr>ia_before = id, ia_random = 9, ia_between = id\<rparr>]"

text \<open>The interface of both tables: a finite map whose values have one key each.\<close>

locale keyed_table =
  fixes ok :: "'t \<Rightarrow> bool"
    and look :: "'t \<Rightarrow> 'k \<Rightarrow> 'e option"
    and add :: "'t \<Rightarrow> 'k \<Rightarrow> 'e \<Rightarrow> 't"
    and del :: "'t \<Rightarrow> 'e \<Rightarrow> 't"
    and admits :: "'t \<Rightarrow> 'k \<Rightarrow> 'e \<Rightarrow> bool"
  assumes add_ok: "ok t \<Longrightarrow> admits t k e \<Longrightarrow> ok (add t k e)"
    and look_add: "ok t \<Longrightarrow> admits t k e \<Longrightarrow> look (add t k e) = (look t)(k \<mapsto> e)"
    and del_ok: "ok t \<Longrightarrow> ok (del t e)"
    and look_del: "ok t \<Longrightarrow> look (del t e) = (\<lambda>k. if look t k = Some e then None else look t k)"
    and one_key: "ok t \<Longrightarrow> look t k = Some e \<Longrightarrow> look t k' = Some e \<Longrightarrow> k = k'"
begin

lemma look_del_other: "ok t \<Longrightarrow> look t k = Some e' \<Longrightarrow> e' \<noteq> e \<Longrightarrow> look (del t e) k = Some e'"
  by (simp add: look_del)

lemma del_gone: "ok t \<Longrightarrow> look (del t e) k \<noteq> Some e"
  by (simp add: look_del)

lemma del_list:
  "ok t \<Longrightarrow> ok (foldl del t es) \<and>
     look (foldl del t es) = (\<lambda>k. case look t k of None \<Rightarrow> None | Some e \<Rightarrow> if e \<in> set es then None else Some e)"
proof (induction es arbitrary: t)
  case (Cons e es)
  then show ?case using del_ok look_del by (auto simp: fun_eq_iff split: option.splits)
qed (auto simp: fun_eq_iff split: option.splits)

lemma del_add:
  assumes "ok t" "admits t k e" "\<forall>k'. look t k' \<noteq> Some e"
  shows "look (del (add t k e) e) = (look t)(k := None)"
  using assms add_ok look_add by (auto simp: look_del fun_eq_iff)

end


section \<open>Linked lists\<close>

lemma hlists_okD:
  assumes "hlists_ok h"
  shows "distinct (hl_first h b)" "p \<in> set (hl_first h b) \<longleftrightarrow> hl_pprev h p = Some b"
  using assms by (auto simp: hlists_ok_def)

lemma hlist_add_head_ok:
  "hlists_ok h \<Longrightarrow> hlist_unhashed h p \<Longrightarrow> hlists_ok (hlist_add_head h b p)"
  by (auto simp: hlists_ok_def hlist_add_head_def hlist_unhashed_def)

lemma hlist_del_init_ok:
  "hlists_ok h \<Longrightarrow> hlists_ok (hlist_del_init h p)"
  by (auto simp: hlists_ok_def hlist_del_init_def split: option.splits)

lemma hlist_del_init_pprev [simp]:
  "hl_pprev (hlist_del_init h p) = (hl_pprev h)(p := None)"
  by (auto simp: hlist_del_init_def fun_eq_iff split: option.splits)

lemma hlist_add_head_pprev [simp]:
  "hl_pprev (hlist_add_head h b p) = (hl_pprev h)(p := Some b)"
  by (simp add: hlist_add_head_def)

lemma hlist_replace_init_ok:
  assumes "hlists_ok h" "hlist_unhashed h new" "\<not> hlist_unhashed h old"
  shows "hlists_ok (hlist_replace_init h old new)"
    and "hl_pprev (hlist_replace_init h old new) = (hl_pprev h)(new := hl_pprev h old, old := None)"
proof -
  obtain b where b: "hl_pprev h old = Some b" using assms(3) by (auto simp: hlist_unhashed_def)
  have n: "new \<notin> set (hl_first h c)" for c
    using hlists_okD(2) [OF assms(1), of new] assms(2) by (simp add: hlist_unhashed_def)
  have "inj_on (\<lambda>x. if x = old then new else x) (set (hl_first h b))"
    using n by (auto simp: inj_on_def)
  then have d: "distinct (map (\<lambda>x. if x = old then new else x) (hl_first h b))"
    using hlists_okD(1) [OF assms(1)] by (simp add: distinct_map)
  have o: "old \<in> set (hl_first h c) \<longleftrightarrow> c = b" for c
    using hlists_okD(2) [OF assms(1), of old] b by auto
  show "hl_pprev (hlist_replace_init h old new) = (hl_pprev h)(new := hl_pprev h old, old := None)"
    using b by (simp add: hlist_replace_init_def)
  then show "hlists_ok (hlist_replace_init h old new)"
    using assms(1,2) b d n o by (auto simp: hlists_ok_def hlist_replace_init_def hlist_unhashed_def)
qed

text \<open>In a well-formed table a bucket walk finds the one linked object with the key.\<close>

lemma bucket_find:
  assumes "hlists_ok h" "\<And>p b. hl_pprev h p = Some b \<Longrightarrow> b = bucket (key p)"
    and "\<And>p q. hl_pprev h p \<noteq> None \<Longrightarrow> hl_pprev h q \<noteq> None \<Longrightarrow> key p = key q \<Longrightarrow> p = q"
  shows "find (\<lambda>p. key p = k) (hl_first h (bucket k)) = Some p \<longleftrightarrow> hl_pprev h p \<noteq> None \<and> key p = k"
proof
  assume "find (\<lambda>p. key p = k) (hl_first h (bucket k)) = Some p"
  then have "p \<in> set (hl_first h (bucket k))" "key p = k" by (auto simp: find_Some_iff)
  then show "hl_pprev h p \<noteq> None \<and> key p = k" using hlists_okD(2) [OF assms(1)] by auto
next
  assume p: "hl_pprev h p \<noteq> None \<and> key p = k"
  then have "p \<in> set (hl_first h (bucket k))" using assms(2) hlists_okD(2) [OF assms(1)] by auto
  then obtain q where q: "find (\<lambda>p. key p = k) (hl_first h (bucket k)) = Some q"
    using p by (cases "find (\<lambda>p. key p = k) (hl_first h (bucket k))") (auto simp: find_None_iff)
  then have "q \<in> set (hl_first h (bucket k))" "key q = k" by (auto simp: find_Some_iff)
  then have "q = p" using p assms(3) [of q p] hlists_okD(2) [OF assms(1)] by auto
  then show "find (\<lambda>p. key p = k) (hl_first h (bucket k)) = Some p" using q by simp
qed

section \<open>The public key table\<close>

lemma option_map_eqI:
  "(\<And>e. f k = Some e \<longleftrightarrow> g k = Some e) \<Longrightarrow> f k = g k"
  by (cases "f k"; cases "g k") auto

lemma pubkey_find_iff:
  assumes "pubkey_ok siphash remote_static tbl"
  shows "pubkey_find siphash remote_static tbl k = Some p \<longleftrightarrow>
    hl_pprev (ph_hashtable tbl) p \<noteq> None \<and> remote_static p = k"
proof -
  have sym: "(\<lambda>p. k = remote_static p) = (\<lambda>p. remote_static p = k)" by auto
  show ?thesis unfolding pubkey_find_def sym
    by (rule bucket_find) (use assms in \<open>unfold pubkey_ok_def, blast+\<close>)
qed

lemma pubkey_unique:
  "pubkey_ok siphash remote_static tbl \<Longrightarrow> hl_pprev (ph_hashtable tbl) p = Some b \<Longrightarrow>
     hl_pprev (ph_hashtable tbl) q = Some c \<Longrightarrow> remote_static p = remote_static q \<Longrightarrow> p = q"
  unfolding pubkey_ok_def by blast

interpretation pubkeys: keyed_table "pubkey_ok siphash remote_static" "pubkey_find siphash remote_static"
    "\<lambda>tbl k. wg_pubkey_hashtable_add siphash remote_static tbl" wg_pubkey_hashtable_remove
    "\<lambda>tbl k p. k = remote_static p \<and> pubkey_find siphash remote_static tbl k = None"
  for siphash :: "bytes \<Rightarrow> 'k \<Rightarrow> u64" and remote_static
proof (unfold_locales, goal_cases)
  case (1 t k e)
  have free: "hl_pprev (ph_hashtable t) p = None" if "remote_static p = k" for p
    using 1 pubkey_find_iff [OF 1(1), of k p] that by auto
  show ?case
    using 1 free [of e] free by (auto simp: pubkey_ok_def wg_pubkey_hashtable_add_def pubkey_bucket_def
        hlist_unhashed_def intro!: hlist_add_head_ok)
next
  case (2 t k e)
  have free: "hl_pprev (ph_hashtable t) p = None" if "remote_static p = k" for p
    using 2 pubkey_find_iff [OF 2(1), of k p] that by auto
  have ok: "pubkey_ok siphash remote_static (wg_pubkey_hashtable_add siphash remote_static t e)"
    using 2 free [of e] free by (auto simp: pubkey_ok_def wg_pubkey_hashtable_add_def pubkey_bucket_def
        hlist_unhashed_def intro!: hlist_add_head_ok)
  show ?case
    apply (rule ext, rule option_map_eqI)
    unfolding pubkey_find_iff [OF ok]
    using 2 free pubkey_find_iff [OF 2(1)]
    by (auto simp: wg_pubkey_hashtable_add_def)
next
  case (3 t e)
  then show ?case
    by (auto simp: pubkey_ok_def wg_pubkey_hashtable_remove_def pubkey_bucket_def intro!: hlist_del_init_ok)
next
  case (4 t e)
  then have ok: "pubkey_ok siphash remote_static (wg_pubkey_hashtable_remove t e)"
    by (auto simp: pubkey_ok_def wg_pubkey_hashtable_remove_def pubkey_bucket_def intro!: hlist_del_init_ok)
  show ?case
    apply (rule ext, rule option_map_eqI)
    unfolding pubkey_find_iff [OF ok]
    using pubkey_find_iff [OF 4]
    by (auto dest: pubkey_unique [OF 4] simp: wg_pubkey_hashtable_remove_def)
next
  case (5 t k e k')
  then show ?case using pubkey_find_iff [OF 5(1)] by auto
qed


section \<open>The index table\<close>

lemma index_okD:
  assumes "index_ok tbl"
  shows "hlists_ok (ih_hashtable tbl)"
    and "hl_pprev (ih_hashtable tbl) e = Some b \<Longrightarrow> b = index_bucket (ie_index (ih_entry tbl e))"
    and "linked tbl e \<Longrightarrow> linked tbl f \<Longrightarrow> ie_index (ih_entry tbl e) = ie_index (ih_entry tbl f) \<Longrightarrow> e = f"
  using assms unfolding index_ok_def by blast+

lemma index_find_iff:
  assumes "index_ok tbl"
  shows "index_find tbl i = Some e \<longleftrightarrow> linked tbl e \<and> ie_index (ih_entry tbl e) = i"
  unfolding index_find_def linked_def
  by (rule bucket_find) (use assms in \<open>unfold index_ok_def linked_def, blast+\<close>)

lemma index_find_None:
  "index_ok tbl \<Longrightarrow> index_find tbl i = None \<longleftrightarrow> (\<forall>e. linked tbl e \<longrightarrow> ie_index (ih_entry tbl e) \<noteq> i)"
  using index_find_iff [of tbl i] by (metis not_None_eq)

text \<open>Changing an entry that is not linked changes nothing that a lookup can see.\<close>

lemma set_index_unlinked:
  assumes "index_ok tbl" "\<not> linked tbl e"
  shows "index_ok (set_index tbl e i)" "linked (set_index tbl e i) = linked tbl"
    "index_find (set_index tbl e i) = index_find tbl"
    "ie_index (ih_entry (set_index tbl e i) e) = i"
proof -
  show l: "linked (set_index tbl e i) = linked tbl" by (auto simp: set_index_def linked_def)
  show ok: "index_ok (set_index tbl e i)"
    using assms index_okD [OF assms(1)] unfolding index_ok_def l
    by (auto simp: set_index_def linked_def)
  show "index_find (set_index tbl e i) = index_find tbl"
    by (rule ext, rule option_map_eqI, unfold index_find_iff [OF ok] index_find_iff [OF assms(1)] l)
      (use assms in \<open>auto simp: set_index_def\<close>)
qed (simp add: set_index_def)

lemma index_link_ok:
  assumes "index_ok tbl" "\<not> linked tbl e" "ie_index (ih_entry tbl e) = i" "index_find tbl i = None"
  shows "index_ok (index_link tbl i e)" "index_find (index_link tbl i e) = (index_find tbl)(i \<mapsto> e)"
    "linked (index_link tbl i e) f \<longleftrightarrow> f = e \<or> linked tbl f"
proof -
  show l: "linked (index_link tbl i e) f \<longleftrightarrow> f = e \<or> linked tbl f" for f
    by (auto simp: index_link_def linked_def)
  have "hlists_ok (ih_hashtable (index_link tbl i e))"
    using hlist_add_head_ok [OF index_okD(1) [OF assms(1)], of e "index_bucket i"] assms(2)
    by (simp add: index_link_def linked_def hlist_unhashed_def)
  then show ok: "index_ok (index_link tbl i e)"
    using assms index_okD [OF assms(1)] index_find_None [OF assms(1)] unfolding index_ok_def l
    by (auto simp: index_link_def)
  have en: "ih_entry (index_link tbl i e) = ih_entry tbl" by (simp add: index_link_def)
  show "index_find (index_link tbl i e) = (index_find tbl)(i \<mapsto> e)"
    by (rule ext, rule option_map_eqI, unfold index_find_iff [OF ok] l en)
      (use assms index_find_iff [OF assms(1)] index_find_None [OF assms(1)] in auto)
qed

lemma index_unlink_ok:
  assumes "index_ok tbl"
  shows "index_ok (wg_index_hashtable_remove tbl e)"
    "index_find (wg_index_hashtable_remove tbl e) = (\<lambda>i. if index_find tbl i = Some e then None else index_find tbl i)"
    "linked (wg_index_hashtable_remove tbl e) f \<longleftrightarrow> f \<noteq> e \<and> linked tbl f"
proof -
  show l: "linked (wg_index_hashtable_remove tbl e) f \<longleftrightarrow> f \<noteq> e \<and> linked tbl f" for f
    by (auto simp: wg_index_hashtable_remove_def linked_def)
  have "hlists_ok (ih_hashtable (wg_index_hashtable_remove tbl e))"
    using hlist_del_init_ok [OF index_okD(1) [OF assms]] by (simp add: wg_index_hashtable_remove_def)
  then show ok: "index_ok (wg_index_hashtable_remove tbl e)"
    using index_okD [OF assms] unfolding index_ok_def l by (auto simp: wg_index_hashtable_remove_def)
  have en: "ih_entry (wg_index_hashtable_remove tbl e) = ih_entry tbl"
    by (simp add: wg_index_hashtable_remove_def)
  show "index_find (wg_index_hashtable_remove tbl e) =
      (\<lambda>i. if index_find tbl i = Some e then None else index_find tbl i)"
    by (rule ext, rule option_map_eqI, unfold index_find_iff [OF ok] l en)
      (use index_find_iff [OF assms] index_okD(3) [OF assms] in auto)
qed

interpretation idx: keyed_table index_ok index_find index_link wg_index_hashtable_remove
    "\<lambda>tbl i e. \<not> linked tbl e \<and> ie_index (ih_entry tbl e) = i \<and> index_find tbl i = None"
proof (unfold_locales, goal_cases)
  case (5 t k e k')
  then show ?case using index_find_iff [OF 5(1)] by auto
qed (simp_all add: index_link_ok index_unlink_ok)

text \<open>The insertion, with the table \<open>tbl1\<close> that it finds when it has the lock.\<close>

lemma search_unused_slot_ok:
  assumes "index_ok tbl" "\<not> linked tbl e" "attempts_fair e attempts"
    and "search_unused_slot attempts tbl e = Some (i, tbl')"
  shows "\<exists>tbl1. index_ok tbl1 \<and> \<not> linked tbl1 e \<and> ie_index (ih_entry tbl1 e) = i \<and>
    index_find tbl1 i = None \<and> tbl' = index_link tbl1 i e"
  using assms
proof (induction attempts arbitrary: tbl)
  case (Cons a later)
  let ?tbl = "set_index (ia_before a tbl) e (ia_random a)"
  have f: "leaves_alone e (ia_before a)" "leaves_alone e (ia_between a)" "attempts_fair e later"
    using Cons.prems(3) by (auto simp: attempts_fair_def)
  have b: "index_ok (ia_before a tbl)" "\<not> linked (ia_before a tbl) e"
    using f(1) Cons.prems(1,2) by (auto simp: leaves_alone_def)
  then have t: "index_ok ?tbl" "\<not> linked ?tbl e" "ie_index (ih_entry ?tbl e) = ia_random a"
    using set_index_unlinked [OF b] by auto
  then have u: "index_ok (ia_between a ?tbl)" "\<not> linked (ia_between a ?tbl) e"
    "ie_index (ih_entry (ia_between a ?tbl) e) = ia_random a"
    using f(2) unfolding leaves_alone_def by metis+
  show ?case
  proof (cases "index_find ?tbl (ia_random a) \<noteq> None \<or> index_find (ia_between a ?tbl) (ia_random a) \<noteq> None")
    case True
    then obtain tbl2 where "tbl2 = ?tbl \<or> tbl2 = ia_between a ?tbl"
      "search_unused_slot later tbl2 e = Some (i, tbl')"
      using Cons.prems(4) by (auto simp: Let_def split: if_splits)
    then show ?thesis using Cons.IH t u f(3) by blast
  next
    case False
    then have "i = ia_random a" "tbl' = index_link (ia_between a ?tbl) i e"
      using Cons.prems(4) by (auto simp: Let_def)
    then show ?thesis using u False by (intro exI [of _ "ia_between a ?tbl"]) auto
  qed
qed simp

lemma insert_ok:
  assumes "index_ok tbl" "attempts_fair e attempts"
    and "wg_index_hashtable_insert attempts tbl e = Some (i, tbl')"
  shows "\<exists>tbl1. index_ok tbl1 \<and> \<not> linked tbl1 e \<and> ie_index (ih_entry tbl1 e) = i \<and>
    index_find tbl1 i = None \<and> tbl' = index_link tbl1 i e"
proof (rule search_unused_slot_ok)
  show "index_ok (wg_index_hashtable_remove tbl e)" "\<not> linked (wg_index_hashtable_remove tbl e) e"
    using index_unlink_ok [OF assms(1)] by auto
  show "search_unused_slot attempts (wg_index_hashtable_remove tbl e) e = Some (i, tbl')"
    using assms(3) by (simp add: wg_index_hashtable_insert_def wg_index_hashtable_remove_def Let_def)
qed (rule assms(2))

lemma replace_ok:
  assumes "index_ok tbl" "\<not> linked tbl new" "linked tbl old"
    and "wg_index_hashtable_replace tbl old new = (r, tbl')"
  shows "r" "index_ok tbl'" "linked tbl' f \<longleftrightarrow> f = new \<or> f \<noteq> old \<and> linked tbl f"
    "ie_index (ih_entry tbl' new) = ie_index (ih_entry tbl old)"
    "index_find tbl' = (index_find tbl)(ie_index (ih_entry tbl old) \<mapsto> new)"
proof -
  let ?i = "ie_index (ih_entry tbl old)"
  have ne: "new \<noteq> old" using assms(2,3) by auto
  have tbl': "tbl' = (set_index tbl new ?i)\<lparr>ih_hashtable := hlist_replace_init (ih_hashtable tbl) old new\<rparr>"
    and r: "r" using assms(3,4)
    by (auto simp: wg_index_hashtable_replace_def hlist_unhashed_def linked_def set_index_def Let_def)
  show "r" by (rule r)
  note rp = hlist_replace_init_ok [OF index_okD(1) [OF assms(1)], of new old]
  have un: "hlist_unhashed (ih_hashtable tbl) new" "\<not> hlist_unhashed (ih_hashtable tbl) old"
    using assms(2,3) by (auto simp: linked_def hlist_unhashed_def)
  have en: "ie_index (ih_entry tbl' f) = (if f = new then ?i else ie_index (ih_entry tbl f))" for f
    by (simp add: tbl' set_index_def)
  then show "ie_index (ih_entry tbl' new) = ?i" by simp
  show l: "linked tbl' f \<longleftrightarrow> f = new \<or> f \<noteq> old \<and> linked tbl f" for f
    using rp(2) [OF un] ne assms(3) by (auto simp: linked_def tbl')
  have "hl_pprev (ih_hashtable tbl') f = Some b \<Longrightarrow> b = index_bucket (ie_index (ih_entry tbl' f))" for f b
    using rp(2) [OF un] index_okD(2) [OF assms(1), of _ b] unfolding en by (auto simp: tbl' split: if_splits)
  moreover have "linked tbl' e \<Longrightarrow> linked tbl' f \<Longrightarrow> ie_index (ih_entry tbl' e) = ie_index (ih_entry tbl' f) \<Longrightarrow> e = f" for e f
    unfolding l en using index_okD(3) [OF assms(1)] assms(3) by (auto split: if_splits)
  ultimately show ok: "index_ok tbl'" using rp(1) [OF un] unfolding index_ok_def by (simp add: tbl')
  show "index_find tbl' = (index_find tbl)(?i \<mapsto> new)"
    by (rule ext, rule option_map_eqI, unfold index_find_iff [OF ok] l en)
      (use index_find_iff [OF assms(1)] index_okD(3) [OF assms(1)] assms(2,3) in \<open>auto split: if_splits\<close>)
qed

text \<open>The search ends as soon as a number outside the indices in use is drawn.\<close>

lemma search_unused_slot_returns:
  assumes "index_ok tbl" "\<not> linked tbl e" "attempts_fair e attempts" "indices tbl \<subseteq> U"
    and "list_all (\<lambda>a. stays_within U (ia_before a) \<and> stays_within U (ia_between a)) attempts"
    and "a \<in> set attempts" "ia_random a \<notin> U"
  shows "\<exists>i tbl'. search_unused_slot attempts tbl e = Some (i, tbl')"
  using assms
proof (induction attempts arbitrary: tbl)
  case (Cons b later)
  let ?tbl = "set_index (ia_before b tbl) e (ia_random b)"
  have f: "leaves_alone e (ia_before b)" "leaves_alone e (ia_between b)" "attempts_fair e later"
    using Cons.prems(3) by (auto simp: attempts_fair_def)
  have b: "index_ok (ia_before b tbl)" "\<not> linked (ia_before b tbl) e"
    using f(1) Cons.prems(1,2) by (auto simp: leaves_alone_def)
  then have t: "index_ok ?tbl" "\<not> linked ?tbl e" "index_find ?tbl = index_find (ia_before b tbl)"
    using set_index_unlinked [OF b] by auto
  then have u: "index_ok (ia_between b ?tbl)" "\<not> linked (ia_between b ?tbl) e"
    using f(2) unfolding leaves_alone_def by metis+
  have U: "indices ?tbl \<subseteq> U" using Cons.prems(1,4,5) t(3) by (auto simp: stays_within_def indices_def)
  then have U': "indices (ia_between b ?tbl) \<subseteq> U" using Cons.prems(5) t(1) by (auto simp: stays_within_def)
  show ?case
  proof (cases "index_find ?tbl (ia_random b) \<noteq> None \<or> index_find (ia_between b ?tbl) (ia_random b) \<noteq> None")
    case True
    then have "ia_random b \<in> U" using U U' by (auto simp: indices_def)
    then have "a \<in> set later" using Cons.prems(6,7) by auto
    then have "\<exists>i tbl'. search_unused_slot later tbl2 e = Some (i, tbl')"
      if "tbl2 = ?tbl \<or> tbl2 = ia_between b ?tbl" for tbl2
      using Cons.IH [of tbl2] Cons.prems(5,7) that t u U U' f(3) by auto
    then show ?thesis using True by (auto simp: Let_def)
  qed (auto simp: Let_def)
qed simp


section \<open>Properties\<close>

lemma empty_index_ok: "index_ok empty_index"
  by (simp add: index_ok_def empty_index_def hlists_ok_def linked_def)

lemma steal_leaves_alone: "f \<noteq> e \<Longrightarrow> leaves_alone e (steal f i)"
proof -
  assume "f \<noteq> e"
  have "index_ok (steal f i tbl) \<and> \<not> linked (steal f i tbl) e \<and> ih_entry (steal f i tbl) e = ih_entry tbl e"
    if "index_ok tbl" "\<not> linked tbl e" for tbl
  proof (cases "\<not> linked tbl f \<and> index_find tbl i = None")
    case True
    note s = set_index_unlinked [OF that(1), of f i]
    show ?thesis
      using True s index_link_ok [OF s(1), of f i] that \<open>f \<noteq> e\<close>
      by (simp add: steal_def) (simp add: set_index_def index_link_def)
  qed (use that in \<open>auto simp: steal_def\<close>)
  then show ?thesis by (simp add: leaves_alone_def)
qed

lemma steal_stays_within:
  assumes "i \<in> U"
  shows "stays_within U (steal f i)"
proof -
  have "indices (steal f i tbl) \<subseteq> insert i (indices tbl)" if "index_ok tbl" for tbl
  proof (cases "\<not> linked tbl f \<and> index_find tbl i = None")
    case True
    note s = set_index_unlinked [OF that, of f i]
    have "index_find (steal f i tbl) = (index_find tbl)(i \<mapsto> f)"
      using True s index_link_ok(2) [OF s(1), of f i] by (simp add: steal_def)
    then show ?thesis by (auto simp: indices_def)
  qed (auto simp: steal_def)
  then show ?thesis using assms by (auto simp: stays_within_def)
qed

lemma demo_attempts_fair: "attempts_fair (HandshakeEntry 1) demo_attempts"
  by (simp add: attempts_fair_def demo_attempts_def steal_leaves_alone) (simp add: leaves_alone_def)

text \<open>
  C15. Indices are unique: whatever other CPUs do while an entry is being inserted, the
  entry ends up linked under the returned index, that index was unused when the table was
  locked, all other indices keep their entries, and the table stays well formed (every
  linked entry in the bucket of its index, no index twice).
\<close>

theorem index_insert_unique:
  assumes "index_ok tbl" "attempts_fair e attempts"
    and "wg_index_hashtable_insert attempts tbl e = Some (i, tbl')"
  shows "index_ok tbl' \<and> index_find tbl' i = Some e \<and>
    (\<exists>tbl1. index_ok tbl1 \<and> index_find tbl1 i = None \<and> index_find tbl' = (index_find tbl1)(i \<mapsto> e))"
proof -
  obtain tbl1 where t: "index_ok tbl1" "\<not> linked tbl1 e \<and> ie_index (ih_entry tbl1 e) = i \<and> index_find tbl1 i = None"
    "tbl' = index_link tbl1 i e" using insert_ok [OF assms] by blast
  then show ?thesis using idx.add_ok [OF t(1,2)] idx.look_add [OF t(1,2)] by auto
qed

theorem index_insert_unique_witness:
  "\<exists>tbl'. wg_index_hashtable_insert demo_attempts empty_index (HandshakeEntry 1) = Some (9, tbl') \<and>
     index_ok tbl' \<and> index_find tbl' 9 = Some (HandshakeEntry 1)"
proof -
  have "map_option fst (wg_index_hashtable_insert demo_attempts empty_index (HandshakeEntry 1)) = Some 9"
    by code_simp
  then obtain tbl' where "wg_index_hashtable_insert demo_attempts empty_index (HandshakeEntry 1) = Some (9, tbl')"
    by auto
  then show ?thesis
    using index_insert_unique [OF empty_index_ok demo_attempts_fair] by blast
qed

text \<open>
  C16. The random search returns: if the indices in use stay within a set \<open>U\<close> whatever the
  other CPUs do, and the random generator gives some number outside of \<open>U\<close>, then the
  insertion ends with an index.
\<close>

theorem index_insert_returns:
  assumes "index_ok tbl" "attempts_fair e attempts" "indices tbl \<subseteq> U"
    and "list_all (\<lambda>a. stays_within U (ia_before a) \<and> stays_within U (ia_between a)) attempts"
    and "a \<in> set attempts" "ia_random a \<notin> U"
  shows "\<exists>i tbl'. wg_index_hashtable_insert attempts tbl e = Some (i, tbl')"
proof -
  have "indices (wg_index_hashtable_remove tbl e) \<subseteq> U"
    using assms(3) index_unlink_ok(2) [OF assms(1), of e] by (auto simp: indices_def split: if_splits)
  moreover have "\<not> linked (wg_index_hashtable_remove tbl e) e" using index_unlink_ok(3) [OF assms(1)] by simp
  ultimately have "\<exists>i tbl'. search_unused_slot attempts (wg_index_hashtable_remove tbl e) e = Some (i, tbl')"
    using index_unlink_ok(1) [OF assms(1)] assms(2,4-) by (intro search_unused_slot_returns) auto
  then show ?thesis
    by (simp add: wg_index_hashtable_insert_def wg_index_hashtable_remove_def Let_def)
qed

theorem index_insert_returns_witness:
  "\<exists>i tbl'. wg_index_hashtable_insert demo_attempts empty_index (HandshakeEntry 1) = Some (i, tbl')"
proof (rule index_insert_returns [OF empty_index_ok demo_attempts_fair, where U = "{7}"])
  show "\<lparr>ia_before = id, ia_random = 9, ia_between = id\<rparr> \<in> set demo_attempts"
    by (simp add: demo_attempts_def)
  show "list_all (\<lambda>a. stays_within {7} (ia_before a) \<and> stays_within {7} (ia_between a)) demo_attempts"
    by (simp add: demo_attempts_def steal_stays_within) (simp add: stays_within_def)
  show "indices empty_index \<subseteq> {7}" by (simp add: indices_def index_find_def empty_index_def)
qed simp

text \<open>
  C17. Replacing an entry hands its index over in one step: the index leads to the new
  entry, the old one is unlinked, all other indices are unchanged; if the old entry was no
  longer linked, nothing changes and the caller is told so.
\<close>

theorem index_replace_hands_over:
  assumes "index_ok tbl" "\<not> linked tbl new"
  shows "case wg_index_hashtable_replace tbl old new of (r, tbl') \<Rightarrow>
    (if linked tbl old then
       r \<and> index_ok tbl' \<and> \<not> linked tbl' old \<and>
       index_find tbl' = (index_find tbl)(ie_index (ih_entry tbl old) \<mapsto> new)
     else \<not> r \<and> tbl' = tbl)"
proof (cases "linked tbl old")
  case True
  obtain r tbl' where "wg_index_hashtable_replace tbl old new = (r, tbl')" by fastforce
  from replace_ok [OF assms True this] show ?thesis
    using True assms(2) \<open>wg_index_hashtable_replace tbl old new = (r, tbl')\<close> by auto
qed (auto simp: wg_index_hashtable_replace_def linked_def hlist_unhashed_def)

theorem index_replace_hands_over_witness:
  "case wg_index_hashtable_replace (index_link empty_index 0 (HandshakeEntry 1)) (HandshakeEntry 1) (KeypairEntry 5)
     of (r, tbl') \<Rightarrow> r \<and> index_ok tbl' \<and> \<not> linked tbl' (HandshakeEntry 1)"
proof -
  let ?t = "index_link empty_index 0 (HandshakeEntry 1)"
  have e: "\<not> linked empty_index (HandshakeEntry 1)" "ie_index (ih_entry empty_index (HandshakeEntry 1)) = 0"
    "index_find empty_index 0 = None" by code_simp+
  have "index_ok ?t" by (rule index_link_ok(1) [OF empty_index_ok e])
  moreover have "\<not> linked ?t (KeypairEntry 5)" "linked ?t (HandshakeEntry 1)" by code_simp+
  ultimately show ?thesis
    using index_replace_hands_over [of ?t "KeypairEntry 5" "HandshakeEntry 1"] by auto
qed

text \<open>
  C18. A lookup by index answers exactly the entry linked under the index, provided it is of
  a wanted type and its peer is not being freed; it then takes one reference on that peer.
  In all other cases it answers nothing and changes no reference count. The set of linked
  entries never changes.
\<close>

theorem index_lookup_result:
  assumes "index_ok tbl" "wg_index_hashtable_lookup tbl refs type_mask i = (r, tbl', refs')"
  shows "(r = Some (e, p) \<longleftrightarrow>
      linked tbl e \<and> ie_index (ih_entry tbl e) = i \<and> ie_type (ih_entry tbl e) AND type_mask \<noteq> 0 \<and>
      ie_peer (ih_entry tbl e) = Some p \<and> 0 < refs p) \<and>
    (case r of None \<Rightarrow> refs' = refs | Some (e, p) \<Rightarrow> refs' = kref_get refs p) \<and>
    index_ok tbl' \<and> index_find tbl' = index_find tbl"
proof -
  have en: "ih_hashtable tbl' = ih_hashtable tbl" "ie_index (ih_entry tbl' f) = ie_index (ih_entry tbl f)" for f
    using assms(2) by (auto simp: wg_index_hashtable_lookup_def Let_def split: option.splits if_splits prod.splits)
  then have ok: "index_ok tbl'" using assms(1) by (simp add: index_ok_def linked_def)
  have "index_find tbl' = index_find tbl" by (rule ext) (simp add: index_find_def en)
  moreover have "r = Some (e, p) \<longleftrightarrow> index_find tbl i = Some e \<and> ie_type (ih_entry tbl e) AND type_mask \<noteq> 0 \<and>
      ie_peer (ih_entry tbl e) = Some p \<and> 0 < refs p"
    using assms(2) by (auto simp: wg_index_hashtable_lookup_def wg_peer_get_maybe_zero_def Let_def
        split: option.splits if_splits)
  moreover have "case r of None \<Rightarrow> refs' = refs | Some (e, p) \<Rightarrow> refs' = kref_get refs p"
    using assms(2) by (auto simp: wg_index_hashtable_lookup_def wg_peer_get_maybe_zero_def Let_def
        split: option.splits if_splits)
  ultimately show ?thesis using ok index_find_iff [OF assms(1), of i e] by simp
qed

theorem index_lookup_result_witness:
  "\<exists>tbl' refs'. wg_index_hashtable_lookup (index_link empty_index 0 (HandshakeEntry 1)) (\<lambda>_. 1)
     INDEX_HASHTABLE_HANDSHAKE 0 = (Some (HandshakeEntry 1, 1), tbl', refs') \<and> refs' = kref_get (\<lambda>_. 1) 1"
proof -
  let ?t = "index_link empty_index 0 (HandshakeEntry 1)"
  have e: "\<not> linked empty_index (HandshakeEntry 1)" "ie_index (ih_entry empty_index (HandshakeEntry 1)) = 0"
    "index_find empty_index 0 = None" by code_simp+
  have ok: "index_ok ?t" by (rule index_link_ok(1) [OF empty_index_ok e])
  have "fst (wg_index_hashtable_lookup ?t (\<lambda>_. 1) INDEX_HASHTABLE_HANDSHAKE 0) = Some (HandshakeEntry 1, 1)"
    by code_simp
  then obtain tbl' refs' where
    l: "wg_index_hashtable_lookup ?t (\<lambda>_. 1) INDEX_HASHTABLE_HANDSHAKE 0 = (Some (HandshakeEntry 1, 1), tbl', refs')"
    by (metis prod.collapse)
  then show ?thesis using index_lookup_result [OF ok l] by simp
qed

end
