(* ===== verification/WG_Queueing.thy ===== *)
theory WG_Queueing
  imports WG_Messages
begin

text \<open>
  The queues of \<^verbatim>\<open>queueing.c\<close> and \<^verbatim>\<open>queueing.h\<close>: the per-peer queue \<^verbatim>\<open>struct prev_queue\<close>
  (many producers, one consumer, linked through the packets' \<^verbatim>\<open>prev\<close> pointers), the
  per-device ring \<^verbatim>\<open>struct crypt_queue\<close>, and the choice of a CPU for the work. The
  lock-free queue is also given as a step relation in which every shared access is one
  step, so that producers and the consumer interleave.
\<close>

section \<open>The per-peer queue\<close>

text \<open>A link points to a packet or to the queue's own stub element.\<close>

datatype pq_node = Stub | Pkt addr

record prev_queue =
  pq_head :: pq_node
  pq_tail :: pq_node
  pq_peeked :: "addr option"
  pq_next :: "pq_node \<Rightarrow> pq_node option"
  pq_count :: nat

definition zero_queue :: prev_queue where
  "zero_queue = \<lparr>pq_head = Stub, pq_tail = Stub, pq_peeked = None, pq_next = (\<lambda>_. None), pq_count = 0\<rparr>"

definition wg_prev_queue_init :: "prev_queue \<Rightarrow> prev_queue" where
  "wg_prev_queue_init q =
     q\<lparr>pq_next := (pq_next q)(Stub := None), pq_head := Stub, pq_tail := Stub,
       pq_peeked := None, pq_count := 0\<rparr>"

text \<open>
  The two shared accesses of \<^verbatim>\<open>__wg_prev_queue_enqueue\<close>: the exchange of the head, which
  decides the order, and the store that makes the element reachable.
\<close>

definition pq_xchg :: "prev_queue \<Rightarrow> pq_node \<Rightarrow> pq_node \<times> prev_queue" where
  "pq_xchg q n = (pq_head q, q\<lparr>pq_next := (pq_next q)(n := None), pq_head := n\<rparr>)"

definition pq_link :: "pq_node \<Rightarrow> pq_node \<Rightarrow> prev_queue \<Rightarrow> prev_queue" where
  "pq_link prev n q = q\<lparr>pq_next := (pq_next q)(prev := Some n)\<rparr>"

definition prev_queue_enqueue :: "prev_queue \<Rightarrow> pq_node \<Rightarrow> prev_queue" where
  "prev_queue_enqueue q n = (let (prev, q) = pq_xchg q n in pq_link prev n q)"

definition wg_prev_queue_enqueue :: "prev_queue \<Rightarrow> addr \<Rightarrow> bool \<times> prev_queue" where
  "wg_prev_queue_enqueue q skb =
     (if pq_count q = MAX_QUEUED_PACKETS then (False, q)
      else (True, prev_queue_enqueue (q\<lparr>pq_count := pq_count q + 1\<rparr>) (Pkt skb)))"

text \<open>The element leaves the queue: the tail moves on.\<close>

definition pq_advance :: "prev_queue \<Rightarrow> pq_node \<Rightarrow> prev_queue" where
  "pq_advance q next = q\<lparr>pq_tail := next, pq_count := pq_count q - 1\<rparr>"

text \<open>What \<^verbatim>\<open>wg_prev_queue_dequeue\<close> does once the tail is not the stub.\<close>

definition dequeue_tail :: "prev_queue \<Rightarrow> pq_node \<Rightarrow> pq_node option \<Rightarrow> pq_node option \<times> prev_queue" where
  "dequeue_tail q tail next =
     (case next of
        Some n \<Rightarrow> (Some tail, pq_advance q n)
      | None \<Rightarrow>
          if tail \<noteq> pq_head q then (None, q)
          else
            let q = prev_queue_enqueue q Stub in
            case pq_next q tail of
              Some n \<Rightarrow> (Some tail, pq_advance q n)
            | None \<Rightarrow> (None, q))"

definition wg_prev_queue_dequeue :: "prev_queue \<Rightarrow> pq_node option \<times> prev_queue" where
  "wg_prev_queue_dequeue q =
     (let tail = pq_tail q; next = pq_next q tail in
      if tail = Stub then
        (case next of
           None \<Rightarrow> (None, q)
         | Some t \<Rightarrow> dequeue_tail (q\<lparr>pq_tail := t\<rparr>) t (pq_next q t))
      else dequeue_tail q tail next)"

definition skb_of :: "pq_node \<Rightarrow> addr option" where
  "skb_of n = (case n of Stub \<Rightarrow> None | Pkt a \<Rightarrow> Some a)"

definition wg_prev_queue_peek :: "prev_queue \<Rightarrow> addr option \<times> prev_queue" where
  "wg_prev_queue_peek q =
     (case pq_peeked q of
        Some skb \<Rightarrow> (Some skb, q)
      | None \<Rightarrow>
          let (r, q) = wg_prev_queue_dequeue q;
              q = q\<lparr>pq_peeked := Option.bind r skb_of\<rparr>
          in (pq_peeked q, q))"

definition wg_prev_queue_drop_peeked :: "prev_queue \<Rightarrow> prev_queue" where
  "wg_prev_queue_drop_peeked q = q\<lparr>pq_peeked := None\<rparr>"

section \<open>The per-device ring\<close>

text \<open>
  \<^verbatim>\<open>struct ptr_ring\<close> is the kernel's bounded FIFO. The per-CPU worker records whether its
  work is queued.
\<close>

record 'a crypt_queue =
  cq_ring :: "'a list"
  cq_size :: nat
  cq_worker :: "(nat \<Rightarrow> bool) option"
  cq_last_cpu :: int

definition ptr_ring_produce :: "'a crypt_queue \<Rightarrow> 'a \<Rightarrow> errno option \<times> 'a crypt_queue" where
  "ptr_ring_produce q x =
     (if length (cq_ring q) \<ge> cq_size q then (Some ENOSPC, q)
      else (None, q\<lparr>cq_ring := cq_ring q @ [x]\<rparr>))"

definition ptr_ring_consume :: "'a crypt_queue \<Rightarrow> 'a option \<times> 'a crypt_queue" where
  "ptr_ring_consume q =
     (case cq_ring q of [] \<Rightarrow> (None, q) | x # xs \<Rightarrow> (Some x, q\<lparr>cq_ring := xs\<rparr>))"

definition wg_packet_percpu_multicore_worker_alloc :: "bool \<Rightarrow> (nat \<Rightarrow> bool) option" where
  "wg_packet_percpu_multicore_worker_alloc mem = (if mem then Some (\<lambda>cpu. False) else None)"

definition wg_packet_queue_init ::
    "nat \<Rightarrow> errno option \<Rightarrow> bool \<Rightarrow> errno option \<times> 'a crypt_queue" where
  "wg_packet_queue_init len ring_ret worker_mem =
     (let q = \<lparr>cq_ring = [], cq_size = 0, cq_worker = None, cq_last_cpu = -1\<rparr> in
      case ring_ret of
        Some e \<Rightarrow> (Some e, q)
      | None \<Rightarrow>
          let q = q\<lparr>cq_size := len\<rparr>;
              q = q\<lparr>cq_worker := wg_packet_percpu_multicore_worker_alloc worker_mem\<rparr> in
          if cq_worker q = None then (Some ENOMEM, q\<lparr>cq_size := 0\<rparr>) else (None, q))"

text \<open>The result are the packets the cleanup destroys, and whether the warning fires.\<close>

definition wg_packet_queue_free ::
    "'a crypt_queue \<Rightarrow> bool \<Rightarrow> 'a list \<times> bool \<times> 'a crypt_queue" where
  "wg_packet_queue_free q purge =
     (let q = q\<lparr>cq_worker := None\<rparr>;
          warn = (\<not> purge \<and> cq_ring q \<noteq> [])
      in (if purge then cq_ring q else [], warn, q\<lparr>cq_ring := [], cq_size := 0\<rparr>))"

definition queue_work_on :: "nat \<Rightarrow> 'a crypt_queue \<Rightarrow> 'a crypt_queue" where
  "queue_work_on cpu q = q\<lparr>cq_worker := map_option (\<lambda>w. w(cpu := True)) (cq_worker q)\<rparr>"

section \<open>Choice of a CPU\<close>

text \<open>A CPU mask is the list of its bits; its length is the number of CPU identifiers.\<close>

definition cpumask_test_cpu :: "nat \<Rightarrow> bool list \<Rightarrow> bool" where
  "cpumask_test_cpu cpu msk \<longleftrightarrow> cpu < length msk \<and> msk ! cpu"

definition cpumask_next :: "int \<Rightarrow> bool list \<Rightarrow> nat" where
  "cpumask_next n msk =
     (case find (\<lambda>i. msk ! i) [nat (n + 1)..<length msk] of Some i \<Rightarrow> i | None \<Rightarrow> length msk)"

definition cpumask_first :: "bool list \<Rightarrow> nat" where
  "cpumask_first msk = cpumask_next (-1) msk"

definition cpumask_weight :: "bool list \<Rightarrow> nat" where
  "cpumask_weight msk = length (filter id msk)"

text \<open>The loop runs \<^verbatim>\<open>cpumask_next\<close> \<open>n\<close> times.\<close>

fun cpumask_nth :: "nat \<Rightarrow> nat \<Rightarrow> bool list \<Rightarrow> nat" where
  "cpumask_nth 0 cpu msk = cpu"
| "cpumask_nth (Suc n) cpu msk = cpumask_nth n (cpumask_next (int cpu) msk) msk"

definition wg_cpumask_choose_online :: "bool list \<Rightarrow> nat \<Rightarrow> nat \<Rightarrow> nat" where
  "wg_cpumask_choose_online online stored_cpu ident =
     (if stored_cpu = length online \<or> \<not> cpumask_test_cpu stored_cpu online then
        cpumask_nth (ident mod cpumask_weight online) (cpumask_first online) online
      else stored_cpu)"

definition wg_cpumask_next_online :: "bool list \<Rightarrow> int \<Rightarrow> nat" where
  "wg_cpumask_next_online online last_cpu =
     (let cpu = cpumask_next last_cpu online
      in if cpu \<ge> length online then cpumask_first online else cpu)"

section \<open>The queue with every shared access as a step\<close>

text \<open>
  Where the consumer is inside \<^verbatim>\<open>wg_prev_queue_dequeue\<close>, with its local variables.
\<close>

datatype pq_pc =
    CIdle
  | CPassed pq_node                     \<comment> \<open>the tail was the stub and has moved to this element\<close>
  | CNext pq_node "pq_node option"      \<comment> \<open>the link of the tail has been read\<close>
  | CAlone pq_node                      \<comment> \<open>the tail is the only element\<close>
  | CXchg pq_node pq_node               \<comment> \<open>the stub is the head; its predecessor is not linked yet\<close>
  | CLinked pq_node                     \<comment> \<open>the stub is linked\<close>

text \<open>
  The queue, the producers that have exchanged the head but not stored the link, the
  number of producers that have counted their packet but not exchanged the head, and
  the packets in the order of the exchanges and in the order the consumer got them.
\<close>

record pq_conf =
  qc_queue :: prev_queue
  qc_pending :: "(pq_node \<times> pq_node) list"
  qc_reserved :: nat
  qc_pc :: pq_pc
  qc_in :: "addr list"
  qc_out :: "addr list"

definition pq_return :: "pq_conf \<Rightarrow> pq_node \<Rightarrow> pq_node \<Rightarrow> pq_conf" where
  "pq_return c t n =
     c\<lparr>qc_queue := pq_advance (qc_queue c) n, qc_pc := CIdle,
       qc_out := qc_out c @ (case skb_of t of Some a \<Rightarrow> [a] | None \<Rightarrow> [])\<rparr>"

inductive pq_step :: "pq_conf \<Rightarrow> pq_conf \<Rightarrow> bool" where
  reserve: "pq_count (qc_queue c) \<noteq> MAX_QUEUED_PACKETS \<Longrightarrow>
     pq_step c (c\<lparr>qc_queue := (qc_queue c)\<lparr>pq_count := pq_count (qc_queue c) + 1\<rparr>,
                  qc_reserved := qc_reserved c + 1\<rparr>)"
| xchg: "0 < qc_reserved c \<Longrightarrow> a \<notin> set (drop (length (qc_out c)) (qc_in c)) \<Longrightarrow>
     pq_xchg (qc_queue c) (Pkt a) = (prev, q) \<Longrightarrow>
     pq_step c (c\<lparr>qc_queue := q, qc_reserved := qc_reserved c - 1,
                  qc_pending := (prev, Pkt a) # qc_pending c, qc_in := qc_in c @ [a]\<rparr>)"
| link: "(prev, n) \<in> set (qc_pending c) \<Longrightarrow> n \<noteq> Stub \<Longrightarrow>
     pq_step c (c\<lparr>qc_queue := pq_link prev n (qc_queue c),
                  qc_pending := removeAll (prev, n) (qc_pending c)\<rparr>)"
| deq_empty: "qc_pc c = CIdle \<Longrightarrow> pq_tail (qc_queue c) = Stub \<Longrightarrow> pq_next (qc_queue c) Stub = None \<Longrightarrow>
     pq_step c c"
| deq_pass: "qc_pc c = CIdle \<Longrightarrow> pq_tail (qc_queue c) = Stub \<Longrightarrow> pq_next (qc_queue c) Stub = Some t \<Longrightarrow>
     pq_step c (c\<lparr>qc_queue := (qc_queue c)\<lparr>pq_tail := t\<rparr>, qc_pc := CPassed t\<rparr>)"
| deq_passed: "qc_pc c = CPassed t \<Longrightarrow>
     pq_step c (c\<lparr>qc_pc := CNext t (pq_next (qc_queue c) t)\<rparr>)"
| deq_read: "qc_pc c = CIdle \<Longrightarrow> pq_tail (qc_queue c) = t \<Longrightarrow> t \<noteq> Stub \<Longrightarrow>
     pq_step c (c\<lparr>qc_pc := CNext t (pq_next (qc_queue c) t)\<rparr>)"
| deq_take: "qc_pc c = CNext t (Some n) \<Longrightarrow> pq_step c (pq_return c t n)"
| deq_busy: "qc_pc c = CNext t None \<Longrightarrow> t \<noteq> pq_head (qc_queue c) \<Longrightarrow>
     pq_step c (c\<lparr>qc_pc := CIdle\<rparr>)"
| deq_alone: "qc_pc c = CNext t None \<Longrightarrow> t = pq_head (qc_queue c) \<Longrightarrow>
     pq_step c (c\<lparr>qc_pc := CAlone t\<rparr>)"
| deq_stub: "qc_pc c = CAlone t \<Longrightarrow> pq_xchg (qc_queue c) Stub = (prev, q) \<Longrightarrow>
     pq_step c (c\<lparr>qc_queue := q, qc_pending := (prev, Stub) # qc_pending c, qc_pc := CXchg t prev\<rparr>)"
| deq_stub_link: "qc_pc c = CXchg t prev \<Longrightarrow>
     pq_step c (c\<lparr>qc_queue := pq_link prev Stub (qc_queue c),
                  qc_pending := removeAll (prev, Stub) (qc_pending c), qc_pc := CLinked t\<rparr>)"
| deq_last: "qc_pc c = CLinked t \<Longrightarrow> pq_next (qc_queue c) t = Some n \<Longrightarrow> pq_step c (pq_return c t n)"
| deq_fail: "qc_pc c = CLinked t \<Longrightarrow> pq_next (qc_queue c) t = None \<Longrightarrow>
     pq_step c (c\<lparr>qc_pc := CIdle\<rparr>)"

inductive pq_reach :: "pq_conf \<Rightarrow> pq_conf \<Rightarrow> bool" where
  here: "pq_reach c c"
| more: "pq_reach c d \<Longrightarrow> pq_step d e \<Longrightarrow> pq_reach c e"

definition pq_start :: "prev_queue \<Rightarrow> pq_conf" where
  "pq_start q =
     \<lparr>qc_queue = wg_prev_queue_init q, qc_pending = [], qc_reserved = 0, qc_pc = CIdle, qc_in = [], qc_out = []\<rparr>"


section \<open>Specification\<close>

fun pkts :: "pq_node list \<Rightarrow> addr list" where
  "pkts [] = []"
| "pkts (Stub # ns) = pkts ns"
| "pkts (Pkt a # ns) = a # pkts ns"

text \<open>
  The elements from the tail to the head, in the order of the exchanges: each is linked to
  the next one or the store of that link is pending.
\<close>

fun links :: "(pq_node \<Rightarrow> pq_node option) \<Rightarrow> (pq_node \<times> pq_node) set \<Rightarrow> pq_node list \<Rightarrow> bool" where
  "links nx P [] = True"
| "links nx P [x] = (nx x = None)"
| "links nx P (x # y # zs) =
     ((nx x = Some y \<and> (x, y) \<notin> P \<or> nx x = None \<and> (x, y) \<in> P) \<and> links nx P (y # zs))"

definition chain :: "prev_queue \<Rightarrow> (pq_node \<times> pq_node) set \<Rightarrow> pq_node list \<Rightarrow> bool" where
  "chain q P ns \<longleftrightarrow>
     ns \<noteq> [] \<and> hd ns = pq_tail q \<and> last ns = pq_head q \<and> distinct ns \<and> links (pq_next q) P ns \<and>
     P \<subseteq> set (zip ns (tl ns))"

definition pc_ok :: "prev_queue \<Rightarrow> (pq_node \<times> pq_node) set \<Rightarrow> pq_node list \<Rightarrow> pq_pc \<Rightarrow> bool" where
  "pc_ok q P ns pc =
     (case pc of
        CIdle \<Rightarrow> True
      | CPassed t \<Rightarrow> t = pq_tail q \<and> t \<noteq> Stub
      | CNext t n \<Rightarrow> t = pq_tail q \<and> t \<noteq> Stub \<and> (n \<noteq> None \<longrightarrow> pq_next q t = n)
      | CAlone t \<Rightarrow> t = pq_tail q \<and> t \<noteq> Stub \<and> Stub \<notin> set ns
      | CXchg t prev \<Rightarrow> t = pq_tail q \<and> t \<noteq> Stub \<and> (prev, Stub) \<in> P
      | CLinked t \<Rightarrow> t = pq_tail q \<and> t \<noteq> Stub)"

definition conf_ok :: "pq_conf \<Rightarrow> pq_node list \<Rightarrow> bool" where
  "conf_ok c ns \<longleftrightarrow>
     chain (qc_queue c) (set (qc_pending c)) ns \<and> pc_ok (qc_queue c) (set (qc_pending c)) ns (qc_pc c) \<and>
     qc_in c = qc_out c @ pkts ns \<and>
     pq_count (qc_queue c) = length (pkts ns) + qc_reserved c \<and> pq_count (qc_queue c) \<le> MAX_QUEUED_PACKETS"

text \<open>The consumer is done with a call that gave the result \<open>r\<close>.\<close>

definition pq_result :: "pq_conf \<Rightarrow> pq_node option \<times> prev_queue \<Rightarrow> pq_conf \<Rightarrow> bool" where
  "pq_result c r d \<longleftrightarrow>
     qc_pc d = CIdle \<and> qc_queue d = snd r \<and> qc_in d = qc_in c \<and>
     qc_out d = qc_out c @ (case Option.bind (fst r) skb_of of Some a \<Rightarrow> [a] | None \<Rightarrow> [])"

definition online_cpus :: "bool list \<Rightarrow> nat list" where
  "online_cpus msk = filter (\<lambda>i. msk ! i) [0..<length msk]"

text \<open>The queue when no producer is in the middle of an enqueue: what is peeked, and the rest.\<close>

definition pq_rep :: "prev_queue \<Rightarrow> addr option \<Rightarrow> addr list \<Rightarrow> bool" where
  "pq_rep q pk xs \<longleftrightarrow>
     (\<exists>ns. chain q {} ns \<and> pkts ns = xs) \<and> pq_peeked q = pk \<and> pq_count q = length xs \<and>
     length xs \<le> MAX_QUEUED_PACKETS"

definition content :: "'a option \<Rightarrow> 'a list \<Rightarrow> 'a list" where
  "content pk xs = (case pk of None \<Rightarrow> xs | Some x \<Rightarrow> x # xs)"

text \<open>The interface the transmit and receive paths use: a bounded FIFO with one element peeked.\<close>

locale fifo =
  fixes rep :: "'q \<Rightarrow> 'a option \<Rightarrow> 'a list \<Rightarrow> bool"
    and enq :: "'q \<Rightarrow> 'a \<Rightarrow> bool \<times> 'q"
    and peek :: "'q \<Rightarrow> 'a option \<times> 'q"
    and drop_peeked :: "'q \<Rightarrow> 'q"
    and cap :: nat
  assumes enq_ok: "rep q pk xs \<Longrightarrow> a \<notin> set xs \<Longrightarrow> length xs < cap \<Longrightarrow> \<exists>q'. enq q a = (True, q') \<and> rep q' pk (xs @ [a])"
    and enq_full: "rep q pk xs \<Longrightarrow> cap \<le> length xs \<Longrightarrow> enq q a = (False, q)"
    and peek_held: "rep q (Some x) xs \<Longrightarrow> peek q = (Some x, q)"
    and peek_empty: "rep q None [] \<Longrightarrow> peek q = (None, q)"
    and peek_next: "rep q None (x # xs) \<Longrightarrow> \<exists>q'. peek q = (Some x, q') \<and> rep q' (Some x) xs"
    and drop_ok: "rep q pk xs \<Longrightarrow> rep (drop_peeked q) None xs"
begin

lemma peek_content:
  assumes "rep q pk xs"
  shows "\<exists>pk' xs'. fst (peek q) = (case content pk xs of [] \<Rightarrow> None | x # _ \<Rightarrow> Some x) \<and>
    rep (snd (peek q)) pk' xs' \<and> content pk' xs' = content pk xs"
proof (cases pk)
  case (Some x)
  then show ?thesis using peek_held [of q x xs] assms by (intro exI [of _ pk] exI [of _ xs]) (simp add: content_def)
next
  case None
  then show ?thesis
  proof (cases xs)
    case Nil
    then show ?thesis using peek_empty [of q] assms None by (intro exI [of _ None] exI [of _ "[]"]) (simp add: content_def)
  next
    case (Cons x ys)
    then obtain q' where "peek q = (Some x, q')" "rep q' (Some x) ys" using peek_next assms None by blast
    then show ?thesis using None Cons by (intro exI [of _ "Some x"] exI [of _ ys]) (simp add: content_def)
  qed
qed

lemma next_element:
  assumes "rep q pk xs" "content pk xs = y # ys"
  shows "\<exists>q'. peek q = (Some y, q') \<and> rep (drop_peeked q') None ys"
proof (cases pk)
  case None
  then obtain q' where "peek q = (Some y, q')" "rep q' (Some y) ys"
    using peek_next [of q y ys] assms by (auto simp: content_def)
  then show ?thesis using drop_ok by blast
next
  case (Some x)
  then show ?thesis using assms peek_held drop_ok by (auto simp: content_def)
qed

end

section \<open>Chains\<close>

lemma pkts_append [simp]: "pkts (xs @ ys) = pkts xs @ pkts ys"
  by (induction xs rule: pkts.induct) auto

lemma mem_pkts [simp]: "a \<in> set (pkts ns) \<longleftrightarrow> Pkt a \<in> set ns"
  by (induction ns rule: pkts.induct) auto

lemma pkts_tail: "t \<noteq> Stub \<Longrightarrow> pkts (t # ns) = (case skb_of t of Some a \<Rightarrow> [a] | None \<Rightarrow> []) @ pkts ns"
  by (cases t) (auto simp: skb_of_def)

lemma links_last: "links nx P ns \<Longrightarrow> ns \<noteq> [] \<Longrightarrow> nx (last ns) = None"
  by (induction nx P ns rule: links.induct) auto

lemma links_cong:
  "links nx P ns \<Longrightarrow> (\<And>x. x \<in> set ns \<Longrightarrow> nx' x = nx x) \<Longrightarrow>
   (\<And>x y. x \<in> set ns \<Longrightarrow> y \<in> set ns \<Longrightarrow> (x, y) \<in> P' \<longleftrightarrow> (x, y) \<in> P) \<Longrightarrow> links nx' P' ns"
  by (induction nx P ns rule: links.induct) auto

lemma links_snoc:
  assumes "links nx P ns" "ns \<noteq> []" "n \<notin> set ns"
  shows "links (nx(n := None)) (insert (last ns, n) P) (ns @ [n])"
  using assms
proof (induction nx P ns rule: links.induct)
  case (3 nx P x y zs)
  then show ?case by (auto split: if_splits)
qed auto

lemma links_store:
  assumes "links nx P ns" "distinct ns" "(x, y) \<in> set (zip ns (tl ns))" "(x, y) \<in> P"
  shows "links (nx(x := Some y)) (P - {(x, y)}) ns"
  using assms
proof (induction nx P ns rule: links.induct)
  case (3 nx P a b zs)
  show ?case
  proof (cases "(x, y) = (a, b)")
    case True
    have "links (nx(x := Some y)) (P - {(x, y)}) (b # zs)"
      by (rule links_cong [of nx P]) (use 3 True in auto)
    moreover have "x = a" "y = b" using True by auto
    ultimately show ?thesis by (simp add: fun_upd_def)
  next
    case False
    then have z: "(x, y) \<in> set (zip (b # zs) (tl (b # zs)))" using 3(4) by auto
    then have "x \<in> set (b # zs)" by (meson set_zip_leftD)
    then have "x \<noteq> a" using 3(3) by auto
    then show ?thesis using 3 z False by auto
  qed
qed auto

lemma links_next:
  "links nx P (t # ns) \<Longrightarrow> nx t = Some n \<Longrightarrow> \<exists>ms. ns = n # ms \<and> (t, n) \<notin> P \<and> links nx P ns"
  by (cases ns) auto

lemma zip_tl_snoc:
  "ns \<noteq> [] \<Longrightarrow> set (zip (ns @ [n]) (tl (ns @ [n]))) = insert (last ns, n) (set (zip ns (tl ns)))"
  by (induction ns rule: induct_list012) auto

lemma chain_snoc:
  assumes "chain q P ns" "n \<notin> set ns" "pq_xchg q n = (prev, q')"
  shows "chain q' (insert (prev, n) P) (ns @ [n])" "(prev, n) \<notin> P"
proof -
  have q': "prev = last ns" "q' = q\<lparr>pq_next := (pq_next q)(n := None), pq_head := n\<rparr>"
    using assms by (auto simp: pq_xchg_def chain_def)
  have c: "ns \<noteq> []" "links (pq_next q) P ns" "P \<subseteq> set (zip ns (tl ns))" using assms(1) by (auto simp: chain_def)
  have z: "set (zip (ns @ [n]) (tl (ns @ [n]))) = insert (last ns, n) (set (zip ns (tl ns)))"
    using c(1) by (rule zip_tl_snoc)
  have "snd ` set (zip ns (tl ns)) \<subseteq> set ns"
    using c(1) by (auto dest!: set_zip_rightD list.set_sel(2) [rotated])
  then show "(prev, n) \<notin> P" using c(3) assms(2) by force
  show "chain q' (insert (prev, n) P) (ns @ [n])"
    using links_snoc [OF c(2,1) assms(2)] assms(1,2) c z unfolding chain_def q' by auto
qed

lemma chain_link:
  assumes "chain q P ns" "(x, y) \<in> P"
  shows "chain (pq_link x y q) (P - {(x, y)}) ns"
  using assms links_store [of "pq_next q" P ns x y] by (auto simp: chain_def pq_link_def)

lemma chain_next:
  assumes "chain q P ns" "pq_next q (pq_tail q) = Some n"
  obtains ms where "ns = pq_tail q # n # ms" "\<And>q'. pq_next q' = pq_next q \<Longrightarrow> pq_head q' = pq_head q \<Longrightarrow>
    pq_tail q' = n \<Longrightarrow> chain q' P (n # ms)"
proof -
  let ?t = "pq_tail q"
  have c: "hd ns = ?t" "ns \<noteq> []" "distinct ns" "P \<subseteq> set (zip ns (tl ns))" "last ns = pq_head q"
    using assms(1) by (auto simp: chain_def)
  then obtain ns' where ns: "ns = ?t # ns'" by (cases ns) auto
  have l: "links (pq_next q) P (?t # ns')" using assms(1) unfolding ns [symmetric] chain_def by blast
  obtain ms where m: "ns' = n # ms" "(?t, n) \<notin> P" "links (pq_next q) P ns'"
    using links_next [OF l assms(2)] by blast
  have "P \<subseteq> set (zip (n # ms) ms)" using c(4) m(2) unfolding ns m(1) by auto
  moreover have "distinct (n # ms)" "last (n # ms) = pq_head q" "links (pq_next q) P (n # ms)"
    using c(3,5) m(3) unfolding ns m(1) by simp_all
  ultimately have "pq_next q' = pq_next q \<Longrightarrow> pq_head q' = pq_head q \<Longrightarrow> pq_tail q' = n \<Longrightarrow> chain q' P (n # ms)" for q'
    by (simp add: chain_def)
  then show ?thesis using that ns m(1) by blast
qed


lemma links_pending:
  "links nx P ns \<Longrightarrow> (x, y) \<in> set (zip ns (tl ns)) \<Longrightarrow> (x, y) \<in> P \<Longrightarrow> nx x = None"
  by (induction nx P ns rule: links.induct) auto

lemma chain_pending: "chain q P ns \<Longrightarrow> (x, y) \<in> P \<Longrightarrow> pq_next q x = None"
  unfolding chain_def using links_pending by blast

lemma chain_tail_mem: "chain q P ns \<Longrightarrow> pq_tail q \<in> set ns"
  unfolding chain_def by (metis list.set_sel(1))

lemma chain_Stub_tail:
  "chain q P ns \<Longrightarrow> pq_tail q = pq_head q \<Longrightarrow> ns = [pq_tail q]"
  unfolding chain_def by (cases ns) (auto split: if_splits dest: last_in_set)

lemma chain_cong:
  "chain q P ns \<Longrightarrow> pq_next q' = pq_next q \<Longrightarrow> pq_head q' = pq_head q \<Longrightarrow> pq_tail q' = pq_tail q \<Longrightarrow> chain q' P ns"
  by (simp add: chain_def)

section \<open>The invariant of all interleavings\<close>

lemma conf_okD:
  assumes "conf_ok c ns"
  shows "chain (qc_queue c) (set (qc_pending c)) ns"
    "pc_ok (qc_queue c) (set (qc_pending c)) ns (qc_pc c)"
    "qc_in c = qc_out c @ pkts ns" "pq_count (qc_queue c) = length (pkts ns) + qc_reserved c"
    "pq_count (qc_queue c) \<le> MAX_QUEUED_PACKETS"
  using assms by (auto simp: conf_ok_def)

lemma pc_ok_xchg:
  assumes "chain q P ns" "pc_ok q P ns pc" "n \<notin> set ns" "n \<noteq> Stub" "pq_xchg q n = (prev, q')"
  shows "pc_ok q' (insert (prev, n) P) (ns @ [n]) pc"
  using assms chain_tail_mem [OF assms(1)]
  by (auto simp: pc_ok_def pq_xchg_def split: pq_pc.splits)

lemma pc_ok_link:
  assumes "chain q P ns" "pc_ok q P ns pc" "(prev, n) \<in> P" "n \<noteq> Stub"
  shows "pc_ok (pq_link prev n q) (P - {(prev, n)}) ns pc"
  using assms chain_pending [OF assms(1,3)]
  by (auto simp: pc_ok_def pq_link_def split: pq_pc.splits)

lemma conf_ok_take:
  assumes "conf_ok c ns" "pq_tail (qc_queue c) = t" "t \<noteq> Stub" "pq_next (qc_queue c) t = Some n"
  shows "\<exists>ms. conf_ok (pq_return c t n) ms"
proof -
  note c = conf_okD [OF assms(1)]
  have nx: "pq_next (qc_queue c) (pq_tail (qc_queue c)) = Some n" using assms(2,4) by simp
  obtain ms where m: "ns = t # n # ms" "\<And>q'. pq_next q' = pq_next (qc_queue c) \<Longrightarrow>
      pq_head q' = pq_head (qc_queue c) \<Longrightarrow> pq_tail q' = n \<Longrightarrow> chain q' (set (qc_pending c)) (n # ms)"
    by (rule chain_next [OF c(1) nx]) (use assms(2) in blast)
  have "chain (pq_advance (qc_queue c) n) (set (qc_pending c)) (n # ms)"
    by (rule m(2)) (simp_all add: pq_advance_def)
  moreover obtain a where "t = Pkt a" using assms(3) by (cases t) auto
  ultimately show ?thesis
    using c(3-5) m(1) by (intro exI [of _ "n # ms"]) (simp add: conf_ok_def pq_return_def pc_ok_def pq_advance_def skb_of_def)
qed

lemma pq_step_ok:
  assumes "pq_step c d" "conf_ok c ns"
  shows "\<exists>ms. conf_ok d ms"
  using assms
proof (induction rule: pq_step.induct)
  case (reserve c)
  note c = conf_okD [OF reserve(2)]
  have "chain ((qc_queue c)\<lparr>pq_count := pq_count (qc_queue c) + 1\<rparr>) (set (qc_pending c)) ns"
    by (rule chain_cong [OF c(1)]) simp_all
  then show ?case
    using c reserve(1) by (intro exI [of _ ns]) (auto simp: conf_ok_def pc_ok_def split: pq_pc.splits)
next
  case (xchg c a prev q)
  note c = conf_okD [OF xchg(4)]
  have a: "Pkt a \<notin> set ns" using xchg(2) c(3) by simp
  note ch = chain_snoc [OF c(1) a xchg(3)] and pc = pc_ok_xchg [OF c(1,2) a _ xchg(3)]
  have "pq_count q = pq_count (qc_queue c)" using xchg(3) by (auto simp: pq_xchg_def)
  then show ?case
    using ch(1) pc c xchg(1) by (intro exI [of _ "ns @ [Pkt a]"]) (simp add: conf_ok_def)
next
  case (link prev n c)
  note c = conf_okD [OF link(3)]
  have "pq_count (pq_link prev n (qc_queue c)) = pq_count (qc_queue c)" by (simp add: pq_link_def)
  then show ?case
    using chain_link [OF c(1) link(1)] pc_ok_link [OF c(1,2) link(1,2)] c
    by (intro exI [of _ ns]) (simp add: conf_ok_def)
next
  case (deq_pass c t)
  note c = conf_okD [OF deq_pass(4)]
  have nx: "pq_next (qc_queue c) (pq_tail (qc_queue c)) = Some t" using deq_pass(2,3) by simp
  obtain ms where m: "ns = Stub # t # ms" "\<And>q'. pq_next q' = pq_next (qc_queue c) \<Longrightarrow>
      pq_head q' = pq_head (qc_queue c) \<Longrightarrow> pq_tail q' = t \<Longrightarrow> chain q' (set (qc_pending c)) (t # ms)"
    by (rule chain_next [OF c(1) nx]) (use deq_pass(2) in simp)
  have "distinct ns" using c(1) by (simp add: chain_def)
  then have "t \<noteq> Stub" using m(1) by auto
  moreover have "chain ((qc_queue c)\<lparr>pq_tail := t\<rparr>) (set (qc_pending c)) (t # ms)"
    by (rule m(2)) simp_all
  ultimately show ?case
    using c m(1) by (intro exI [of _ "t # ms"]) (simp add: conf_ok_def pc_ok_def)
next
  case (deq_take c t n)
  then show ?case using conf_okD(2) [OF deq_take(2)] by (intro conf_ok_take) (auto simp: pc_ok_def)
next
  case (deq_alone c t)
  note c = conf_okD [OF deq_alone(3)]
  have "ns = [t]" using chain_Stub_tail [OF c(1)] c(2) deq_alone(1,2) by (simp add: pc_ok_def)
  then show ?case using c deq_alone(1) by (intro exI [of _ ns]) (auto simp: conf_ok_def pc_ok_def)
next
  case (deq_stub c t prev q)
  note c = conf_okD [OF deq_stub(3)]
  have s: "Stub \<notin> set ns" "t = pq_tail (qc_queue c)" "t \<noteq> Stub" using c(2) deq_stub(1) by (auto simp: pc_ok_def)
  have "pq_count q = pq_count (qc_queue c)" "pq_tail q = pq_tail (qc_queue c)"
    using deq_stub(2) by (auto simp: pq_xchg_def)
  then show ?case
    using chain_snoc(1) [OF c(1) s(1) deq_stub(2)] s c
    by (intro exI [of _ "ns @ [Stub]"]) (simp add: conf_ok_def pc_ok_def)
next
  case (deq_stub_link c t prev)
  note c = conf_okD [OF deq_stub_link(2)]
  have p: "(prev, Stub) \<in> set (qc_pending c)" "t = pq_tail (qc_queue c)" "t \<noteq> Stub"
    using c(2) deq_stub_link(1) by (auto simp: pc_ok_def)
  have "pq_count (pq_link prev Stub (qc_queue c)) = pq_count (qc_queue c)"
    "pq_tail (pq_link prev Stub (qc_queue c)) = pq_tail (qc_queue c)" by (simp_all add: pq_link_def)
  then show ?case
    using chain_link [OF c(1) p(1)] p c by (intro exI [of _ ns]) (simp add: conf_ok_def pc_ok_def)
next
  case (deq_last c t n)
  then show ?case using conf_okD(2) [OF deq_last(3)] by (intro conf_ok_take) (auto simp: pc_ok_def)
qed (auto simp: conf_ok_def pc_ok_def)

lemma pq_start_ok: "conf_ok (pq_start q) [Stub]"
  by (simp add: conf_ok_def pq_start_def wg_prev_queue_init_def chain_def pc_ok_def)

lemma pq_reach_ok: "pq_reach c d \<Longrightarrow> conf_ok c ns \<Longrightarrow> \<exists>ms. conf_ok d ms"
  by (induction rule: pq_reach.induct) (use pq_step_ok in blast)+


section \<open>One call at a time\<close>

lemma chain_no_pending:
  assumes "chain q {} ns"
  obtains (stub) "ns = [Stub]" "pq_tail q = Stub" "pq_next q Stub = None" "pkts ns = []"
    | (passed) a ms where "ns = Stub # Pkt a # ms" "pq_tail q = Stub" "pq_next q Stub = Some (Pkt a)"
    | (pkt) a ms where "ns = Pkt a # ms" "pq_tail q = Pkt a"
proof -
  obtain n ms where ns: "ns = n # ms" "n = pq_tail q" using assms by (cases ns) (auto simp: chain_def)
  show ?thesis
  proof (cases n)
    case (Pkt a)
    then show ?thesis using pkt ns by simp
  next
    case Stub
    show ?thesis
    proof (cases ms)
      case Nil
      then show ?thesis using stub ns Stub assms by (simp add: chain_def)
    next
      case (Cons m ms')
      then have "m \<noteq> Stub" "pq_next q Stub = Some m" using assms ns Stub by (auto simp: chain_def)
      then show ?thesis using passed ns Stub Cons by (cases m) auto
    qed
  qed
qed

lemma dequeue_tail_content:
  assumes "chain q {} (Pkt a # ms)"
  shows "\<exists>q'. dequeue_tail q (Pkt a) (pq_next q (Pkt a)) = (Some (Pkt a), q') \<and>
      (\<exists>ns. chain q' {} ns \<and> pkts ns = pkts ms) \<and> pq_peeked q' = pq_peeked q \<and> pq_count q' = pq_count q - 1"
proof (cases ms)
  case (Cons n ms')
  have t: "pq_tail q = Pkt a" "pq_next q (Pkt a) = Some n" using assms Cons by (auto simp: chain_def)
  then have nx: "pq_next q (pq_tail q) = Some n" by simp
  have "chain (pq_advance q n) {} (n # ms')"
    by (rule chain_next [OF assms nx]) (use Cons t in \<open>simp add: pq_advance_def\<close>)
  then show ?thesis using t Cons by (auto simp: pq_advance_def dequeue_tail_def)
next
  case Nil
  have t: "pq_tail q = Pkt a" "pq_next q (Pkt a) = None" "pq_head q = Pkt a"
    using assms Nil by (auto simp: chain_def)
  have "chain (pq_advance (prev_queue_enqueue q Stub) Stub) {} [Stub]"
    by (simp add: chain_def pq_advance_def prev_queue_enqueue_def pq_xchg_def pq_link_def t)
  then show ?thesis
    using t Nil by (auto simp: dequeue_tail_def pq_advance_def prev_queue_enqueue_def pq_xchg_def pq_link_def intro!: exI [of _ "[Stub]"])
qed

lemma dequeue_content:
  assumes "chain q {} ns"
  shows "pkts ns = [] \<Longrightarrow> wg_prev_queue_dequeue q = (None, q)"
    and "pkts ns = a # xs \<Longrightarrow> \<exists>q'. wg_prev_queue_dequeue q = (Some (Pkt a), q') \<and>
      (\<exists>ms. chain q' {} ms \<and> pkts ms = xs) \<and> pq_peeked q' = pq_peeked q \<and> pq_count q' = pq_count q - 1"
proof -
  show "wg_prev_queue_dequeue q = (None, q)" if "pkts ns = []"
    by (rule chain_no_pending [OF assms]) (use that in \<open>auto simp: wg_prev_queue_dequeue_def\<close>)
  show "\<exists>q'. wg_prev_queue_dequeue q = (Some (Pkt a), q') \<and>
      (\<exists>ms. chain q' {} ms \<and> pkts ms = xs) \<and> pq_peeked q' = pq_peeked q \<and> pq_count q' = pq_count q - 1"
    if p: "pkts ns = a # xs"
  proof (rule chain_no_pending [OF assms], goal_cases)
    case (2 b ms)
    have nx: "pq_next q (pq_tail q) = Some (Pkt b)" using 2 by simp
    have "chain (q\<lparr>pq_tail := Pkt b\<rparr>) {} (Pkt b # ms)"
      by (rule chain_next [OF assms nx]) (use 2 in simp)
    from dequeue_tail_content [OF this] show ?case using 2 p by (simp add: wg_prev_queue_dequeue_def)
  next
    case (3 b ms)
    have "chain q {} (Pkt b # ms)" using assms 3 by simp
    from dequeue_tail_content [OF this] show ?case using 3 p by (simp add: wg_prev_queue_dequeue_def Let_def)
  qed (use p in auto)
qed

lemma enqueue_content:
  assumes "chain q {} ns" "Pkt a \<notin> set ns"
  shows "chain (prev_queue_enqueue q (Pkt a)) {} (ns @ [Pkt a])"
proof -
  obtain prev q' where x: "pq_xchg q (Pkt a) = (prev, q')" by fastforce
  show ?thesis
    using chain_link [OF chain_snoc(1) [OF assms x], of prev "Pkt a"] x by (simp add: prev_queue_enqueue_def)
qed

lemma pq_rep_enqueue:
  assumes "pq_rep q pk xs" "a \<notin> set xs" "length xs < MAX_QUEUED_PACKETS"
  shows "\<exists>q'. wg_prev_queue_enqueue q a = (True, q') \<and> pq_rep q' pk (xs @ [a])"
proof -
  obtain ns where ns: "chain q {} ns" "pkts ns = xs" using assms(1) by (auto simp: pq_rep_def)
  let ?q = "q\<lparr>pq_count := pq_count q + 1\<rparr>"
  have "chain ?q {} ns" by (rule chain_cong [OF ns(1)]) simp_all
  moreover have "Pkt a \<notin> set ns" using assms(2) ns(2) mem_pkts by blast
  ultimately have "chain (prev_queue_enqueue ?q (Pkt a)) {} (ns @ [Pkt a])" by (rule enqueue_content)
  moreover have "pq_count (prev_queue_enqueue ?q (Pkt a)) = pq_count q + 1"
    "pq_peeked (prev_queue_enqueue ?q (Pkt a)) = pq_peeked q"
    by (simp_all add: prev_queue_enqueue_def pq_xchg_def pq_link_def)
  ultimately show ?thesis
    using assms ns by (auto simp: wg_prev_queue_enqueue_def pq_rep_def intro!: exI [of _ "ns @ [Pkt a]"])
qed

interpretation pq: fifo pq_rep wg_prev_queue_enqueue wg_prev_queue_peek wg_prev_queue_drop_peeked MAX_QUEUED_PACKETS
proof (unfold_locales, goal_cases)
  case (1 q pk xs a)
  then show ?case by (rule pq_rep_enqueue)
next
  case (2 q pk xs a)
  then show ?case by (auto simp: wg_prev_queue_enqueue_def pq_rep_def)
next
  case (3 q x xs)
  then show ?case by (simp add: wg_prev_queue_peek_def pq_rep_def)
next
  case (4 q)
  then show ?case using dequeue_content(1) by (auto simp: wg_prev_queue_peek_def pq_rep_def)
next
  case (5 q x xs)
  then obtain ns where ns: "chain q {} ns" "pkts ns = x # xs" by (auto simp: pq_rep_def)
  obtain q' ms where q': "wg_prev_queue_dequeue q = (Some (Pkt x), q')" "chain q' {} ms" "pkts ms = xs"
    "pq_count q' = pq_count q - 1" using dequeue_content(2) [OF ns] by blast
  have "chain (q'\<lparr>pq_peeked := Some x\<rparr>) {} ms" by (rule chain_cong [OF q'(2)]) simp_all
  then show ?case using 5 q' by (auto simp: wg_prev_queue_peek_def pq_rep_def skb_of_def)
next
  case (6 q pk xs)
  then obtain ns where ns: "chain q {} ns" "pkts ns = xs" by (auto simp: pq_rep_def)
  have "chain (wg_prev_queue_drop_peeked q) {} ns"
    by (rule chain_cong [OF ns(1)]) (simp_all add: wg_prev_queue_drop_peeked_def)
  then show ?case using 6 ns by (auto simp: pq_rep_def wg_prev_queue_drop_peeked_def)
qed

lemma pq_rep_init: "pq_rep (wg_prev_queue_init q) None []"
  by (auto simp: pq_rep_def wg_prev_queue_init_def chain_def intro!: exI [of _ "[Stub]"])


text \<open>The function is what the consumer's steps do when nobody interferes.\<close>

lemma pq_reach_step:
  assumes "pq_reach d e" "pq_step c d"
  shows "pq_reach c e"
  using assms
proof (induction rule: pq_reach.induct)
  case (here d)
  then show ?case using pq_reach.more [OF pq_reach.here] by simp
next
  case (more d e f)
  then show ?case using pq_reach.more by blast
qed

lemma dequeue_tail_steps:
  assumes "qc_pc c = CNext t (pq_next (qc_queue c) t)"
  shows "\<exists>d. pq_reach c d \<and> pq_result c (dequeue_tail (qc_queue c) t (pq_next (qc_queue c) t)) d"
proof (cases "pq_next (qc_queue c) t")
  case (Some n)
  then have "pq_step c (pq_return c t n)" using assms deq_take by simp
  then show ?thesis
    using Some by (intro exI [of _ "pq_return c t n"]) (auto intro: pq_reach_step pq_reach.here
        simp: pq_result_def pq_return_def dequeue_tail_def)
next
  case None
  show ?thesis
  proof (cases "t = pq_head (qc_queue c)")
    case False
    then have "pq_step c (c\<lparr>qc_pc := CIdle\<rparr>)" using assms None deq_busy by simp
    then show ?thesis
      using None False by (intro exI [of _ "c\<lparr>qc_pc := CIdle\<rparr>"]) (auto intro: pq_reach_step pq_reach.here
          simp: pq_result_def dequeue_tail_def)
  next
    case True
    define c1 where "c1 = c\<lparr>qc_pc := CAlone t\<rparr>"
    obtain prev q where x: "pq_xchg (qc_queue c) Stub = (prev, q)" by fastforce
    define c2 where "c2 = c1\<lparr>qc_queue := q, qc_pending := (prev, Stub) # qc_pending c1, qc_pc := CXchg t prev\<rparr>"
    define c3 where "c3 = c2\<lparr>qc_queue := pq_link prev Stub (qc_queue c2),
        qc_pending := removeAll (prev, Stub) (qc_pending c2), qc_pc := CLinked t\<rparr>"
    have s: "pq_step c c1" "pq_step c1 c2" "pq_step c2 c3"
      using assms None True x deq_alone [of c t] deq_stub [of c1 t prev q] deq_stub_link [of c2 t prev]
      by (auto simp: c1_def c2_def c3_def)
    have q3: "qc_queue c3 = prev_queue_enqueue (qc_queue c) Stub" "qc_pc c3 = CLinked t"
      "qc_in c3 = qc_in c" "qc_out c3 = qc_out c"
      by (simp_all add: c3_def c2_def c1_def prev_queue_enqueue_def x)
    have d: "dequeue_tail (qc_queue c) t (pq_next (qc_queue c) t) =
      (case pq_next (qc_queue c3) t of Some n \<Rightarrow> (Some t, pq_advance (qc_queue c3) n) | None \<Rightarrow> (None, qc_queue c3))"
      using None True unfolding q3(1) by (simp add: dequeue_tail_def Let_def cong: option.case_cong)
    show ?thesis
    proof (cases "pq_next (qc_queue c3) t")
      case (Some n)
      then have "pq_step c3 (pq_return c3 t n)" using q3 deq_last by simp
      then have "pq_reach c (pq_return c3 t n)" using s pq_reach_step pq_reach.here by metis
      then show ?thesis unfolding d using Some q3
        by (intro exI [of _ "pq_return c3 t n"]) (simp add: pq_result_def pq_return_def)
    next
      case n: None
      then have "pq_step c3 (c3\<lparr>qc_pc := CIdle\<rparr>)" using q3 deq_fail by simp
      then have "pq_reach c (c3\<lparr>qc_pc := CIdle\<rparr>)" using s pq_reach_step pq_reach.here by metis
      then show ?thesis unfolding d using n q3
        by (intro exI [of _ "c3\<lparr>qc_pc := CIdle\<rparr>"]) (simp add: pq_result_def)
    qed
  qed
qed

lemma dequeue_steps:
  assumes "qc_pc c = CIdle"
  shows "\<exists>d. pq_reach c d \<and> pq_result c (wg_prev_queue_dequeue (qc_queue c)) d"
proof (cases "pq_tail (qc_queue c) = Stub")
  case False
  let ?c = "c\<lparr>qc_pc := CNext (pq_tail (qc_queue c)) (pq_next (qc_queue c) (pq_tail (qc_queue c)))\<rparr>"
  have s: "pq_step c ?c" using deq_read [OF assms refl False] .
  obtain d where "pq_reach ?c d"
    "pq_result ?c (dequeue_tail (qc_queue c) (pq_tail (qc_queue c)) (pq_next (qc_queue c) (pq_tail (qc_queue c)))) d"
    using dequeue_tail_steps [of ?c "pq_tail (qc_queue c)"] by auto
  then show ?thesis using s False pq_reach_step
    by (intro exI [of _ d]) (auto simp: pq_result_def wg_prev_queue_dequeue_def Let_def)
next
  case True
  show ?thesis
  proof (cases "pq_next (qc_queue c) Stub")
    case None
    then show ?thesis using True assms pq_reach.here
      by (intro exI [of _ c]) (simp add: pq_result_def wg_prev_queue_dequeue_def)
  next
    case (Some t)
    let ?q = "(qc_queue c)\<lparr>pq_tail := t\<rparr>"
    let ?c1 = "c\<lparr>qc_queue := ?q, qc_pc := CPassed t\<rparr>"
    let ?c2 = "c\<lparr>qc_queue := ?q, qc_pc := CNext t (pq_next ?q t)\<rparr>"
    have s: "pq_step c ?c1" "pq_step ?c1 ?c2"
      using deq_pass [OF assms True Some] deq_passed [of ?c1 t] by simp_all
    obtain d where d: "pq_reach ?c2 d" "pq_result ?c2 (dequeue_tail ?q t (pq_next ?q t)) d"
      using dequeue_tail_steps [of ?c2 t] by auto
    then have "pq_reach c d" using s pq_reach_step by blast
    then show ?thesis using d(2) True Some
      by (intro exI [of _ d]) (auto simp: pq_result_def wg_prev_queue_dequeue_def Let_def)
  qed
qed

section \<open>CPUs\<close>

lemma find_filter: "find P xs = (case filter P xs of [] \<Rightarrow> None | x # _ \<Rightarrow> Some x)"
  by (induction xs) auto

lemma filter_greater_sorted:
  "sorted_wrt (<) xs \<Longrightarrow> i < length xs \<Longrightarrow> filter (\<lambda>x. xs ! i < x) xs = drop (Suc i) (xs :: nat list)"
proof (induction xs arbitrary: i)
  case (Cons x xs)
  show ?case
  proof (cases i)
    case 0
    then show ?thesis using Cons.prems(1) by (simp add: filter_id_conv)
  next
    case (Suc j)
    then have "xs ! j \<in> set xs" using Cons.prems(2) by simp
    then have "x < xs ! j" using Cons.prems(1) by simp
    then have "\<not> xs ! j < x" by simp
    then show ?thesis using Cons Suc by simp
  qed
qed simp

lemma upt_filter: "[Suc k..<n] = filter (\<lambda>i. k < i) [0..<n]"
  by (induction n) auto

lemma cpumask_next_online:
  "cpumask_next (int k) msk = (case filter (\<lambda>i. k < i) (online_cpus msk) of [] \<Rightarrow> length msk | i # _ \<Rightarrow> i)"
  "cpumask_first msk = (case online_cpus msk of [] \<Rightarrow> length msk | i # _ \<Rightarrow> i)"
proof -
  have "nat (int k + 1) = Suc k" by simp
  then show "cpumask_next (int k) msk = (case filter (\<lambda>i. k < i) (online_cpus msk) of [] \<Rightarrow> length msk | i # _ \<Rightarrow> i)"
    unfolding cpumask_next_def find_filter online_cpus_def
    by (simp add: upt_filter conj_commute split: list.split)
qed (simp add: cpumask_first_def cpumask_next_def find_filter online_cpus_def split: list.split)

lemma cpumask_nth_online:
  "j + n < length (online_cpus msk) \<Longrightarrow> cpumask_nth n (online_cpus msk ! j) msk = online_cpus msk ! (j + n)"
proof (induction n arbitrary: j)
  case (Suc n)
  have "sorted_wrt (<) (online_cpus msk)" unfolding online_cpus_def by (intro sorted_wrt_filter) simp
  then have "cpumask_next (int (online_cpus msk ! j)) msk = online_cpus msk ! Suc j"
    using Suc.prems by (simp add: cpumask_next_online(1) filter_greater_sorted Cons_nth_drop_Suc [symmetric])
  then show ?case using Suc.IH [of "Suc j"] Suc.prems by simp
qed simp

lemma weight_online: "cpumask_weight msk = length (online_cpus msk)"
proof -
  have "filter id msk = map ((!) msk) (online_cpus msk)"
    unfolding online_cpus_def filter_map [unfolded comp_def, symmetric] map_nth
    by (metis (no_types, lifting) comp_apply filter_cong filter_map id_apply map_nth)
  then show ?thesis by (simp add: cpumask_weight_def)
qed

text \<open>Work is always queued on a CPU that is online, as long as there is one.\<close>

lemma chosen_cpu_online:
  assumes "online_cpus online \<noteq> []"
  shows "wg_cpumask_choose_online online stored ident \<in> set (online_cpus online)"
    and "wg_cpumask_next_online online last_cpu \<in> set (online_cpus online)"
proof -
  let ?L = "online_cpus online"
  have f: "cpumask_first online = ?L ! 0" using assms by (cases ?L) (simp_all add: cpumask_next_online(2))
  have "ident mod cpumask_weight online < length ?L" using assms by (simp add: weight_online)
  then have "cpumask_nth (ident mod cpumask_weight online) (cpumask_first online) online \<in> set ?L"
    using cpumask_nth_online [of 0] f by simp
  then show "wg_cpumask_choose_online online stored ident \<in> set ?L"
    by (auto simp: wg_cpumask_choose_online_def cpumask_test_cpu_def online_cpus_def)
  have "cpumask_next last_cpu online < length online \<Longrightarrow> cpumask_next last_cpu online \<in> set ?L"
  proof (cases "find (\<lambda>i. online ! i) [nat (last_cpu + 1)..<length online]")
    case (Some i)
    then have "online ! i" "i < length online" by (auto simp: find_Some_iff)
    then show ?thesis using Some by (simp add: cpumask_next_def online_cpus_def)
  qed (simp add: cpumask_next_def)
  then show "wg_cpumask_next_online online last_cpu \<in> set ?L"
    using f assms by (auto simp: wg_cpumask_next_online_def Let_def not_le)
qed


section \<open>Properties\<close>

text \<open>
  C19. The lock-free queue is a FIFO for every interleaving of the producers' and the
  consumer's memory accesses: in every reachable state the packets taken out so far,
  followed by the packets still queued, are the packets in the order in which the
  producers exchanged the head, so that none is lost, duplicated or reordered. The counter
  bounds the queue: the packets inside and the producers about to enter are at most
  MAX_QUEUED_PACKETS. Once no producer is in the middle of an enqueue, an idle consumer
  gets the oldest packet, and nothing only if the queue is empty.
\<close>

theorem prev_queue_fifo:
  assumes "pq_reach (pq_start q) c"
  shows "\<exists>queued. qc_in c = qc_out c @ queued \<and>
    length queued + qc_reserved c = pq_count (qc_queue c) \<and> pq_count (qc_queue c) \<le> MAX_QUEUED_PACKETS \<and>
    (qc_pending c = [] \<longrightarrow>
      fst (wg_prev_queue_dequeue (qc_queue c)) = (case queued of [] \<Rightarrow> None | a # _ \<Rightarrow> Some (Pkt a)))"
proof -
  obtain ns where "conf_ok c ns" using pq_reach_ok [OF assms pq_start_ok] by blast
  note c = conf_okD [OF this]
  have "fst (wg_prev_queue_dequeue (qc_queue c)) = (case pkts ns of [] \<Rightarrow> None | a # _ \<Rightarrow> Some (Pkt a))"
    if "qc_pending c = []"
  proof (cases "pkts ns")
    case Nil
    then show ?thesis using dequeue_content(1) [of "qc_queue c" ns] c(1) that by simp
  next
    case (Cons a xs)
    then show ?thesis using dequeue_content(2) [of "qc_queue c" ns a xs] c(1) that by auto
  qed
  then show ?thesis using c by (intro exI [of _ "pkts ns"]) simp
qed

theorem prev_queue_fifo_witness:
  "\<exists>c queued. pq_reach (pq_start zero_queue) c \<and> qc_in c = [7] \<and> qc_pending c \<noteq> [] \<and>
     qc_in c = qc_out c @ queued \<and> length queued + qc_reserved c = pq_count (qc_queue c)"
proof -
  let ?c0 = "pq_start zero_queue"
  let ?c1 = "?c0\<lparr>qc_queue := (qc_queue ?c0)\<lparr>pq_count := pq_count (qc_queue ?c0) + 1\<rparr>,
      qc_reserved := qc_reserved ?c0 + 1\<rparr>"
  obtain prev q where x: "pq_xchg (qc_queue ?c1) (Pkt 7) = (prev, q)" by fastforce
  let ?c2 = "?c1\<lparr>qc_queue := q, qc_reserved := qc_reserved ?c1 - 1,
      qc_pending := (prev, Pkt 7) # qc_pending ?c1, qc_in := qc_in ?c1 @ [7]\<rparr>"
  have "pq_step ?c0 ?c1"
    by (rule reserve) (simp add: zero_queue_def pq_start_def wg_prev_queue_init_def MAX_QUEUED_PACKETS_def)
  moreover have "pq_step ?c1 ?c2"
    by (rule xchg [OF _ _ x]) (simp_all add: pq_start_def)
  ultimately have r: "pq_reach ?c0 ?c2" using pq_reach.here pq_reach.more by blast
  show ?thesis using prev_queue_fifo [OF r] r by (intro exI [of _ ?c2]) (auto simp: pq_start_def)
qed

text \<open>
  C20. Between enqueues the queue behaves as a bounded list with one element held back by
  peek: an enqueue appends, or is refused when MAX_QUEUED_PACKETS packets wait; peek
  answers the held element or moves the oldest one there; dropping the held element leaves
  the rest.
\<close>

theorem prev_queue_refines_list:
  assumes "pq_rep q pk xs"
  shows "(if length xs < MAX_QUEUED_PACKETS
      then a \<notin> set xs \<longrightarrow> (\<exists>q'. wg_prev_queue_enqueue q a = (True, q') \<and> pq_rep q' pk (xs @ [a]))
      else wg_prev_queue_enqueue q a = (False, q)) \<and>
    fst (wg_prev_queue_peek q) = (case content pk xs of [] \<Rightarrow> None | x # _ \<Rightarrow> Some x) \<and>
    (\<exists>pk' xs'. pq_rep (snd (wg_prev_queue_peek q)) pk' xs' \<and> content pk' xs' = content pk xs) \<and>
    pq_rep (wg_prev_queue_drop_peeked q) None xs"
  using pq.enq_ok [OF assms, of a] pq.enq_full [OF assms, of a] pq.peek_content [OF assms] pq.drop_ok [OF assms]
  by (auto simp: not_less)

theorem prev_queue_refines_list_witness:
  "\<exists>q'. wg_prev_queue_enqueue (wg_prev_queue_init zero_queue) 3 = (True, q') \<and> pq_rep q' None [3]"
  using prev_queue_refines_list [OF pq_rep_init [of zero_queue], of 3] by (simp add: MAX_QUEUED_PACKETS_def)

end
