(* ===== verification/WG_State.thy ===== *)
theory WG_State
  imports WG_Counter WG_AllowedIPs WG_Ratelimiter WG_Peerlookup WG_Queueing
begin

unbundle bit_operations_syntax

text \<open>
  The structures of \<^verbatim>\<open>noise.h\<close>, \<^verbatim>\<open>cookie.h\<close>, \<^verbatim>\<open>queueing.h\<close>, \<^verbatim>\<open>peer.h\<close> and \<^verbatim>\<open>device.h\<close>, and
  what the kernel gives to a call. One record \<open>wg_device\<close> holds an interface together with the
  objects reachable from it: peers and their reference counts, keypairs, AEAD transforms
  and packets in flight are maps from addresses, so that sharing and freeing are visible.
  What the driver hands to the rest of the kernel (packets sent, packets received,
  counters) is recorded in the same state.

  Locks do not appear: an operation is a function of the state. Where the code drops a lock
  in the middle of an operation, the component's theory says how that is modelled.
\<close>

section \<open>What the kernel provides\<close>

text \<open>
  The cryptographic library. \<^verbatim>\<open>curve25519\<close> and \<^verbatim>\<open>curve25519_generate_public\<close> report failure
  (an all-zero result) by \<open>None\<close>, the decryption functions report a bad tag.
\<close>

record crypto =
  blake2s :: "nat \<Rightarrow> bytes \<Rightarrow> bytes \<Rightarrow> bytes"
  curve25519 :: "bytes \<Rightarrow> bytes \<Rightarrow> bytes option"
  curve25519_generate_public :: "bytes \<Rightarrow> bytes option"
  curve25519_clamp_secret :: "bytes \<Rightarrow> bytes"
  chacha20poly1305_encrypt :: "bytes \<Rightarrow> u64 \<Rightarrow> bytes \<Rightarrow> bytes \<Rightarrow> bytes"
  chacha20poly1305_decrypt :: "bytes \<Rightarrow> u64 \<Rightarrow> bytes \<Rightarrow> bytes \<Rightarrow> bytes option"
  xchacha20poly1305_encrypt :: "bytes \<Rightarrow> bytes \<Rightarrow> bytes \<Rightarrow> bytes \<Rightarrow> bytes"
  xchacha20poly1305_decrypt :: "bytes \<Rightarrow> bytes \<Rightarrow> bytes \<Rightarrow> bytes \<Rightarrow> bytes option"
  aes_gcm_encrypt :: "bytes \<Rightarrow> bytes \<Rightarrow> bytes \<Rightarrow> bytes \<Rightarrow> bytes option"
  aes_gcm_decrypt :: "bytes \<Rightarrow> bytes \<Rightarrow> bytes \<Rightarrow> bytes \<Rightarrow> bytes option"
  siphash :: "bytes \<Rightarrow> bytes \<Rightarrow> u64"
  hsip :: "bytes hsiphash"

text \<open>Results of routing: a route has the interface it leaves through.\<close>

record rtable =
  rt_id :: nat
  rt_ifindex :: u32

record flow =
  fl_saddr :: bytes
  fl_daddr :: bytes
  fl_sport :: u16
  fl_dport :: u16
  fl_mark :: u32
  fl_oif :: u32

text \<open>A UDP socket and the port it is bound to, in network order.\<close>

record sock =
  so_id :: addr
  so_sport :: u16

text \<open>
  The configuration, the clocks, and the results of the random generator and of the
  allocators that one call sees. All clock reads of a call give the same value, as the
  coarse clocks do within a tick.
\<close>

record env = crypto +
  e_HZ :: nat
  e_NET_SKB_PAD :: nat
  e_online :: "bool list"
  e_boottime :: u64
  e_jiffies :: u64
  e_realtime :: "u64 \<times> u64"
  e_jitter :: nat
  e_ephemeral :: bytes
  e_attempts :: "index_attempt list"
  e_keypair_mem :: "addr option"
  e_aead_enc :: "addr option"
  e_aead_dec :: "addr option"
  e_setkey_enc :: bool
  e_setkey_dec :: bool
  e_cookie_secret :: bytes
  e_cookie_nonce :: bytes
  e_skb_mem :: "peer_id \<Rightarrow> addr option"
  e_rl_mem :: bool
  e_net :: u64
  e_saddr_ok :: "bytes \<Rightarrow> bool"
  e_route :: "flow \<Rightarrow> errno + rtable"
  e_cache_valid :: bool
  \<comment> \<open>sockets\<close>
  e_udp4 :: "nat \<Rightarrow> errno + sock"
  e_udp6 :: "nat \<Rightarrow> errno + sock"
  e_ipv6 :: bool
  \<comment> \<open>packet buffers: allocation and the helpers of the network stack\<close>
  e_reply_mem :: bool
  e_cow_ok :: "addr \<Rightarrow> bool"
  e_head_ok :: "addr \<Rightarrow> bool"
  e_trim_ok :: bool
  e_pull_ok :: bool
  e_csum :: "bytes \<Rightarrow> bytes option"
  e_skb_hash :: "bytes \<Rightarrow> u32"
  e_parse_protocol :: "bytes \<Rightarrow> u16"
  e_scope_id :: "bytes \<Rightarrow> u32 \<Rightarrow> u32"
  e_ecn_encap :: "u16 \<Rightarrow> bytes \<Rightarrow> u8"
  e_ecn_decap :: "u8 \<Rightarrow> bytes \<Rightarrow> bytes"
  e_dsfield :: "u16 \<Rightarrow> bytes \<Rightarrow> u8"
  e_rng_ready :: bool
  e_trylock :: bool
  \<comment> \<open>configuration\<close>
  e_peer_mem :: "peer_id option"
  e_dst_cache_ok :: bool
  e_capable :: bool

section \<open>Sessions and handshakes\<close>

record noise_symmetric_key =
  sk_key :: bytes
  sk_birthdate :: u64
  sk_is_valid :: bool

text \<open>The member \<^verbatim>\<open>entry\<close> of a keypair or handshake lives in the index table.\<close>

record noise_keypair =
  kp_sending :: noise_symmetric_key
  kp_sending_counter :: u64
  kp_receiving :: noise_symmetric_key
  kp_receiving_counter :: noise_replay_counter
  kp_remote_index :: u32
  kp_i_am_the_initiator :: bool
  kp_refcount :: nat
  kp_internal_id :: u64
  kp_aead_enc :: "addr option"
  kp_aead_dec :: "addr option"

record noise_keypairs =
  current_keypair :: "addr option"
  previous_keypair :: "addr option"
  next_keypair :: "addr option"

record noise_static_identity =
  si_public :: bytes
  si_private :: bytes
  si_has_identity :: bool

datatype noise_handshake_state =
    HANDSHAKE_ZEROED
  | HANDSHAKE_CREATED_INITIATION
  | HANDSHAKE_CONSUMED_INITIATION
  | HANDSHAKE_CREATED_RESPONSE
  | HANDSHAKE_CONSUMED_RESPONSE

record noise_handshake =
  hs_state :: noise_handshake_state
  hs_last_initiation_consumption :: u64
  hs_ephemeral_private :: bytes
  hs_remote_static :: bytes
  hs_remote_ephemeral :: bytes
  hs_precomputed_static_static :: bytes
  hs_preshared_key :: bytes
  hs_hash :: bytes
  hs_chaining_key :: bytes
  hs_latest_timestamp :: bytes
  hs_remote_index :: u32

section \<open>Cookies\<close>

record cookie_checker =
  ck_secret :: bytes
  ck_cookie_encryption_key :: bytes
  ck_message_mac1_key :: bytes
  ck_secret_birthdate :: u64

record cookie =
  co_birthdate :: u64
  co_is_valid :: bool
  co_cookie :: bytes
  co_have_sent_mac1 :: bool
  co_last_mac1_sent :: bytes
  co_cookie_decryption_key :: bytes
  co_message_mac1_key :: bytes

datatype cookie_mac_state =
    INVALID_MAC
  | VALID_MAC_BUT_NO_COOKIE
  | VALID_MAC_WITH_COOKIE_BUT_RATELIMITED
  | VALID_MAC_WITH_COOKIE

section \<open>Packets\<close>

datatype packet_state = PACKET_STATE_UNCRYPTED | PACKET_STATE_CRYPTED | PACKET_STATE_DEAD

text \<open>
  A socket buffer: its memory from \<^verbatim>\<open>head\<close> to the tail, the offsets of the data and of the
  headers in it, and the control block \<^verbatim>\<open>struct packet_cb\<close>.
\<close>

record packet =
  pk_addr :: addr
  pk_buf :: bytes
  pk_data :: nat
  pk_network_header :: nat
  pk_transport_header :: nat
  pk_protocol :: u16
  pk_iif :: u32
  pk_mark :: u32
  pk_hash :: u32
  pk_csum_partial :: bool
  pk_csum_unnecessary :: bool
  cb_nonce :: u64
  cb_keypair :: "addr option"
  cb_state :: packet_state
  cb_mtu :: u32
  cb_ds :: u8

section \<open>Peers\<close>

text \<open>
  The first union of \<^verbatim>\<open>struct endpoint\<close> is told apart by the address family. The second one
  has no tag: it is the sixteen bytes of \<^verbatim>\<open>src6\<close>, the first eight of which are \<^verbatim>\<open>src4\<close> and
  \<^verbatim>\<open>src_if4\<close>.
\<close>

datatype sockaddr =
    AddrNone
  | Addr4 (sin_port: u16) (sin_addr: bytes)
  | Addr6 (sin6_port: u16) (sin6_addr: bytes) (sin6_scope_id: u32)

record endpoint =
  ep_addr :: sockaddr
  ep_src :: bytes

type_synonym timer = "u64 option"

record wg_peer =
  pe_tx_queue :: prev_queue
  pe_rx_queue :: prev_queue
  pe_staged_packet_queue :: "packet list"
  pe_serial_work_cpu :: nat
  pe_is_dead :: bool
  pe_keypairs :: noise_keypairs
  pe_endpoint :: endpoint
  pe_endpoint_cache :: "(rtable \<times> bytes) option"
  pe_handshake :: noise_handshake
  pe_last_sent_handshake :: u64
  pe_transmit_handshake_work :: bool
  pe_clear_peer_work :: bool
  pe_transmit_packet_work :: bool
  pe_latest_cookie :: cookie
  pe_rx_bytes :: u64
  pe_tx_bytes :: u64
  pe_timer_retransmit_handshake :: timer
  pe_timer_send_keepalive :: timer
  pe_timer_new_handshake :: timer
  pe_timer_zero_key_material :: timer
  pe_timer_persistent_keepalive :: timer
  pe_timer_handshake_attempts :: u32
  pe_persistent_keepalive_interval :: u16
  pe_timer_need_another_keepalive :: bool
  pe_sent_lastminute_handshake :: bool
  pe_walltime_last_handshake :: "u64 \<times> u64"
  pe_napi_scheduled :: bool
  pe_napi_enabled :: bool
  pe_internal_id :: u64

section \<open>The interface\<close>

text \<open>A packet given to the UDP tunnel: addresses, ports, traffic class and payload.\<close>

record transmission =
  tx_flow :: flow
  tx_ds :: u8
  tx_payload :: bytes

record wg_device =
  dv_running :: bool
  dv_mtu :: u32
  dv_encrypt_queue :: "addr crypt_queue"
  dv_decrypt_queue :: "addr crypt_queue"
  dv_handshake_queue :: "packet crypt_queue"
  dv_sock4 :: "sock option"
  dv_sock6 :: "sock option"
  dv_open_socks :: "addr list"
  dv_creating_net :: "nat option"
  dv_static_identity :: noise_static_identity
  dv_cookie_checker :: cookie_checker
  dv_peer_hashtable :: "bytes pubkey_hashtable"
  dv_index_hashtable :: index_hashtable
  dv_peer_allowedips :: allowedips
  dv_peer_list :: "peer_id list"
  dv_handshake_queue_len :: int
  dv_num_peers :: nat
  dv_device_update_gen :: u32
  dv_fwmark :: u32
  dv_incoming_port :: u16
  dv_aes_cpu :: "nat list option"
  dv_is_chacha :: bool
  \<comment> \<open>objects reachable from the interface\<close>
  dv_peers :: "peer_id \<Rightarrow> wg_peer"
  dv_refs :: refcounts
  dv_rcu_peers :: "peer_id list"
  dv_keypairs :: "addr \<rightharpoonup> noise_keypair"
  dv_rcu_keypairs :: "addr list"
  dv_aeads :: "addr \<rightharpoonup> bytes"
  dv_inflight :: "addr \<rightharpoonup> packet list"
  \<comment> \<open>static variables of the module\<close>
  dv_keypair_counter :: u64
  dv_peer_counter :: u64
  dv_last_under_load :: u64
  dv_ratelimiter :: "bytes ratelimiter"
  \<comment> \<open>what the rest of the kernel got\<close>
  dv_sent :: "transmission list"
  dv_delivered :: "(peer_id \<times> packet) list"
  dv_rx_packets :: nat
  dv_rx_bytes :: nat
  dv_rx_errors :: nat
  dv_rx_frame_errors :: nat
  dv_rx_length_errors :: nat
  dv_tx_dropped :: nat
  dv_tx_errors :: nat

section \<open>Access\<close>

definition upd_peer :: "peer_id \<Rightarrow> (wg_peer \<Rightarrow> wg_peer) \<Rightarrow> wg_device \<Rightarrow> wg_device" where
  "upd_peer p f wg = wg\<lparr>dv_peers := (dv_peers wg)(p := f (dv_peers wg p))\<rparr>"

definition upd_handshake :: "peer_id \<Rightarrow> (noise_handshake \<Rightarrow> noise_handshake) \<Rightarrow> wg_device \<Rightarrow> wg_device" where
  "upd_handshake p f = upd_peer p (\<lambda>q. q\<lparr>pe_handshake := f (pe_handshake q)\<rparr>)"

definition upd_slots :: "peer_id \<Rightarrow> (noise_keypairs \<Rightarrow> noise_keypairs) \<Rightarrow> wg_device \<Rightarrow> wg_device" where
  "upd_slots p f = upd_peer p (\<lambda>q. q\<lparr>pe_keypairs := f (pe_keypairs q)\<rparr>)"

definition keypair_at :: "wg_device \<Rightarrow> addr \<Rightarrow> noise_keypair" where
  "keypair_at wg k = the (dv_keypairs wg k)"

definition upd_keypair :: "addr \<Rightarrow> (noise_keypair \<Rightarrow> noise_keypair) \<Rightarrow> wg_device \<Rightarrow> wg_device" where
  "upd_keypair k f wg = wg\<lparr>dv_keypairs := (dv_keypairs wg)(k \<mapsto> f (keypair_at wg k))\<rparr>"

definition handshake_of :: "wg_device \<Rightarrow> peer_id \<Rightarrow> noise_handshake" where
  "handshake_of wg p = pe_handshake (dv_peers wg p)"

definition remote_static_of :: "wg_device \<Rightarrow> peer_id \<Rightarrow> bytes" where
  "remote_static_of wg p = hs_remote_static (handshake_of wg p)"

text \<open>The bytes of a packet from \<^verbatim>\<open>skb->data\<close> on, and the view of its network header.\<close>

definition pk_bytes :: "packet \<Rightarrow> bytes" where
  "pk_bytes p = drop (pk_data p) (pk_buf p)"

definition pk_len :: "packet \<Rightarrow> nat" where
  "pk_len p = length (pk_buf p) - pk_data p"

definition pk_view :: "packet \<Rightarrow> sk_buff" where
  "pk_view p = \<lparr>protocol = pk_protocol p, network = drop (pk_network_header p) (pk_buf p)\<rparr>"

text \<open>\<^verbatim>\<open>udp_hdr(skb)->source\<close>, as the two bytes in the packet.\<close>

definition udp_source :: "packet \<Rightarrow> bytes" where
  "udp_source p = take 2 (drop (pk_transport_header p) (pk_buf p))"

section \<open>Time\<close>

definition wg_birthdate_has_expired :: "('a env_scheme) \<Rightarrow> u64 \<Rightarrow> u64 \<Rightarrow> bool" where
  "wg_birthdate_has_expired env birthday_nanoseconds expiration_seconds \<longleftrightarrow>
     sint (birthday_nanoseconds + expiration_seconds * NSEC_PER_SEC) \<le> sint (e_boottime env)"

section \<open>Giving references back\<close>

definition wg_packet_purge_staged_packets :: "peer_id \<Rightarrow> wg_device \<Rightarrow> wg_device" where
  "wg_packet_purge_staged_packets p wg =
     (let n = length (pe_staged_packet_queue (dv_peers wg p));
          wg = wg\<lparr>dv_tx_dropped := dv_tx_dropped wg + n\<rparr>
      in upd_peer p (\<lambda>q. q\<lparr>pe_staged_packet_queue := []\<rparr>) wg)"

definition kref_release :: "peer_id \<Rightarrow> wg_device \<Rightarrow> wg_device" where
  "kref_release p wg =
     (let wg = wg\<lparr>dv_index_hashtable :=
            wg_index_hashtable_remove (dv_index_hashtable wg) (HandshakeEntry p)\<rparr>;
          wg = wg_packet_purge_staged_packets p wg
      in wg\<lparr>dv_rcu_peers := p # dv_rcu_peers wg\<rparr>)"

definition wg_peer_put :: "peer_id option \<Rightarrow> wg_device \<Rightarrow> wg_device" where
  "wg_peer_put popt wg =
     (case popt of
        None \<Rightarrow> wg
      | Some p \<Rightarrow>
          let wg = wg\<lparr>dv_refs := (dv_refs wg)(p := dv_refs wg p - 1)\<rparr>
          in if dv_refs wg p = 0 then kref_release p wg else wg)"

section \<open>Lemmas\<close>

lemma upd_peer_other [simp]:
  "dv_running (upd_peer p f wg) = dv_running wg"
  "dv_mtu (upd_peer p f wg) = dv_mtu wg"
  "dv_encrypt_queue (upd_peer p f wg) = dv_encrypt_queue wg"
  "dv_decrypt_queue (upd_peer p f wg) = dv_decrypt_queue wg"
  "dv_handshake_queue (upd_peer p f wg) = dv_handshake_queue wg"
  "dv_sock4 (upd_peer p f wg) = dv_sock4 wg"
  "dv_sock6 (upd_peer p f wg) = dv_sock6 wg"
  "dv_open_socks (upd_peer p f wg) = dv_open_socks wg"
  "dv_creating_net (upd_peer p f wg) = dv_creating_net wg"
  "dv_static_identity (upd_peer p f wg) = dv_static_identity wg"
  "dv_cookie_checker (upd_peer p f wg) = dv_cookie_checker wg"
  "dv_peer_hashtable (upd_peer p f wg) = dv_peer_hashtable wg"
  "dv_index_hashtable (upd_peer p f wg) = dv_index_hashtable wg"
  "dv_peer_allowedips (upd_peer p f wg) = dv_peer_allowedips wg"
  "dv_peer_list (upd_peer p f wg) = dv_peer_list wg"
  "dv_handshake_queue_len (upd_peer p f wg) = dv_handshake_queue_len wg"
  "dv_num_peers (upd_peer p f wg) = dv_num_peers wg"
  "dv_device_update_gen (upd_peer p f wg) = dv_device_update_gen wg"
  "dv_fwmark (upd_peer p f wg) = dv_fwmark wg"
  "dv_incoming_port (upd_peer p f wg) = dv_incoming_port wg"
  "dv_aes_cpu (upd_peer p f wg) = dv_aes_cpu wg"
  "dv_is_chacha (upd_peer p f wg) = dv_is_chacha wg"
  "dv_refs (upd_peer p f wg) = dv_refs wg"
  "dv_rcu_peers (upd_peer p f wg) = dv_rcu_peers wg"
  "dv_keypairs (upd_peer p f wg) = dv_keypairs wg"
  "dv_rcu_keypairs (upd_peer p f wg) = dv_rcu_keypairs wg"
  "dv_aeads (upd_peer p f wg) = dv_aeads wg"
  "dv_inflight (upd_peer p f wg) = dv_inflight wg"
  "dv_keypair_counter (upd_peer p f wg) = dv_keypair_counter wg"
  "dv_peer_counter (upd_peer p f wg) = dv_peer_counter wg"
  "dv_last_under_load (upd_peer p f wg) = dv_last_under_load wg"
  "dv_ratelimiter (upd_peer p f wg) = dv_ratelimiter wg"
  "dv_sent (upd_peer p f wg) = dv_sent wg"
  "dv_delivered (upd_peer p f wg) = dv_delivered wg"
  "dv_rx_packets (upd_peer p f wg) = dv_rx_packets wg"
  "dv_rx_bytes (upd_peer p f wg) = dv_rx_bytes wg"
  "dv_rx_errors (upd_peer p f wg) = dv_rx_errors wg"
  "dv_rx_frame_errors (upd_peer p f wg) = dv_rx_frame_errors wg"
  "dv_rx_length_errors (upd_peer p f wg) = dv_rx_length_errors wg"
  "dv_tx_dropped (upd_peer p f wg) = dv_tx_dropped wg"
  "dv_tx_errors (upd_peer p f wg) = dv_tx_errors wg"
  by (simp_all add: upd_peer_def)

lemma upd_handshake_other [simp]:
  "dv_running (upd_handshake p g wg) = dv_running wg"
  "dv_mtu (upd_handshake p g wg) = dv_mtu wg"
  "dv_encrypt_queue (upd_handshake p g wg) = dv_encrypt_queue wg"
  "dv_decrypt_queue (upd_handshake p g wg) = dv_decrypt_queue wg"
  "dv_handshake_queue (upd_handshake p g wg) = dv_handshake_queue wg"
  "dv_sock4 (upd_handshake p g wg) = dv_sock4 wg"
  "dv_sock6 (upd_handshake p g wg) = dv_sock6 wg"
  "dv_open_socks (upd_handshake p g wg) = dv_open_socks wg"
  "dv_creating_net (upd_handshake p g wg) = dv_creating_net wg"
  "dv_static_identity (upd_handshake p g wg) = dv_static_identity wg"
  "dv_cookie_checker (upd_handshake p g wg) = dv_cookie_checker wg"
  "dv_peer_hashtable (upd_handshake p g wg) = dv_peer_hashtable wg"
  "dv_index_hashtable (upd_handshake p g wg) = dv_index_hashtable wg"
  "dv_peer_allowedips (upd_handshake p g wg) = dv_peer_allowedips wg"
  "dv_peer_list (upd_handshake p g wg) = dv_peer_list wg"
  "dv_handshake_queue_len (upd_handshake p g wg) = dv_handshake_queue_len wg"
  "dv_num_peers (upd_handshake p g wg) = dv_num_peers wg"
  "dv_device_update_gen (upd_handshake p g wg) = dv_device_update_gen wg"
  "dv_fwmark (upd_handshake p g wg) = dv_fwmark wg"
  "dv_incoming_port (upd_handshake p g wg) = dv_incoming_port wg"
  "dv_aes_cpu (upd_handshake p g wg) = dv_aes_cpu wg"
  "dv_is_chacha (upd_handshake p g wg) = dv_is_chacha wg"
  "dv_refs (upd_handshake p g wg) = dv_refs wg"
  "dv_rcu_peers (upd_handshake p g wg) = dv_rcu_peers wg"
  "dv_keypairs (upd_handshake p g wg) = dv_keypairs wg"
  "dv_rcu_keypairs (upd_handshake p g wg) = dv_rcu_keypairs wg"
  "dv_aeads (upd_handshake p g wg) = dv_aeads wg"
  "dv_inflight (upd_handshake p g wg) = dv_inflight wg"
  "dv_keypair_counter (upd_handshake p g wg) = dv_keypair_counter wg"
  "dv_peer_counter (upd_handshake p g wg) = dv_peer_counter wg"
  "dv_last_under_load (upd_handshake p g wg) = dv_last_under_load wg"
  "dv_ratelimiter (upd_handshake p g wg) = dv_ratelimiter wg"
  "dv_sent (upd_handshake p g wg) = dv_sent wg"
  "dv_delivered (upd_handshake p g wg) = dv_delivered wg"
  "dv_rx_packets (upd_handshake p g wg) = dv_rx_packets wg"
  "dv_rx_bytes (upd_handshake p g wg) = dv_rx_bytes wg"
  "dv_rx_errors (upd_handshake p g wg) = dv_rx_errors wg"
  "dv_rx_frame_errors (upd_handshake p g wg) = dv_rx_frame_errors wg"
  "dv_rx_length_errors (upd_handshake p g wg) = dv_rx_length_errors wg"
  "dv_tx_dropped (upd_handshake p g wg) = dv_tx_dropped wg"
  "dv_tx_errors (upd_handshake p g wg) = dv_tx_errors wg"
  by (simp_all add: upd_handshake_def)

lemma upd_slots_other [simp]:
  "dv_running (upd_slots p g wg) = dv_running wg"
  "dv_mtu (upd_slots p g wg) = dv_mtu wg"
  "dv_encrypt_queue (upd_slots p g wg) = dv_encrypt_queue wg"
  "dv_decrypt_queue (upd_slots p g wg) = dv_decrypt_queue wg"
  "dv_handshake_queue (upd_slots p g wg) = dv_handshake_queue wg"
  "dv_sock4 (upd_slots p g wg) = dv_sock4 wg"
  "dv_sock6 (upd_slots p g wg) = dv_sock6 wg"
  "dv_open_socks (upd_slots p g wg) = dv_open_socks wg"
  "dv_creating_net (upd_slots p g wg) = dv_creating_net wg"
  "dv_static_identity (upd_slots p g wg) = dv_static_identity wg"
  "dv_cookie_checker (upd_slots p g wg) = dv_cookie_checker wg"
  "dv_peer_hashtable (upd_slots p g wg) = dv_peer_hashtable wg"
  "dv_index_hashtable (upd_slots p g wg) = dv_index_hashtable wg"
  "dv_peer_allowedips (upd_slots p g wg) = dv_peer_allowedips wg"
  "dv_peer_list (upd_slots p g wg) = dv_peer_list wg"
  "dv_handshake_queue_len (upd_slots p g wg) = dv_handshake_queue_len wg"
  "dv_num_peers (upd_slots p g wg) = dv_num_peers wg"
  "dv_device_update_gen (upd_slots p g wg) = dv_device_update_gen wg"
  "dv_fwmark (upd_slots p g wg) = dv_fwmark wg"
  "dv_incoming_port (upd_slots p g wg) = dv_incoming_port wg"
  "dv_aes_cpu (upd_slots p g wg) = dv_aes_cpu wg"
  "dv_is_chacha (upd_slots p g wg) = dv_is_chacha wg"
  "dv_refs (upd_slots p g wg) = dv_refs wg"
  "dv_rcu_peers (upd_slots p g wg) = dv_rcu_peers wg"
  "dv_keypairs (upd_slots p g wg) = dv_keypairs wg"
  "dv_rcu_keypairs (upd_slots p g wg) = dv_rcu_keypairs wg"
  "dv_aeads (upd_slots p g wg) = dv_aeads wg"
  "dv_inflight (upd_slots p g wg) = dv_inflight wg"
  "dv_keypair_counter (upd_slots p g wg) = dv_keypair_counter wg"
  "dv_peer_counter (upd_slots p g wg) = dv_peer_counter wg"
  "dv_last_under_load (upd_slots p g wg) = dv_last_under_load wg"
  "dv_ratelimiter (upd_slots p g wg) = dv_ratelimiter wg"
  "dv_sent (upd_slots p g wg) = dv_sent wg"
  "dv_delivered (upd_slots p g wg) = dv_delivered wg"
  "dv_rx_packets (upd_slots p g wg) = dv_rx_packets wg"
  "dv_rx_bytes (upd_slots p g wg) = dv_rx_bytes wg"
  "dv_rx_errors (upd_slots p g wg) = dv_rx_errors wg"
  "dv_rx_frame_errors (upd_slots p g wg) = dv_rx_frame_errors wg"
  "dv_rx_length_errors (upd_slots p g wg) = dv_rx_length_errors wg"
  "dv_tx_dropped (upd_slots p g wg) = dv_tx_dropped wg"
  "dv_tx_errors (upd_slots p g wg) = dv_tx_errors wg"
  by (simp_all add: upd_slots_def)

lemma upd_keypair_other [simp]:
  "dv_running (upd_keypair k g wg) = dv_running wg"
  "dv_mtu (upd_keypair k g wg) = dv_mtu wg"
  "dv_encrypt_queue (upd_keypair k g wg) = dv_encrypt_queue wg"
  "dv_decrypt_queue (upd_keypair k g wg) = dv_decrypt_queue wg"
  "dv_handshake_queue (upd_keypair k g wg) = dv_handshake_queue wg"
  "dv_sock4 (upd_keypair k g wg) = dv_sock4 wg"
  "dv_sock6 (upd_keypair k g wg) = dv_sock6 wg"
  "dv_open_socks (upd_keypair k g wg) = dv_open_socks wg"
  "dv_creating_net (upd_keypair k g wg) = dv_creating_net wg"
  "dv_static_identity (upd_keypair k g wg) = dv_static_identity wg"
  "dv_cookie_checker (upd_keypair k g wg) = dv_cookie_checker wg"
  "dv_peer_hashtable (upd_keypair k g wg) = dv_peer_hashtable wg"
  "dv_index_hashtable (upd_keypair k g wg) = dv_index_hashtable wg"
  "dv_peer_allowedips (upd_keypair k g wg) = dv_peer_allowedips wg"
  "dv_peer_list (upd_keypair k g wg) = dv_peer_list wg"
  "dv_handshake_queue_len (upd_keypair k g wg) = dv_handshake_queue_len wg"
  "dv_num_peers (upd_keypair k g wg) = dv_num_peers wg"
  "dv_device_update_gen (upd_keypair k g wg) = dv_device_update_gen wg"
  "dv_fwmark (upd_keypair k g wg) = dv_fwmark wg"
  "dv_incoming_port (upd_keypair k g wg) = dv_incoming_port wg"
  "dv_aes_cpu (upd_keypair k g wg) = dv_aes_cpu wg"
  "dv_is_chacha (upd_keypair k g wg) = dv_is_chacha wg"
  "dv_peers (upd_keypair k g wg) = dv_peers wg"
  "dv_refs (upd_keypair k g wg) = dv_refs wg"
  "dv_rcu_peers (upd_keypair k g wg) = dv_rcu_peers wg"
  "dv_rcu_keypairs (upd_keypair k g wg) = dv_rcu_keypairs wg"
  "dv_aeads (upd_keypair k g wg) = dv_aeads wg"
  "dv_inflight (upd_keypair k g wg) = dv_inflight wg"
  "dv_keypair_counter (upd_keypair k g wg) = dv_keypair_counter wg"
  "dv_peer_counter (upd_keypair k g wg) = dv_peer_counter wg"
  "dv_last_under_load (upd_keypair k g wg) = dv_last_under_load wg"
  "dv_ratelimiter (upd_keypair k g wg) = dv_ratelimiter wg"
  "dv_sent (upd_keypair k g wg) = dv_sent wg"
  "dv_delivered (upd_keypair k g wg) = dv_delivered wg"
  "dv_rx_packets (upd_keypair k g wg) = dv_rx_packets wg"
  "dv_rx_bytes (upd_keypair k g wg) = dv_rx_bytes wg"
  "dv_rx_errors (upd_keypair k g wg) = dv_rx_errors wg"
  "dv_rx_frame_errors (upd_keypair k g wg) = dv_rx_frame_errors wg"
  "dv_rx_length_errors (upd_keypair k g wg) = dv_rx_length_errors wg"
  "dv_tx_dropped (upd_keypair k g wg) = dv_tx_dropped wg"
  "dv_tx_errors (upd_keypair k g wg) = dv_tx_errors wg"
  by (simp_all add: upd_keypair_def)

lemma upd_peer_peers [simp]:
  "dv_peers (upd_peer p f wg) = (dv_peers wg)(p := f (dv_peers wg p))"
  by (simp add: upd_peer_def)

lemma upd_keypair_keypairs [simp]:
  "dv_keypairs (upd_keypair k f wg) = (dv_keypairs wg)(k \<mapsto> f (keypair_at wg k))"
  by (simp add: upd_keypair_def)

lemma upd_handshake_peers [simp]:
  "dv_peers (upd_handshake p f wg) =
     (dv_peers wg)(p := (dv_peers wg p)\<lparr>pe_handshake := f (pe_handshake (dv_peers wg p))\<rparr>)"
  by (simp add: upd_handshake_def)

lemma upd_slots_peers [simp]:
  "dv_peers (upd_slots p f wg) =
     (dv_peers wg)(p := (dv_peers wg p)\<lparr>pe_keypairs := f (pe_keypairs (dv_peers wg p))\<rparr>)"
  by (simp add: upd_slots_def)

lemma wg_peer_put_peer [simp]:
  "pe_tx_queue (dv_peers (wg_peer_put r wg) q) = pe_tx_queue (dv_peers wg q)"
  "pe_rx_queue (dv_peers (wg_peer_put r wg) q) = pe_rx_queue (dv_peers wg q)"
  "pe_serial_work_cpu (dv_peers (wg_peer_put r wg) q) = pe_serial_work_cpu (dv_peers wg q)"
  "pe_is_dead (dv_peers (wg_peer_put r wg) q) = pe_is_dead (dv_peers wg q)"
  "pe_keypairs (dv_peers (wg_peer_put r wg) q) = pe_keypairs (dv_peers wg q)"
  "pe_endpoint (dv_peers (wg_peer_put r wg) q) = pe_endpoint (dv_peers wg q)"
  "pe_endpoint_cache (dv_peers (wg_peer_put r wg) q) = pe_endpoint_cache (dv_peers wg q)"
  "pe_handshake (dv_peers (wg_peer_put r wg) q) = pe_handshake (dv_peers wg q)"
  "pe_last_sent_handshake (dv_peers (wg_peer_put r wg) q) = pe_last_sent_handshake (dv_peers wg q)"
  "pe_transmit_handshake_work (dv_peers (wg_peer_put r wg) q) = pe_transmit_handshake_work (dv_peers wg q)"
  "pe_clear_peer_work (dv_peers (wg_peer_put r wg) q) = pe_clear_peer_work (dv_peers wg q)"
  "pe_transmit_packet_work (dv_peers (wg_peer_put r wg) q) = pe_transmit_packet_work (dv_peers wg q)"
  "pe_latest_cookie (dv_peers (wg_peer_put r wg) q) = pe_latest_cookie (dv_peers wg q)"
  "pe_rx_bytes (dv_peers (wg_peer_put r wg) q) = pe_rx_bytes (dv_peers wg q)"
  "pe_tx_bytes (dv_peers (wg_peer_put r wg) q) = pe_tx_bytes (dv_peers wg q)"
  "pe_timer_retransmit_handshake (dv_peers (wg_peer_put r wg) q) = pe_timer_retransmit_handshake (dv_peers wg q)"
  "pe_timer_send_keepalive (dv_peers (wg_peer_put r wg) q) = pe_timer_send_keepalive (dv_peers wg q)"
  "pe_timer_new_handshake (dv_peers (wg_peer_put r wg) q) = pe_timer_new_handshake (dv_peers wg q)"
  "pe_timer_zero_key_material (dv_peers (wg_peer_put r wg) q) = pe_timer_zero_key_material (dv_peers wg q)"
  "pe_timer_persistent_keepalive (dv_peers (wg_peer_put r wg) q) = pe_timer_persistent_keepalive (dv_peers wg q)"
  "pe_timer_handshake_attempts (dv_peers (wg_peer_put r wg) q) = pe_timer_handshake_attempts (dv_peers wg q)"
  "pe_persistent_keepalive_interval (dv_peers (wg_peer_put r wg) q) = pe_persistent_keepalive_interval (dv_peers wg q)"
  "pe_timer_need_another_keepalive (dv_peers (wg_peer_put r wg) q) = pe_timer_need_another_keepalive (dv_peers wg q)"
  "pe_sent_lastminute_handshake (dv_peers (wg_peer_put r wg) q) = pe_sent_lastminute_handshake (dv_peers wg q)"
  "pe_walltime_last_handshake (dv_peers (wg_peer_put r wg) q) = pe_walltime_last_handshake (dv_peers wg q)"
  "pe_napi_scheduled (dv_peers (wg_peer_put r wg) q) = pe_napi_scheduled (dv_peers wg q)"
  "pe_napi_enabled (dv_peers (wg_peer_put r wg) q) = pe_napi_enabled (dv_peers wg q)"
  "pe_internal_id (dv_peers (wg_peer_put r wg) q) = pe_internal_id (dv_peers wg q)"
  by (simp_all add: wg_peer_put_def kref_release_def wg_packet_purge_staged_packets_def Let_def split: option.split)

lemma wg_peer_put_other [simp]:
  "dv_running (wg_peer_put r wg) = dv_running wg"
  "dv_mtu (wg_peer_put r wg) = dv_mtu wg"
  "dv_encrypt_queue (wg_peer_put r wg) = dv_encrypt_queue wg"
  "dv_decrypt_queue (wg_peer_put r wg) = dv_decrypt_queue wg"
  "dv_handshake_queue (wg_peer_put r wg) = dv_handshake_queue wg"
  "dv_sock4 (wg_peer_put r wg) = dv_sock4 wg"
  "dv_sock6 (wg_peer_put r wg) = dv_sock6 wg"
  "dv_open_socks (wg_peer_put r wg) = dv_open_socks wg"
  "dv_creating_net (wg_peer_put r wg) = dv_creating_net wg"
  "dv_static_identity (wg_peer_put r wg) = dv_static_identity wg"
  "dv_cookie_checker (wg_peer_put r wg) = dv_cookie_checker wg"
  "dv_peer_hashtable (wg_peer_put r wg) = dv_peer_hashtable wg"
  "dv_peer_allowedips (wg_peer_put r wg) = dv_peer_allowedips wg"
  "dv_peer_list (wg_peer_put r wg) = dv_peer_list wg"
  "dv_handshake_queue_len (wg_peer_put r wg) = dv_handshake_queue_len wg"
  "dv_num_peers (wg_peer_put r wg) = dv_num_peers wg"
  "dv_device_update_gen (wg_peer_put r wg) = dv_device_update_gen wg"
  "dv_fwmark (wg_peer_put r wg) = dv_fwmark wg"
  "dv_incoming_port (wg_peer_put r wg) = dv_incoming_port wg"
  "dv_aes_cpu (wg_peer_put r wg) = dv_aes_cpu wg"
  "dv_is_chacha (wg_peer_put r wg) = dv_is_chacha wg"
  "dv_keypairs (wg_peer_put r wg) = dv_keypairs wg"
  "dv_rcu_keypairs (wg_peer_put r wg) = dv_rcu_keypairs wg"
  "dv_aeads (wg_peer_put r wg) = dv_aeads wg"
  "dv_inflight (wg_peer_put r wg) = dv_inflight wg"
  "dv_keypair_counter (wg_peer_put r wg) = dv_keypair_counter wg"
  "dv_peer_counter (wg_peer_put r wg) = dv_peer_counter wg"
  "dv_last_under_load (wg_peer_put r wg) = dv_last_under_load wg"
  "dv_ratelimiter (wg_peer_put r wg) = dv_ratelimiter wg"
  "dv_sent (wg_peer_put r wg) = dv_sent wg"
  "dv_delivered (wg_peer_put r wg) = dv_delivered wg"
  "dv_rx_packets (wg_peer_put r wg) = dv_rx_packets wg"
  "dv_rx_bytes (wg_peer_put r wg) = dv_rx_bytes wg"
  "dv_rx_errors (wg_peer_put r wg) = dv_rx_errors wg"
  "dv_rx_frame_errors (wg_peer_put r wg) = dv_rx_frame_errors wg"
  "dv_rx_length_errors (wg_peer_put r wg) = dv_rx_length_errors wg"
  "dv_tx_errors (wg_peer_put r wg) = dv_tx_errors wg"
  by (simp_all add: wg_peer_put_def kref_release_def wg_packet_purge_staged_packets_def Let_def split: option.split)

lemma wg_peer_put_refs [simp]:
  "dv_refs (wg_peer_put None wg) = dv_refs wg"
  "dv_refs (wg_peer_put (Some p) wg) = (dv_refs wg)(p := dv_refs wg p - 1)"
  by (simp_all add: wg_peer_put_def kref_release_def wg_packet_purge_staged_packets_def Let_def)

text \<open>A reference that is not the last one only lowers the count.\<close>

lemma wg_peer_put_alive:
  "1 < dv_refs wg p \<Longrightarrow> wg_peer_put (Some p) wg = wg\<lparr>dv_refs := (dv_refs wg)(p := dv_refs wg p - 1)\<rparr>"
  by (simp add: wg_peer_put_def Let_def)

end
