(* ===== verification/WG_Instances.thy ===== *)
theory WG_Instances
  imports WG_State
begin

unbundle bit_operations_syntax

text \<open>
  Objects as the kernel's zeroing allocators return them, which the code starts from, and a
  concrete environment, interface and crypto library on which the statements of the
  components can be evaluated. The concrete library is not secure; it has the algebraic
  laws that the protocol relies on (commuting exchanges, decryption undoing encryption).
\<close>

section \<open>Zeroed memory\<close>

definition zero_symmetric_key :: noise_symmetric_key where
  "zero_symmetric_key = \<lparr>sk_key = replicate NOISE_SYMMETRIC_KEY_LEN 0, sk_birthdate = 0, sk_is_valid = False\<rparr>"

definition zero_keypair :: noise_keypair where
  "zero_keypair =
     \<lparr>kp_sending = zero_symmetric_key, kp_sending_counter = 0, kp_receiving = zero_symmetric_key,
      kp_receiving_counter = replay_counter_init, kp_remote_index = 0, kp_i_am_the_initiator = False,
      kp_refcount = 0, kp_internal_id = 0, kp_aead_enc = None, kp_aead_dec = None\<rparr>"

definition zero_keypairs :: noise_keypairs where
  "zero_keypairs = \<lparr>current_keypair = None, previous_keypair = None, next_keypair = None\<rparr>"

definition zero_handshake :: noise_handshake where
  "zero_handshake =
     \<lparr>hs_state = HANDSHAKE_ZEROED, hs_last_initiation_consumption = 0,
      hs_ephemeral_private = replicate NOISE_PUBLIC_KEY_LEN 0,
      hs_remote_static = replicate NOISE_PUBLIC_KEY_LEN 0,
      hs_remote_ephemeral = replicate NOISE_PUBLIC_KEY_LEN 0,
      hs_precomputed_static_static = replicate NOISE_PUBLIC_KEY_LEN 0,
      hs_preshared_key = replicate NOISE_SYMMETRIC_KEY_LEN 0,
      hs_hash = replicate NOISE_HASH_LEN 0, hs_chaining_key = replicate NOISE_HASH_LEN 0,
      hs_latest_timestamp = replicate NOISE_TIMESTAMP_LEN 0, hs_remote_index = 0\<rparr>"

definition zero_cookie :: cookie where
  "zero_cookie =
     \<lparr>co_birthdate = 0, co_is_valid = False, co_cookie = replicate COOKIE_LEN 0,
      co_have_sent_mac1 = False, co_last_mac1_sent = replicate COOKIE_LEN 0,
      co_cookie_decryption_key = replicate NOISE_SYMMETRIC_KEY_LEN 0,
      co_message_mac1_key = replicate NOISE_SYMMETRIC_KEY_LEN 0\<rparr>"

definition zero_endpoint :: endpoint where
  "zero_endpoint = \<lparr>ep_addr = AddrNone, ep_src = replicate 16 0\<rparr>"

definition zero_peer :: wg_peer where
  "zero_peer =
     \<lparr>pe_tx_queue = zero_queue, pe_rx_queue = zero_queue, pe_staged_packet_queue = [],
      pe_serial_work_cpu = 0, pe_is_dead = False, pe_keypairs = zero_keypairs,
      pe_endpoint = zero_endpoint, pe_endpoint_cache = None, pe_handshake = zero_handshake,
      pe_last_sent_handshake = 0, pe_transmit_handshake_work = False, pe_clear_peer_work = False,
      pe_transmit_packet_work = False, pe_latest_cookie = zero_cookie, pe_rx_bytes = 0, pe_tx_bytes = 0,
      pe_timer_retransmit_handshake = None, pe_timer_send_keepalive = None,
      pe_timer_new_handshake = None, pe_timer_zero_key_material = None,
      pe_timer_persistent_keepalive = None, pe_timer_handshake_attempts = 0,
      pe_persistent_keepalive_interval = 0, pe_timer_need_another_keepalive = False,
      pe_sent_lastminute_handshake = False, pe_walltime_last_handshake = (0, 0),
      pe_napi_scheduled = False, pe_napi_enabled = False, pe_internal_id = 0\<rparr>"

definition zero_packet :: packet where
  "zero_packet =
     \<lparr>pk_addr = 0, pk_buf = [], pk_data = 0, pk_network_header = 0, pk_transport_header = 0,
      pk_protocol = 0, pk_iif = 0, pk_mark = 0, pk_hash = 0, pk_csum_partial = False,
      pk_csum_unnecessary = False, cb_nonce = 0, cb_keypair = None,
      cb_state = PACKET_STATE_UNCRYPTED, cb_mtu = 0, cb_ds = 0\<rparr>"

section \<open>A concrete environment\<close>

definition demo_env :: env where
  "demo_env =
     \<lparr>blake2s = (\<lambda>n key msg. replicate n (sum_list key + sum_list msg + 1)),
      curve25519 = (\<lambda>a b. Some (map (\<lambda>(x, y). x + y) (zip a b))),
      curve25519_generate_public = Some,
      curve25519_clamp_secret = (\<lambda>s. s),
      chacha20poly1305_encrypt = (\<lambda>k n ad m. m @ replicate 16 (hd k)),
      chacha20poly1305_decrypt = (\<lambda>k n ad c.
        if drop (length c - 16) c = replicate 16 (hd k) then Some (take (length c - 16) c) else None),
      xchacha20poly1305_encrypt = (\<lambda>k n ad m. m @ replicate 16 (hd k)),
      xchacha20poly1305_decrypt = (\<lambda>k n ad c.
        if drop (length c - 16) c = replicate 16 (hd k) then Some (take (length c - 16) c) else None),
      aes_gcm_encrypt = (\<lambda>k n ad m. Some (m @ replicate 16 (hd k))),
      aes_gcm_decrypt = (\<lambda>k n ad c.
        if drop (length c - 16) c = replicate 16 (hd k) then Some (take (length c - 16) c) else None),
      siphash = (\<lambda>m k. ucast (hd m)),
      hsip = \<lparr>hsiphash_2u32 = (\<lambda>a b k. a + b), hsiphash_3u32 = (\<lambda>a b c k. a + b + c)\<rparr>,
      e_HZ = 100, e_NET_SKB_PAD = 64, e_online = [True, True],
      e_boottime = 1000000000000, e_jiffies = 100000, e_realtime = (1700000000, 500000000),
      e_jitter = 1, e_ephemeral = replicate 32 7,
      e_attempts = [\<lparr>ia_before = id, ia_random = 11, ia_between = id\<rparr>],
      e_keypair_mem = Some 100, e_aead_enc = Some 200, e_aead_dec = Some 201,
      e_setkey_enc = True, e_setkey_dec = True,
      e_cookie_secret = replicate 32 5, e_cookie_nonce = replicate 24 6,
      e_skb_mem = (\<lambda>p. Some (300 + p)), e_rl_mem = True, e_net = 1,
      e_saddr_ok = (\<lambda>_. True), e_route = (\<lambda>fl. Inr \<lparr>rt_id = 1, rt_ifindex = 2\<rparr>), e_cache_valid = True,
      e_udp4 = (\<lambda>n. Inr \<lparr>so_id = 10 + 2 * n, so_sport = 51820\<rparr>), e_udp6 = (\<lambda>n. Inr \<lparr>so_id = 11 + 2 * n, so_sport = 51820\<rparr>),
      e_ipv6 = True, e_reply_mem = True, e_cow_ok = (\<lambda>_. True), e_head_ok = (\<lambda>_. True),
      e_trim_ok = True, e_pull_ok = True, e_csum = Some, e_skb_hash = (\<lambda>m. sum_list (map ucast m)),
      e_parse_protocol = (\<lambda>m. if 20 \<le> length m \<and> drop_bit 4 (m ! 0) = 4 then htons ETH_P_IP
        else if 40 \<le> length m \<and> drop_bit 4 (m ! 0) = 6 then htons ETH_P_IPV6 else 0),
      e_scope_id = (\<lambda>a i. 0), e_ecn_encap = (\<lambda>p m. 0), e_ecn_decap = (\<lambda>ds m. m), e_dsfield = (\<lambda>p m. 0),
      e_rng_ready = True, e_trylock = True, e_peer_mem = Some 2, e_dst_cache_ok = True, e_capable = True\<rparr>"

definition zero_crypt_queue :: "'a crypt_queue" where
  "zero_crypt_queue = \<lparr>cq_ring = [], cq_size = 1024, cq_worker = Some (\<lambda>_. False), cq_last_cpu = -1\<rparr>"

text \<open>An interface that is up, with a static key, the hash tables empty and no peers.\<close>

definition demo_device :: "bytes \<Rightarrow> wg_device" where
  "demo_device key =
     \<lparr>dv_running = True, dv_mtu = 1420, dv_encrypt_queue = zero_crypt_queue,
      dv_decrypt_queue = zero_crypt_queue, dv_handshake_queue = zero_crypt_queue,
      dv_sock4 = Some \<lparr>so_id = 1, so_sport = 51820\<rparr>, dv_sock6 = Some \<lparr>so_id = 2, so_sport = 51820\<rparr>,
      dv_open_socks = [1, 2],
      dv_creating_net = Some 1,
      dv_static_identity = \<lparr>si_public = key, si_private = key, si_has_identity = True\<rparr>,
      dv_cookie_checker = \<lparr>ck_secret = replicate 32 9, ck_cookie_encryption_key = replicate 32 0,
        ck_message_mac1_key = replicate 32 0, ck_secret_birthdate = 999000000000\<rparr>,
      dv_peer_hashtable = \<lparr>ph_hashtable = \<lparr>hl_first = (\<lambda>_. []), hl_pprev = (\<lambda>_. None)\<rparr>, ph_key = []\<rparr>,
      dv_index_hashtable = \<lparr>ih_hashtable = \<lparr>hl_first = (\<lambda>_. []), hl_pprev = (\<lambda>_. None)\<rparr>,
        ih_entry = (\<lambda>e. \<lparr>ie_peer = None, ie_type = 0, ie_index = 0\<rparr>)\<rparr>,
      dv_peer_allowedips = wg_allowedips_init
        \<lparr>nodes = Map.empty, root4 = None, root6 = None, seq = 0, peer_lists = (\<lambda>_. [])\<rparr>,
      dv_peer_list = [], dv_handshake_queue_len = 0, dv_num_peers = 0, dv_device_update_gen = 1,
      dv_fwmark = 0, dv_incoming_port = 51820, dv_aes_cpu = Some [0, 1], dv_is_chacha = False,
      dv_peers = (\<lambda>_. zero_peer), dv_refs = (\<lambda>_. 0), dv_rcu_peers = [], dv_keypairs = Map.empty,
      dv_rcu_keypairs = [], dv_aeads = Map.empty, dv_inflight = Map.empty, dv_keypair_counter = 0,
      dv_peer_counter = 0, dv_last_under_load = 0,
      dv_ratelimiter = \<lparr>init_refcnt = 1, entry_cache = True, rl_key = [], total_entries = 0,
        max_entries = 8, table_size = 1, table_v4 = Some [[]], table_v6 = Some [[]], gc_queued = True,
        rcu_pending = 0\<rparr>,
      dv_sent = [], dv_delivered = [], dv_rx_packets = 0, dv_rx_bytes = 0, dv_rx_errors = 0,
      dv_rx_frame_errors = 0, dv_rx_length_errors = 0, dv_tx_dropped = 0, dv_tx_errors = 0\<rparr>"

text \<open>The interface with a peer that has the given public key, linked in the tables.\<close>

definition demo_with_peer :: "bytes \<Rightarrow> peer_id \<Rightarrow> bytes \<Rightarrow> wg_device" where
  "demo_with_peer key p pub =
     (let wg = demo_device key;
          wg = upd_handshake p (\<lambda>h. h\<lparr>hs_remote_static := pub,
            hs_precomputed_static_static := the (curve25519 demo_env key pub)\<rparr>) wg;
          wg = upd_peer p (\<lambda>q. q\<lparr>pe_tx_queue := wg_prev_queue_init (pe_tx_queue q),
            pe_rx_queue := wg_prev_queue_init (pe_rx_queue q),
            pe_endpoint := \<lparr>ep_addr = Addr4 9999 [192, 0, 2, 1], ep_src = replicate 16 0\<rparr>\<rparr>) wg;
          wg = wg\<lparr>dv_peer_hashtable := wg_pubkey_hashtable_add (siphash demo_env) (remote_static_of wg)
            (dv_peer_hashtable wg) p\<rparr>
      in wg\<lparr>dv_peer_list := [p], dv_num_peers := 1, dv_refs := (dv_refs wg)(p := 1),
            dv_index_hashtable := (dv_index_hashtable wg)\<lparr>ih_entry := (ih_entry (dv_index_hashtable wg))
              (HandshakeEntry p := \<lparr>ie_peer = Some p, ie_type = INDEX_HASHTABLE_HANDSHAKE, ie_index = 0\<rparr>)\<rparr>\<rparr>)"

section \<open>Laws of the crypto library\<close>

text \<open>Documented behaviour that the protocol relies on.\<close>

definition hash_lengths :: "env \<Rightarrow> bool" where
  "hash_lengths env \<longleftrightarrow> (\<forall>n key msg. length (blake2s env n key msg) = n)"

definition xaead_correct :: "env \<Rightarrow> bool" where
  "xaead_correct env \<longleftrightarrow>
     (\<forall>k n ad m. xchacha20poly1305_decrypt env k n ad (xchacha20poly1305_encrypt env k n ad m) = Some m)"

definition aead_correct :: "env \<Rightarrow> bool" where
  "aead_correct env \<longleftrightarrow>
     (\<forall>k n ad m. chacha20poly1305_decrypt env k n ad (chacha20poly1305_encrypt env k n ad m) = Some m)"

definition dh_commutes :: "env \<Rightarrow> bool" where
  "dh_commutes env \<longleftrightarrow>
     (\<forall>a b pa pb. curve25519_generate_public env a = Some pa \<longrightarrow> curve25519_generate_public env b = Some pb \<longrightarrow>
        curve25519 env a pb = curve25519 env b pa)"

lemma demo_env_laws [simp]:
  "hash_lengths demo_env" "xaead_correct demo_env" "aead_correct demo_env" "dh_commutes demo_env"
proof -
  have "map (\<lambda>(x, y). x + y) (zip a b) = map (\<lambda>(x, y). x + y) (zip b a)" for a b :: bytes
    by (subst zip_commute) (simp add: case_prod_beta add.commute)
  then show "dh_commutes demo_env" by (simp add: dh_commutes_def demo_env_def)
qed (simp_all add: hash_lengths_def xaead_correct_def aead_correct_def demo_env_def)

lemmas demo_defs =
  demo_env_def demo_device_def demo_with_peer_def zero_crypt_queue_def zero_peer_def zero_handshake_def
  zero_cookie_def zero_endpoint_def zero_keypairs_def zero_packet_def Let_def

end
