(* ===== verification/WG_Noise.thy ===== *)
theory WG_Noise
  imports WG_Instances "HOL-Library.Monad_Syntax"
begin

unbundle bit_operations_syntax

text \<open>
  The Noise_IKpsk2 handshake and the session keys of \<^verbatim>\<open>noise.c\<close>. The functions are written in
  the order of the source; a failing step leaves in the handshake what the code has
  written to it so far. Keypairs and AEAD transforms are objects in memory, so that
  freeing them is visible. The functions that draw an index return \<open>None\<close> when the random
  numbers given to them do not contain a free one, that is, when the search goes on.
\<close>

section \<open>Initial values\<close>

definition ascii :: "string \<Rightarrow> bytes" where
  "ascii s = map (\<lambda>c. of_nat (of_char c)) s"

definition handshake_name :: bytes where
  "handshake_name = ascii ''Noise_IKpsk2_25519_ChaChaPoly_BLAKE2s''"

definition identifier_name :: bytes where
  "identifier_name = ascii ''WireGuard v1 zx2c4 Jason@zx2c4.com''"

text \<open>\<^verbatim>\<open>wg_noise_init\<close> computes the two initial values.\<close>

definition handshake_init_chaining_key :: "env \<Rightarrow> bytes" where
  "handshake_init_chaining_key env = blake2s env NOISE_HASH_LEN [] handshake_name"

definition handshake_init_hash :: "env \<Rightarrow> bytes" where
  "handshake_init_hash env =
     blake2s env NOISE_HASH_LEN [] (handshake_init_chaining_key env @ identifier_name)"

definition wg_noise_precompute_static_static :: "env \<Rightarrow> peer_id \<Rightarrow> wg_device \<Rightarrow> wg_device" where
  "wg_noise_precompute_static_static env p wg =
     (let si = dv_static_identity wg;
          dh = (if si_has_identity si
                then curve25519 env (si_private si) (hs_remote_static (handshake_of wg p)) else None)
      in upd_handshake p (\<lambda>h. h\<lparr>hs_precomputed_static_static :=
           (case dh of Some x \<Rightarrow> x | None \<Rightarrow> replicate NOISE_PUBLIC_KEY_LEN 0)\<rparr>) wg)"

definition set_entry :: "index_ptr \<Rightarrow> index_hashtable_entry \<Rightarrow> wg_device \<Rightarrow> wg_device" where
  "set_entry e x wg =
     wg\<lparr>dv_index_hashtable := (dv_index_hashtable wg)
          \<lparr>ih_entry := (ih_entry (dv_index_hashtable wg))(e := x),
           ih_hashtable := (ih_hashtable (dv_index_hashtable wg))
             \<lparr>hl_pprev := (hl_pprev (ih_hashtable (dv_index_hashtable wg)))(e := None)\<rparr>\<rparr>\<rparr>"

definition wg_noise_handshake_init ::
    "env \<Rightarrow> peer_id \<Rightarrow> bytes \<Rightarrow> bytes option \<Rightarrow> wg_device \<Rightarrow> wg_device" where
  "wg_noise_handshake_init env p peer_public_key peer_preshared_key wg =
     (let h = zero_handshake\<lparr>hs_remote_static := peer_public_key\<rparr>;
          h = (case peer_preshared_key of
                 Some psk \<Rightarrow> h\<lparr>hs_preshared_key := psk\<rparr> | None \<Rightarrow> h);
          wg = set_entry (HandshakeEntry p)
            \<lparr>ie_peer = Some p, ie_type = INDEX_HASHTABLE_HANDSHAKE, ie_index = 0\<rparr> wg;
          wg = upd_handshake p (\<lambda>_. h) wg
      in wg_noise_precompute_static_static env p wg)"

definition handshake_zero :: "noise_handshake \<Rightarrow> noise_handshake" where
  "handshake_zero h =
     h\<lparr>hs_ephemeral_private := replicate NOISE_PUBLIC_KEY_LEN 0,
       hs_remote_ephemeral := replicate NOISE_PUBLIC_KEY_LEN 0,
       hs_hash := replicate NOISE_HASH_LEN 0, hs_chaining_key := replicate NOISE_HASH_LEN 0,
       hs_remote_index := 0, hs_state := HANDSHAKE_ZEROED\<rparr>"

definition index_remove :: "index_ptr \<Rightarrow> wg_device \<Rightarrow> wg_device" where
  "index_remove e wg = wg\<lparr>dv_index_hashtable := wg_index_hashtable_remove (dv_index_hashtable wg) e\<rparr>"

definition wg_noise_handshake_clear :: "peer_id \<Rightarrow> wg_device \<Rightarrow> wg_device" where
  "wg_noise_handshake_clear p wg = upd_handshake p handshake_zero (index_remove (HandshakeEntry p) wg)"

section \<open>Keypairs\<close>

text \<open>The allocator's result is an address that is not in use, if there is memory.\<close>

definition keypair_create :: "env \<Rightarrow> peer_id \<Rightarrow> wg_device \<Rightarrow> addr option \<times> wg_device" where
  "keypair_create env p wg =
     (case e_keypair_mem env of
        None \<Rightarrow> (None, wg)
      | Some k \<Rightarrow>
          let wg = wg\<lparr>dv_keypair_counter := dv_keypair_counter wg + 1\<rparr>;
              wg = wg\<lparr>dv_keypairs := (dv_keypairs wg)
                (k \<mapsto> zero_keypair\<lparr>kp_internal_id := dv_keypair_counter wg, kp_refcount := 1\<rparr>)\<rparr>
          in (Some k, set_entry (KeypairEntry k)
                \<lparr>ie_peer = Some p, ie_type = INDEX_HASHTABLE_KEYPAIR, ie_index = 0\<rparr> wg))"

definition free_aead :: "addr option \<Rightarrow> wg_device \<Rightarrow> wg_device" where
  "free_aead a wg =
     (case a of None \<Rightarrow> wg | Some t \<Rightarrow> wg\<lparr>dv_aeads := (dv_aeads wg)(t := None)\<rparr>)"

definition kfree_keypair :: "addr \<Rightarrow> wg_device \<Rightarrow> wg_device" where
  "kfree_keypair k wg = wg\<lparr>dv_keypairs := (dv_keypairs wg)(k := None)\<rparr>"

definition keypair_free_rcu :: "addr \<Rightarrow> wg_device \<Rightarrow> wg_device" where
  "keypair_free_rcu k wg =
     (let kp = keypair_at wg k
      in kfree_keypair k (free_aead (kp_aead_dec kp) (free_aead (kp_aead_enc kp) wg)))"

text \<open>The end of a grace period: the callbacks registered so far run.\<close>

definition rcu_keypair_callback :: "addr \<Rightarrow> wg_device \<Rightarrow> wg_device" where
  "rcu_keypair_callback k wg =
     keypair_free_rcu k (wg\<lparr>dv_rcu_keypairs := removeAll k (dv_rcu_keypairs wg)\<rparr>)"

definition keypair_free_kref :: "addr \<Rightarrow> wg_device \<Rightarrow> wg_device" where
  "keypair_free_kref k wg =
     (let wg = index_remove (KeypairEntry k) wg
      in wg\<lparr>dv_rcu_keypairs := k # dv_rcu_keypairs wg\<rparr>)"

definition wg_noise_keypair_put :: "addr option \<Rightarrow> bool \<Rightarrow> wg_device \<Rightarrow> wg_device" where
  "wg_noise_keypair_put keypair unreference_now wg =
     (case keypair of
        None \<Rightarrow> wg
      | Some k \<Rightarrow>
          let wg = (if unreference_now then index_remove (KeypairEntry k) wg else wg);
              wg = upd_keypair k (\<lambda>kp. kp\<lparr>kp_refcount := kp_refcount kp - 1\<rparr>) wg
          in if kp_refcount (keypair_at wg k) = 0 then keypair_free_kref k wg else wg)"

definition wg_noise_keypair_get :: "addr option \<Rightarrow> wg_device \<Rightarrow> addr option \<times> wg_device" where
  "wg_noise_keypair_get keypair wg =
     (case keypair of
        None \<Rightarrow> (None, wg)
      | Some k \<Rightarrow>
          if kp_refcount (keypair_at wg k) = 0 then (None, wg)
          else (Some k, upd_keypair k (\<lambda>kp. kp\<lparr>kp_refcount := kp_refcount kp + 1\<rparr>) wg))"

definition slots_of :: "wg_device \<Rightarrow> peer_id \<Rightarrow> noise_keypairs" where
  "slots_of wg p = pe_keypairs (dv_peers wg p)"

definition wg_noise_keypairs_clear :: "peer_id \<Rightarrow> wg_device \<Rightarrow> wg_device" where
  "wg_noise_keypairs_clear p wg =
     (let old = next_keypair (slots_of wg p);
          wg = wg_noise_keypair_put old True (upd_slots p (\<lambda>s. s\<lparr>next_keypair := None\<rparr>) wg);
          old = previous_keypair (slots_of wg p);
          wg = wg_noise_keypair_put old True (upd_slots p (\<lambda>s. s\<lparr>previous_keypair := None\<rparr>) wg);
          old = current_keypair (slots_of wg p)
      in wg_noise_keypair_put old True (upd_slots p (\<lambda>s. s\<lparr>current_keypair := None\<rparr>) wg))"

definition invalidate_sending :: "addr option \<Rightarrow> wg_device \<Rightarrow> wg_device" where
  "invalidate_sending keypair wg =
     (case keypair of
        None \<Rightarrow> wg
      | Some k \<Rightarrow> upd_keypair k (\<lambda>kp. kp\<lparr>kp_sending := (kp_sending kp)\<lparr>sk_is_valid := False\<rparr>\<rparr>) wg)"

definition wg_noise_reset_last_sent_handshake :: "env \<Rightarrow> peer_id \<Rightarrow> wg_device \<Rightarrow> wg_device" where
  "wg_noise_reset_last_sent_handshake env p =
     upd_peer p (\<lambda>q. q\<lparr>pe_last_sent_handshake :=
       e_boottime env - of_nat (REKEY_TIMEOUT + 1) * NSEC_PER_SEC\<rparr>)"

definition wg_noise_expire_current_peer_keypairs :: "env \<Rightarrow> peer_id \<Rightarrow> wg_device \<Rightarrow> wg_device" where
  "wg_noise_expire_current_peer_keypairs env p wg =
     (let wg = wg_noise_handshake_clear p wg;
          wg = wg_noise_reset_last_sent_handshake env p wg;
          wg = invalidate_sending (next_keypair (slots_of wg p)) wg
      in invalidate_sending (current_keypair (slots_of wg p)) wg)"

definition add_new_keypair :: "peer_id \<Rightarrow> addr \<Rightarrow> wg_device \<Rightarrow> wg_device" where
  "add_new_keypair p new_keypair wg =
     (let old_previous = previous_keypair (slots_of wg p);
          old_next = next_keypair (slots_of wg p);
          old_current = current_keypair (slots_of wg p) in
      if kp_i_am_the_initiator (keypair_at wg new_keypair) then
        let wg =
          (if old_next \<noteq> None then
             wg_noise_keypair_put old_current True
               (upd_slots p (\<lambda>s. s\<lparr>next_keypair := None, previous_keypair := old_next\<rparr>) wg)
           else upd_slots p (\<lambda>s. s\<lparr>previous_keypair := old_current\<rparr>) wg);
            wg = wg_noise_keypair_put old_previous True wg
        in upd_slots p (\<lambda>s. s\<lparr>current_keypair := Some new_keypair\<rparr>) wg
      else
        let wg = upd_slots p (\<lambda>s. s\<lparr>next_keypair := Some new_keypair\<rparr>) wg;
            wg = wg_noise_keypair_put old_next True wg;
            wg = upd_slots p (\<lambda>s. s\<lparr>previous_keypair := None\<rparr>) wg
        in wg_noise_keypair_put old_previous True wg)"

text \<open>The first check runs without the lock; \<open>between\<close> is what happens until the lock is taken.\<close>

definition wg_noise_received_with_keypair ::
    "(wg_device \<Rightarrow> wg_device) \<Rightarrow> peer_id \<Rightarrow> addr \<Rightarrow> wg_device \<Rightarrow> bool \<times> wg_device" where
  "wg_noise_received_with_keypair between p received_keypair wg =
     (if next_keypair (slots_of wg p) \<noteq> Some received_keypair then (False, wg)
      else
        let wg = between wg in
        if next_keypair (slots_of wg p) \<noteq> Some received_keypair then (False, wg)
        else
          let old_keypair = previous_keypair (slots_of wg p);
              wg = upd_slots p (\<lambda>s. s\<lparr>previous_keypair := current_keypair s\<rparr>) wg;
              wg = wg_noise_keypair_put old_keypair True wg
          in (True, upd_slots p (\<lambda>s. s\<lparr>current_keypair := Some received_keypair, next_keypair := None\<rparr>) wg))"

definition wg_noise_set_static_identity_private_key :: "env \<Rightarrow> bytes \<Rightarrow> noise_static_identity \<Rightarrow> noise_static_identity" where
  "wg_noise_set_static_identity_private_key env private_key si =
     (let si = si\<lparr>si_private := curve25519_clamp_secret env private_key\<rparr> in
      case curve25519_generate_public env private_key of
        Some pub \<Rightarrow> si\<lparr>si_public := pub, si_has_identity := True\<rparr>
      | None \<Rightarrow> si\<lparr>si_has_identity := False\<rparr>)"

section \<open>Key derivation\<close>

definition BLAKE2S_BLOCK_SIZE :: nat where "BLAKE2S_BLOCK_SIZE = 64"
definition BLAKE2S_HASH_SIZE :: nat where "BLAKE2S_HASH_SIZE = 32"

definition hmac :: "env \<Rightarrow> bytes \<Rightarrow> bytes \<Rightarrow> bytes" where
  "hmac env inp key =
     (let x_key = (if length key > BLAKE2S_BLOCK_SIZE then blake2s env BLAKE2S_HASH_SIZE [] key else key);
          x_key = x_key @ replicate (BLAKE2S_BLOCK_SIZE - length x_key) 0;
          x_key = map (\<lambda>b. b XOR 0x36) x_key;
          i_hash = blake2s env BLAKE2S_HASH_SIZE [] (x_key @ inp);
          x_key = map (\<lambda>b. b XOR (0x5c XOR 0x36)) x_key
      in blake2s env BLAKE2S_HASH_SIZE [] (x_key @ i_hash))"

text \<open>An absent destination is a length of 0.\<close>

definition kdf :: "env \<Rightarrow> nat \<Rightarrow> nat \<Rightarrow> nat \<Rightarrow> bytes \<Rightarrow> bytes \<Rightarrow> bytes \<times> bytes \<times> bytes" where
  "kdf env first_len second_len third_len data chaining_key =
     (let secret = hmac env data chaining_key in
      if first_len = 0 then ([], [], [])
      else
        let out1 = hmac env [1] secret in
        if second_len = 0 then (take first_len out1, [], [])
        else
          let out2 = hmac env (out1 @ [2]) secret in
          if third_len = 0 then (take first_len out1, take second_len out2, [])
          else
            let out3 = hmac env (out2 @ [3]) secret
            in (take first_len out1, take second_len out2, take third_len out3))"

definition derive_keys :: "env \<Rightarrow> bytes \<Rightarrow> noise_symmetric_key \<times> noise_symmetric_key" where
  "derive_keys env chaining_key =
     (let (first_key, second_key, _) = kdf env NOISE_SYMMETRIC_KEY_LEN NOISE_SYMMETRIC_KEY_LEN 0 [] chaining_key
      in (\<lparr>sk_key = first_key, sk_birthdate = e_boottime env, sk_is_valid = True\<rparr>,
          \<lparr>sk_key = second_key, sk_birthdate = e_boottime env, sk_is_valid = True\<rparr>))"

text \<open>The flag tells whether the caller passes a destination for the key.\<close>

definition mix_dh :: "env \<Rightarrow> bytes \<Rightarrow> bool \<Rightarrow> bytes \<Rightarrow> bytes \<Rightarrow> (bytes \<times> bytes) option" where
  "mix_dh env chaining_key want_key private public =
     (case curve25519 env private public of
        None \<Rightarrow> None
      | Some dh \<Rightarrow>
          let (chaining_key, key, _) =
            kdf env NOISE_HASH_LEN (if want_key then NOISE_SYMMETRIC_KEY_LEN else 0) 0 dh chaining_key
          in Some (chaining_key, key))"

definition mix_precomputed_dh :: "env \<Rightarrow> bytes \<Rightarrow> bytes \<Rightarrow> (bytes \<times> bytes) option" where
  "mix_precomputed_dh env chaining_key precomputed =
     (if precomputed = replicate NOISE_PUBLIC_KEY_LEN 0 then None
      else
        let (chaining_key, key, _) =
          kdf env NOISE_HASH_LEN NOISE_SYMMETRIC_KEY_LEN 0 precomputed chaining_key
        in Some (chaining_key, key))"

definition mix_hash :: "env \<Rightarrow> bytes \<Rightarrow> bytes \<Rightarrow> bytes" where
  "mix_hash env hash src = blake2s env NOISE_HASH_LEN [] (hash @ src)"

definition mix_psk :: "env \<Rightarrow> bytes \<Rightarrow> bytes \<Rightarrow> bytes \<Rightarrow> bytes \<times> bytes \<times> bytes" where
  "mix_psk env chaining_key hash psk =
     (let (chaining_key, temp_hash, key) =
        kdf env NOISE_HASH_LEN NOISE_HASH_LEN NOISE_SYMMETRIC_KEY_LEN psk chaining_key
      in (chaining_key, mix_hash env hash temp_hash, key))"

definition handshake_init :: "env \<Rightarrow> bytes \<Rightarrow> bytes \<times> bytes" where
  "handshake_init env remote_static =
     (handshake_init_chaining_key env, mix_hash env (handshake_init_hash env) remote_static)"

definition message_encrypt :: "env \<Rightarrow> bytes \<Rightarrow> bytes \<Rightarrow> bytes \<Rightarrow> bytes \<times> bytes" where
  "message_encrypt env src_plaintext key hash =
     (let dst_ciphertext = chacha20poly1305_encrypt env key 0 hash src_plaintext
      in (dst_ciphertext, mix_hash env hash dst_ciphertext))"

definition message_decrypt :: "env \<Rightarrow> bytes \<Rightarrow> bytes \<Rightarrow> bytes \<Rightarrow> (bytes \<times> bytes) option" where
  "message_decrypt env src_ciphertext key hash =
     (case chacha20poly1305_decrypt env key 0 hash src_ciphertext of
        None \<Rightarrow> None
      | Some dst_plaintext \<Rightarrow> Some (dst_plaintext, mix_hash env hash src_ciphertext))"

definition message_ephemeral :: "env \<Rightarrow> bytes \<Rightarrow> bytes \<Rightarrow> bytes \<Rightarrow> bytes \<times> bytes" where
  "message_ephemeral env ephemeral_src chaining_key hash =
     (let hash = mix_hash env hash ephemeral_src;
          (chaining_key, _, _) = kdf env NOISE_HASH_LEN 0 0 ephemeral_src chaining_key
      in (chaining_key, hash))"

definition rounddown_pow_of_two :: "u64 \<Rightarrow> u64" where
  "rounddown_pow_of_two n = push_bit (fls n - 1) 1"

definition ALIGN_DOWN :: "u64 \<Rightarrow> u64 \<Rightarrow> u64" where
  "ALIGN_DOWN x a = x AND NOT (a - 1)"

definition tai64n_now :: "env \<Rightarrow> bytes" where
  "tai64n_now env =
     (let (tv_sec, tv_nsec) = e_realtime env;
          tv_nsec = ALIGN_DOWN tv_nsec (rounddown_pow_of_two (NSEC_PER_SEC div of_nat INITIATIONS_PER_SECOND))
      in rev (store_le 8 (0x400000000000000a + tv_sec)) @ rev (store_le 4 (ucast tv_nsec :: u32)))"

section \<open>Handshake messages\<close>

abbreviation set_handshake :: "peer_id \<Rightarrow> noise_handshake \<Rightarrow> wg_device \<Rightarrow> wg_device" where
  "set_handshake p h \<equiv> upd_handshake p (\<lambda>_. h)"

text \<open>
  The cryptographic part of \<^verbatim>\<open>wg_noise_handshake_create_initiation\<close>: the ephemeral key, the
  encrypted static key and the encrypted timestamp, if no step fails, and the handshake as
  it was left.
\<close>

definition initiation_payload ::
    "env \<Rightarrow> noise_static_identity \<Rightarrow> noise_handshake \<Rightarrow> (bytes \<times> bytes \<times> bytes) option \<times> noise_handshake" where
  "initiation_payload env si h =
     (let (ck, hash) = handshake_init env (hs_remote_static h);
          h = h\<lparr>hs_chaining_key := ck, hs_hash := hash,
                hs_ephemeral_private := curve25519_clamp_secret env (e_ephemeral env)\<rparr> in
      case curve25519_generate_public env (hs_ephemeral_private h) of
        None \<Rightarrow> (None, h)
      | Some e \<Rightarrow>
          let (ck, hash) = message_ephemeral env e ck hash;
              h = h\<lparr>hs_chaining_key := ck, hs_hash := hash\<rparr> in
          case mix_dh env ck True (hs_ephemeral_private h) (hs_remote_static h) of
            None \<Rightarrow> (None, h)
          | Some (ck, key) \<Rightarrow>
              let (encrypted_static, hash) = message_encrypt env (si_public si) key hash;
                  h = h\<lparr>hs_chaining_key := ck, hs_hash := hash\<rparr> in
              case mix_precomputed_dh env ck (hs_precomputed_static_static h) of
                None \<Rightarrow> (None, h)
              | Some (ck, key) \<Rightarrow>
                  let (encrypted_timestamp, hash) = message_encrypt env (tai64n_now env) key hash
                  in (Some (e, encrypted_static, encrypted_timestamp),
                      h\<lparr>hs_chaining_key := ck, hs_hash := hash\<rparr>))"

text \<open>The MACs are filled in later.\<close>

definition no_macs :: message_macs where
  "no_macs = \<lparr>mac1 = replicate COOKIE_LEN 0, mac2 = replicate COOKIE_LEN 0\<rparr>"

definition wg_noise_handshake_create_initiation ::
    "env \<Rightarrow> peer_id \<Rightarrow> wg_device \<Rightarrow> (message_handshake_initiation option \<times> wg_device) option" where
  "wg_noise_handshake_create_initiation env p wg =
     (if \<not> si_has_identity (dv_static_identity wg) then Some (None, wg)
      else
        case initiation_payload env (dv_static_identity wg) (handshake_of wg p) of
          (None, h) \<Rightarrow> Some (None, set_handshake p h wg)
        | (Some (e, encrypted_static, encrypted_timestamp), h) \<Rightarrow>
            do {
              (sender_index, tbl) \<leftarrow> wg_index_hashtable_insert (e_attempts env) (dv_index_hashtable wg) (HandshakeEntry p);
              let wg = wg\<lparr>dv_index_hashtable := tbl\<rparr>;
              Some (Some \<lparr>mi_type = MESSAGE_HANDSHAKE_INITIATION, mi_sender_index = sender_index,
                     mi_unencrypted_ephemeral = e, mi_encrypted_static = encrypted_static,
                     mi_encrypted_timestamp = encrypted_timestamp, mi_macs = no_macs\<rparr>,
                    set_handshake p (h\<lparr>hs_state := HANDSHAKE_CREATED_INITIATION\<rparr>) wg)
            })"

fun memcmp :: "bytes \<Rightarrow> bytes \<Rightarrow> int" where
  "memcmp (a # as) (b # bs) = (if a = b then memcmp as bs else if a < b then -1 else 1)"
| "memcmp as bs = 0"

text \<open>What an initiation decrypts to: ephemeral key, static key and the running values.\<close>

definition initiation_static ::
    "env \<Rightarrow> noise_static_identity \<Rightarrow> message_handshake_initiation \<Rightarrow> (bytes \<times> bytes \<times> bytes) option" where
  "initiation_static env si src =
     (let (ck, hash) = handshake_init env (si_public si);
          e = mi_unencrypted_ephemeral src;
          (ck, hash) = message_ephemeral env e ck hash
      in do {
        (ck, key) \<leftarrow> mix_dh env ck True (si_private si) e;
        (s, hash) \<leftarrow> message_decrypt env (mi_encrypted_static src) key hash;
        Some (s, ck, hash)
      })"

definition initiation_timestamp ::
    "env \<Rightarrow> noise_handshake \<Rightarrow> bytes \<Rightarrow> bytes \<Rightarrow> message_handshake_initiation \<Rightarrow> (bytes \<times> bytes \<times> bytes) option" where
  "initiation_timestamp env h ck hash src =
     do {
       (ck, key) \<leftarrow> mix_precomputed_dh env ck (hs_precomputed_static_static h);
       (t, hash) \<leftarrow> message_decrypt env (mi_encrypted_timestamp src) key hash;
       Some (t, ck, hash)
     }"

definition initiation_rejected :: "env \<Rightarrow> noise_handshake \<Rightarrow> bytes \<Rightarrow> bool" where
  "initiation_rejected env h t \<longleftrightarrow>
     memcmp t (hs_latest_timestamp h) \<le> 0 \<or>
     sint (hs_last_initiation_consumption h + NSEC_PER_SEC div of_nat INITIATIONS_PER_SECOND) >
       sint (e_boottime env)"

definition initiation_accept ::
    "env \<Rightarrow> message_handshake_initiation \<Rightarrow> bytes \<Rightarrow> bytes \<Rightarrow> bytes \<Rightarrow> noise_handshake \<Rightarrow> noise_handshake" where
  "initiation_accept env src t ck hash h =
     (let h = h\<lparr>hs_remote_ephemeral := mi_unencrypted_ephemeral src\<rparr>;
          h = (if memcmp t (hs_latest_timestamp h) > 0 then h\<lparr>hs_latest_timestamp := t\<rparr> else h);
          h = h\<lparr>hs_hash := hash, hs_chaining_key := ck, hs_remote_index := mi_sender_index src\<rparr>;
          h = (if sint (hs_last_initiation_consumption h - e_boottime env) < 0
               then h\<lparr>hs_last_initiation_consumption := e_boottime env\<rparr> else h)
      in h\<lparr>hs_state := HANDSHAKE_CONSUMED_INITIATION\<rparr>)"

text \<open>
  The checks read the handshake under its lock and the update takes the lock again;
  \<open>between\<close> is what other CPUs do to the interface until then.
\<close>

definition wg_noise_handshake_consume_initiation ::
    "env \<Rightarrow> (wg_device \<Rightarrow> wg_device) \<Rightarrow> message_handshake_initiation \<Rightarrow> wg_device \<Rightarrow>
     peer_id option \<times> wg_device" where
  "wg_noise_handshake_consume_initiation env between src wg =
     (if \<not> si_has_identity (dv_static_identity wg) then (None, wg)
      else
        case initiation_static env (dv_static_identity wg) src of
          None \<Rightarrow> (None, wg)
        | Some (s, ck, hash) \<Rightarrow>
            let (found, refs) = wg_pubkey_hashtable_lookup (siphash env) (remote_static_of wg)
                  (dv_peer_hashtable wg) (dv_refs wg) s;
                wg = wg\<lparr>dv_refs := refs\<rparr> in
            case found of
              None \<Rightarrow> (None, wg)
            | Some p \<Rightarrow>
                (case initiation_timestamp env (handshake_of wg p) ck hash src of
                   None \<Rightarrow> (None, wg_peer_put (Some p) wg)
                 | Some (t, ck, hash) \<Rightarrow>
                     if initiation_rejected env (handshake_of wg p) t then (None, wg_peer_put (Some p) wg)
                     else (Some p, upd_handshake p (initiation_accept env src t ck hash) (between wg))))"

definition response_payload ::
    "env \<Rightarrow> noise_handshake \<Rightarrow> (bytes \<times> bytes) option \<times> noise_handshake" where
  "response_payload env h =
     (let h = h\<lparr>hs_ephemeral_private := curve25519_clamp_secret env (e_ephemeral env)\<rparr> in
      case curve25519_generate_public env (hs_ephemeral_private h) of
        None \<Rightarrow> (None, h)
      | Some e \<Rightarrow>
          let (ck, hash) = message_ephemeral env e (hs_chaining_key h) (hs_hash h);
              h = h\<lparr>hs_chaining_key := ck, hs_hash := hash\<rparr> in
          case mix_dh env ck False (hs_ephemeral_private h) (hs_remote_ephemeral h) of
            None \<Rightarrow> (None, h)
          | Some (ck, _) \<Rightarrow>
              let h = h\<lparr>hs_chaining_key := ck\<rparr> in
              case mix_dh env ck False (hs_ephemeral_private h) (hs_remote_static h) of
                None \<Rightarrow> (None, h)
              | Some (ck, _) \<Rightarrow>
                  let (ck, hash, key) = mix_psk env ck hash (hs_preshared_key h);
                      (encrypted_nothing, hash) = message_encrypt env [] key hash
                  in (Some (e, encrypted_nothing), h\<lparr>hs_chaining_key := ck, hs_hash := hash\<rparr>))"

definition wg_noise_handshake_create_response ::
    "env \<Rightarrow> peer_id \<Rightarrow> wg_device \<Rightarrow> (message_handshake_response option \<times> wg_device) option" where
  "wg_noise_handshake_create_response env p wg =
     (if hs_state (handshake_of wg p) \<noteq> HANDSHAKE_CONSUMED_INITIATION then Some (None, wg)
      else
        case response_payload env (handshake_of wg p) of
          (None, h) \<Rightarrow> Some (None, set_handshake p h wg)
        | (Some (e, encrypted_nothing), h) \<Rightarrow>
            do {
              (sender_index, tbl) \<leftarrow> wg_index_hashtable_insert (e_attempts env) (dv_index_hashtable wg) (HandshakeEntry p);
              let wg = wg\<lparr>dv_index_hashtable := tbl\<rparr>;
              Some (Some \<lparr>mr_type = MESSAGE_HANDSHAKE_RESPONSE, mr_sender_index = sender_index,
                     mr_receiver_index = hs_remote_index h, mr_unencrypted_ephemeral = e,
                     mr_encrypted_nothing = encrypted_nothing, mr_macs = no_macs\<rparr>,
                    set_handshake p (h\<lparr>hs_state := HANDSHAKE_CREATED_RESPONSE\<rparr>) wg)
            })"

definition response_open ::
    "env \<Rightarrow> noise_static_identity \<Rightarrow> noise_handshake \<Rightarrow> message_handshake_response \<Rightarrow> (bytes \<times> bytes) option" where
  "response_open env si h src =
     (let e = mr_unencrypted_ephemeral src;
          (ck, hash) = message_ephemeral env e (hs_chaining_key h) (hs_hash h)
      in do {
        (ck, _) \<leftarrow> mix_dh env ck False (hs_ephemeral_private h) e;
        (ck, _) \<leftarrow> mix_dh env ck False (si_private si) e;
        let (ck, hash, key) = mix_psk env ck hash (hs_preshared_key h);
        (_, hash) \<leftarrow> message_decrypt env (mr_encrypted_nothing src) key hash;
        Some (ck, hash)
      })"

definition response_accept ::
    "message_handshake_response \<Rightarrow> bytes \<Rightarrow> bytes \<Rightarrow> noise_handshake \<Rightarrow> noise_handshake" where
  "response_accept src ck hash h =
     h\<lparr>hs_remote_ephemeral := mr_unencrypted_ephemeral src, hs_hash := hash, hs_chaining_key := ck,
       hs_remote_index := mr_sender_index src, hs_state := HANDSHAKE_CONSUMED_RESPONSE\<rparr>"

definition peer_of_entry :: "index_ptr \<Rightarrow> peer_id \<Rightarrow> peer_id" where
  "peer_of_entry e p = (case e of HandshakeEntry q \<Rightarrow> q | KeypairEntry k \<Rightarrow> p)"

definition wg_noise_handshake_consume_response ::
    "env \<Rightarrow> (wg_device \<Rightarrow> wg_device) \<Rightarrow> message_handshake_response \<Rightarrow> wg_device \<Rightarrow>
     peer_id option \<times> wg_device" where
  "wg_noise_handshake_consume_response env between src wg =
     (if \<not> si_has_identity (dv_static_identity wg) then (None, wg)
      else
        let (r, tbl, refs) = wg_index_hashtable_lookup (dv_index_hashtable wg) (dv_refs wg)
              INDEX_HASHTABLE_HANDSHAKE (mr_receiver_index src);
            wg = wg\<lparr>dv_index_hashtable := tbl, dv_refs := refs\<rparr> in
        case r of
          None \<Rightarrow> (None, wg)
        | Some (entry, p) \<Rightarrow>
            let q = peer_of_entry entry p; h = handshake_of wg q in
            if hs_state h \<noteq> HANDSHAKE_CREATED_INITIATION then (None, wg_peer_put (Some p) wg)
            else
              case response_open env (dv_static_identity wg) h src of
                None \<Rightarrow> (None, wg_peer_put (Some p) wg)
              | Some (ck, hash) \<Rightarrow>
                  let wg = between wg in
                  if hs_state (handshake_of wg q) \<noteq> hs_state h then (None, wg_peer_put (Some p) wg)
                  else (Some p, upd_handshake q (response_accept src ck hash) wg))"

section \<open>Sessions\<close>

definition alloc_aead :: "addr \<Rightarrow> wg_device \<Rightarrow> wg_device" where
  "alloc_aead t wg = wg\<lparr>dv_aeads := (dv_aeads wg)(t \<mapsto> [])\<rparr>"

definition setkey_aead :: "addr \<Rightarrow> bytes \<Rightarrow> wg_device \<Rightarrow> wg_device" where
  "setkey_aead t key wg = wg\<lparr>dv_aeads := (dv_aeads wg)(t \<mapsto> key)\<rparr>"

text \<open>The AES-GCM transforms of a new keypair; the flag tells whether both are ready.\<close>

definition setup_aeads :: "env \<Rightarrow> addr \<Rightarrow> wg_device \<Rightarrow> bool \<times> wg_device" where
  "setup_aeads env k wg =
     (case e_aead_enc env of
        None \<Rightarrow> (False, wg)
      | Some t \<Rightarrow>
          let wg = upd_keypair k (\<lambda>kp. kp\<lparr>kp_aead_enc := Some t\<rparr>) (alloc_aead t wg) in
          if \<not> e_setkey_enc env then (False, wg)
          else
            let wg = setkey_aead t (sk_key (kp_sending (keypair_at wg k))) wg in
            case e_aead_dec env of
              None \<Rightarrow> (False, wg)
            | Some u \<Rightarrow>
                let wg = upd_keypair k (\<lambda>kp. kp\<lparr>kp_aead_dec := Some u\<rparr>) (alloc_aead u wg) in
                if \<not> e_setkey_dec env then (False, wg)
                else (True, setkey_aead u (sk_key (kp_receiving (keypair_at wg k))) wg))"

definition session_keys :: "env \<Rightarrow> noise_handshake \<Rightarrow> noise_keypair \<Rightarrow> noise_keypair" where
  "session_keys env h kp =
     (let kp = kp\<lparr>kp_i_am_the_initiator := hs_state h = HANDSHAKE_CONSUMED_RESPONSE,
                  kp_remote_index := hs_remote_index h\<rparr>;
          (first_key, second_key) = derive_keys env (hs_chaining_key h) in
      if kp_i_am_the_initiator kp then kp\<lparr>kp_sending := first_key, kp_receiving := second_key\<rparr>
      else kp\<lparr>kp_receiving := first_key, kp_sending := second_key\<rparr>)"

definition wg_noise_handshake_begin_session :: "env \<Rightarrow> peer_id \<Rightarrow> wg_device \<Rightarrow> bool \<times> wg_device" where
  "wg_noise_handshake_begin_session env p wg =
     (let h = handshake_of wg p in
      if hs_state h \<noteq> HANDSHAKE_CREATED_RESPONSE \<and> hs_state h \<noteq> HANDSHAKE_CONSUMED_RESPONSE then (False, wg)
      else
        case keypair_create env p wg of
          (None, wg) \<Rightarrow> (False, wg)
        | (Some k, wg) \<Rightarrow>
            let wg = upd_keypair k (session_keys env h) wg;
                (ready, wg) = (if dv_is_chacha wg then (True, wg) else setup_aeads env k wg) in
            if \<not> ready then (False, keypair_free_rcu k wg)
            else
              let wg = upd_handshake p handshake_zero wg in
              if \<not> pe_is_dead (dv_peers wg p) then
                let wg = add_new_keypair p k wg;
                    (ret, tbl) = wg_index_hashtable_replace (dv_index_hashtable wg) (HandshakeEntry p) (KeypairEntry k)
                in (ret, wg\<lparr>dv_index_hashtable := tbl\<rparr>)
              else (False, kfree_keypair k wg))"

end
