(* ===== verification/WG_Handshake.thy ===== *)
theory WG_Handshake
  imports WG_Noise
begin

text \<open>
  The handshake works: the two sides of an exchange between interfaces that are configured
  for each other accept each other's messages, compute the same chaining key and hence
  derive matching session keys.
\<close>

section \<open>Specification\<close>

text \<open>Two environments on the same crypto library (with different clocks and random numbers).\<close>

definition same_crypto :: "env \<Rightarrow> env \<Rightarrow> bool" where
  "same_crypto e f \<longleftrightarrow>
     blake2s e = blake2s f \<and> curve25519 e = curve25519 f \<and>
     curve25519_generate_public e = curve25519_generate_public f \<and>
     chacha20poly1305_encrypt e = chacha20poly1305_encrypt f \<and>
     chacha20poly1305_decrypt e = chacha20poly1305_decrypt f"

text \<open>An identity whose public key belongs to its private key.\<close>

definition identity_ok :: "env \<Rightarrow> noise_static_identity \<Rightarrow> bool" where
  "identity_ok env si \<longleftrightarrow>
     si_has_identity si \<and> curve25519_generate_public env (si_private si) = Some (si_public si)"

text \<open>
  Two interfaces that are configured for each other: each has the other's public key and the
  precomputed exchange of the static keys, and both have the same preshared key.
\<close>

definition knows :: "env \<Rightarrow> wg_device \<Rightarrow> peer_id \<Rightarrow> wg_device \<Rightarrow> bool" where
  "knows env a p b \<longleftrightarrow>
     remote_static_of a p = si_public (dv_static_identity b) \<and>
     curve25519 env (si_private (dv_static_identity a)) (si_public (dv_static_identity b)) =
       Some (hs_precomputed_static_static (handshake_of a p))"

definition configured :: "env \<Rightarrow> wg_device \<Rightarrow> peer_id \<Rightarrow> wg_device \<Rightarrow> peer_id \<Rightarrow> bool" where
  "configured env a p b q \<longleftrightarrow>
     identity_ok env (dv_static_identity a) \<and> identity_ok env (dv_static_identity b) \<and>
     knows env a p b \<and> knows env b q a \<and>
     hs_preshared_key (handshake_of a p) = hs_preshared_key (handshake_of b q)"

text \<open>The index table of an interface when no handshake of the peer is linked wrongly.\<close>

definition handshake_entry_ok :: "wg_device \<Rightarrow> peer_id \<Rightarrow> bool" where
  "handshake_entry_ok wg p \<longleftrightarrow>
     index_ok (dv_index_hashtable wg) \<and> 0 < dv_refs wg p \<and>
     ie_peer (ih_entry (dv_index_hashtable wg) (HandshakeEntry p)) = Some p \<and>
     ie_type (ih_entry (dv_index_hashtable wg) (HandshakeEntry p)) = INDEX_HASHTABLE_HANDSHAKE"

text \<open>Two interfaces that are configured for each other.\<close>

definition demo_left :: wg_device where
  "demo_left = demo_with_peer (replicate 32 1) 1 (replicate 32 2)"

definition demo_right :: wg_device where
  "demo_right = demo_with_peer (replicate 32 2) 1 (replicate 32 1)"

section \<open>The two sides compute the same\<close>

lemma same_crypto_cong:
  assumes "same_crypto e f"
  shows "hmac e = hmac f" "kdf e = kdf f" "mix_dh e = mix_dh f" "mix_precomputed_dh e = mix_precomputed_dh f"
    "mix_hash e = mix_hash f" "mix_psk e = mix_psk f" "handshake_init e = handshake_init f"
    "message_encrypt e = message_encrypt f" "message_decrypt e = message_decrypt f"
    "message_ephemeral e = message_ephemeral f"
proof -
  have c: "blake2s e = blake2s f" "curve25519 e = curve25519 f"
    "chacha20poly1305_encrypt e = chacha20poly1305_encrypt f"
    "chacha20poly1305_decrypt e = chacha20poly1305_decrypt f"
    using assms by (simp_all add: same_crypto_def)
  have h: "hmac e = hmac f" by (intro ext) (unfold hmac_def c, rule refl)
  have k: "kdf e = kdf f" by (intro ext) (unfold kdf_def h, rule refl)
  have m: "mix_hash e = mix_hash f" by (intro ext) (unfold mix_hash_def c, rule refl)
  show "hmac e = hmac f" "kdf e = kdf f" "mix_hash e = mix_hash f" by fact+
  show "mix_dh e = mix_dh f" by (intro ext) (unfold mix_dh_def c k, rule refl)
  show "mix_precomputed_dh e = mix_precomputed_dh f" by (intro ext) (unfold mix_precomputed_dh_def k, rule refl)
  show "mix_psk e = mix_psk f" by (intro ext) (unfold mix_psk_def k m, rule refl)
  show "handshake_init e = handshake_init f"
    by (intro ext) (unfold handshake_init_def handshake_init_chaining_key_def handshake_init_hash_def c m, rule refl)
  show "message_encrypt e = message_encrypt f" by (intro ext) (unfold message_encrypt_def c m, rule refl)
  show "message_decrypt e = message_decrypt f" by (intro ext) (unfold message_decrypt_def c m, rule refl)
  show "message_ephemeral e = message_ephemeral f" by (intro ext) (unfold message_ephemeral_def k m, rule refl)
qed

lemma mix_dh_commutes:
  assumes "dh_commutes env" "curve25519_generate_public env a = Some pa"
    "curve25519_generate_public env b = Some pb"
  shows "mix_dh env ck w a pb = mix_dh env ck w b pa"
proof -
  have "curve25519 env a pb = curve25519 env b pa"
    by (rule assms(1) [unfolded dh_commutes_def, rule_format, OF assms(2,3)])
  then show ?thesis by (simp add: mix_dh_def)
qed

lemma decrypt_encrypt:
  "aead_correct env \<Longrightarrow> message_encrypt env m key hash = (c, hash') \<Longrightarrow>
   message_decrypt env c key hash = Some (m, hash')"
  by (auto simp: message_encrypt_def message_decrypt_def aead_correct_def Let_def)

lemma initiation_payload_elim:
  assumes "initiation_payload env si h = (Some (e, es, et), h')"
  obtains ck0 hh0 ck1 hh1 ck2 k2 hh2 ck3 k3 hh3 where
    "handshake_init env (hs_remote_static h) = (ck0, hh0)"
    "curve25519_generate_public env (curve25519_clamp_secret env (e_ephemeral env)) = Some e"
    "message_ephemeral env e ck0 hh0 = (ck1, hh1)"
    "mix_dh env ck1 True (curve25519_clamp_secret env (e_ephemeral env)) (hs_remote_static h) = Some (ck2, k2)"
    "message_encrypt env (si_public si) k2 hh1 = (es, hh2)"
    "mix_precomputed_dh env ck2 (hs_precomputed_static_static h) = Some (ck3, k3)"
    "message_encrypt env (tai64n_now env) k3 hh2 = (et, hh3)"
    "h' = h\<lparr>hs_ephemeral_private := curve25519_clamp_secret env (e_ephemeral env),
            hs_chaining_key := ck3, hs_hash := hh3\<rparr>"
  using assms by (auto simp: initiation_payload_def Let_def split: prod.splits option.splits)

lemma initiation_agrees:
  assumes laws: "aead_correct env" "dh_commutes env" "same_crypto env env'"
    and i: "initiation_payload env si h = (Some (e, es, et), h')"
    and r: "hs_remote_static h = si_public si'" "curve25519_generate_public env (si_private si') = Some (si_public si')"
    and pre: "hs_precomputed_static_static h' = hs_precomputed_static_static g"
    and m: "mi_unencrypted_ephemeral m = e" "mi_encrypted_static m = es" "mi_encrypted_timestamp m = et"
  shows "\<exists>ck hash. initiation_static env' si' m = Some (si_public si, ck, hash) \<and>
    initiation_timestamp env' g ck hash m = Some (tai64n_now env, hs_chaining_key h', hs_hash h')"
proof -
  obtain ck0 hh0 ck1 hh1 ck2 k2 hh2 ck3 k3 hh3 where p:
    "handshake_init env (hs_remote_static h) = (ck0, hh0)"
    "curve25519_generate_public env (curve25519_clamp_secret env (e_ephemeral env)) = Some e"
    "message_ephemeral env e ck0 hh0 = (ck1, hh1)"
    "mix_dh env ck1 True (curve25519_clamp_secret env (e_ephemeral env)) (hs_remote_static h) = Some (ck2, k2)"
    "message_encrypt env (si_public si) k2 hh1 = (es, hh2)"
    "mix_precomputed_dh env ck2 (hs_precomputed_static_static h) = Some (ck3, k3)"
    "message_encrypt env (tai64n_now env) k3 hh2 = (et, hh3)"
    "h' = h\<lparr>hs_ephemeral_private := curve25519_clamp_secret env (e_ephemeral env),
            hs_chaining_key := ck3, hs_hash := hh3\<rparr>"
    using initiation_payload_elim [OF i] .
  have dh: "mix_dh env ck1 True (si_private si') e = Some (ck2, k2)"
    using mix_dh_commutes [OF laws(2) r(2) p(2)] p(4) r(1) by simp
  note c = same_crypto_cong [OF laws(3)]
  note d1 = decrypt_encrypt [OF laws(1) p(5)] and d2 = decrypt_encrypt [OF laws(1) p(7)]
  have "initiation_static env' si' m = Some (si_public si, ck2, hh2)"
    unfolding initiation_static_def c [symmetric] m r(1) [symmetric] using p(1,3) dh d1 by simp
  moreover have "initiation_timestamp env' g ck2 hh2 m = Some (tai64n_now env, ck3, hh3)"
    unfolding initiation_timestamp_def c [symmetric] m using p(6,8) d2 pre by simp
  ultimately show ?thesis using p(8) by simp
qed

lemma response_payload_elim:
  assumes "response_payload env h = (Some (e, en), h')"
  obtains ck1 hh1 ck2 x2 ck3 x3 ck4 hh4 key hh5 where
    "curve25519_generate_public env (curve25519_clamp_secret env (e_ephemeral env)) = Some e"
    "message_ephemeral env e (hs_chaining_key h) (hs_hash h) = (ck1, hh1)"
    "mix_dh env ck1 False (curve25519_clamp_secret env (e_ephemeral env)) (hs_remote_ephemeral h) = Some (ck2, x2)"
    "mix_dh env ck2 False (curve25519_clamp_secret env (e_ephemeral env)) (hs_remote_static h) = Some (ck3, x3)"
    "mix_psk env ck3 hh1 (hs_preshared_key h) = (ck4, hh4, key)"
    "message_encrypt env [] key hh4 = (en, hh5)"
    "h' = h\<lparr>hs_ephemeral_private := curve25519_clamp_secret env (e_ephemeral env),
            hs_chaining_key := ck4, hs_hash := hh5\<rparr>"
  using assms by (auto simp: response_payload_def Let_def split: prod.splits option.splits)

lemma response_agrees:
  assumes laws: "aead_correct env" "dh_commutes env" "same_crypto env env'"
    and i: "response_payload env h = (Some (e, en), h')"
    and st: "hs_chaining_key g = hs_chaining_key h" "hs_hash g = hs_hash h" "hs_preshared_key g = hs_preshared_key h"
    and eph: "curve25519_generate_public env (hs_ephemeral_private g) = Some (hs_remote_ephemeral h)"
    and stat: "curve25519_generate_public env (si_private si) = Some (hs_remote_static h)"
    and m: "mr_unencrypted_ephemeral m = e" "mr_encrypted_nothing m = en"
  shows "response_open env' si g m = Some (hs_chaining_key h', hs_hash h')"
proof -
  obtain ck1 hh1 ck2 x2 ck3 x3 ck4 hh4 key hh5 where p:
    "curve25519_generate_public env (curve25519_clamp_secret env (e_ephemeral env)) = Some e"
    "message_ephemeral env e (hs_chaining_key h) (hs_hash h) = (ck1, hh1)"
    "mix_dh env ck1 False (curve25519_clamp_secret env (e_ephemeral env)) (hs_remote_ephemeral h) = Some (ck2, x2)"
    "mix_dh env ck2 False (curve25519_clamp_secret env (e_ephemeral env)) (hs_remote_static h) = Some (ck3, x3)"
    "mix_psk env ck3 hh1 (hs_preshared_key h) = (ck4, hh4, key)"
    "message_encrypt env [] key hh4 = (en, hh5)"
    "h' = h\<lparr>hs_ephemeral_private := curve25519_clamp_secret env (e_ephemeral env),
            hs_chaining_key := ck4, hs_hash := hh5\<rparr>"
    using response_payload_elim [OF i] .
  have "mix_dh env ck1 False (hs_ephemeral_private g) e = Some (ck2, x2)"
    using mix_dh_commutes [OF laws(2) eph p(1)] p(3) by simp
  moreover have "mix_dh env ck2 False (si_private si) e = Some (ck3, x3)"
    using mix_dh_commutes [OF laws(2) stat p(1)] p(4) by simp
  moreover note c = same_crypto_cong [OF laws(3)] and d = decrypt_encrypt [OF laws(1) p(6)]
  ultimately show ?thesis
    unfolding response_open_def c [symmetric] m st using p(2,5,7) by simp
qed


lemma same_crypto_laws:
  assumes "same_crypto e f"
  shows "aead_correct e = aead_correct f" "dh_commutes e = dh_commutes f" "same_crypto f e"
    "curve25519_generate_public e = curve25519_generate_public f"
  using assms by (auto simp: same_crypto_def aead_correct_def dh_commutes_def)

lemma same_crypto_trans: "same_crypto e f \<Longrightarrow> same_crypto e g \<Longrightarrow> same_crypto f g"
  by (simp add: same_crypto_def)

lemma session_keys_match:
  assumes "same_crypto e f" "hs_chaining_key h = hs_chaining_key g"
    and "hs_state h = HANDSHAKE_CONSUMED_RESPONSE" "hs_state g = HANDSHAKE_CREATED_RESPONSE"
  shows "sk_key (kp_sending (session_keys e h kp)) = sk_key (kp_receiving (session_keys f g kp'))"
    "sk_key (kp_receiving (session_keys e h kp)) = sk_key (kp_sending (session_keys f g kp'))"
    "kp_i_am_the_initiator (session_keys e h kp)" "\<not> kp_i_am_the_initiator (session_keys f g kp')"
    "kp_remote_index (session_keys e h kp) = hs_remote_index h"
    "kp_remote_index (session_keys f g kp') = hs_remote_index g"
  using assms(2-) same_crypto_cong(2) [OF assms(1)]
  by (simp_all add: session_keys_def derive_keys_def Let_def split: prod.split)

section \<open>The index of a handshake\<close>

lemma search_unused_slot_entry:
  assumes "index_ok tbl" "\<not> linked tbl e" "attempts_fair e attempts"
    and "search_unused_slot attempts tbl e = Some (i, tbl')"
  shows "ie_peer (ih_entry tbl' e) = ie_peer (ih_entry tbl e) \<and> ie_type (ih_entry tbl' e) = ie_type (ih_entry tbl e)"
  using assms
proof (induction attempts arbitrary: tbl)
  case (Cons a later)
  let ?tbl = "set_index (ia_before a tbl) e (ia_random a)"
  have f: "leaves_alone e (ia_before a)" "leaves_alone e (ia_between a)" "attempts_fair e later"
    using Cons.prems(3) by (auto simp: attempts_fair_def)
  have b: "index_ok (ia_before a tbl)" "\<not> linked (ia_before a tbl) e" "ih_entry (ia_before a tbl) e = ih_entry tbl e"
    using f(1) Cons.prems(1,2) by (auto simp: leaves_alone_def)
  then have t: "index_ok ?tbl" "\<not> linked ?tbl e" "ie_peer (ih_entry ?tbl e) = ie_peer (ih_entry tbl e)"
    "ie_type (ih_entry ?tbl e) = ie_type (ih_entry tbl e)"
    using set_index_unlinked [OF b(1,2)] by (auto simp: set_index_def)
  then have u: "index_ok (ia_between a ?tbl)" "\<not> linked (ia_between a ?tbl) e"
    "ih_entry (ia_between a ?tbl) e = ih_entry ?tbl e"
    using f(2) unfolding leaves_alone_def by metis+
  consider tbl2 where "tbl2 = ?tbl \<or> tbl2 = ia_between a ?tbl" "search_unused_slot later tbl2 e = Some (i, tbl')"
    | "tbl' = index_link (ia_between a ?tbl) i e"
    using Cons.prems(4) by (auto simp: Let_def split: if_splits)
  then show ?case
  proof cases
    case 1
    then have "ie_peer (ih_entry tbl' e) = ie_peer (ih_entry tbl2 e) \<and> ie_type (ih_entry tbl' e) = ie_type (ih_entry tbl2 e)"
      using Cons.IH [of tbl2] t(1,2) u(1,2) f(3) by blast
    then show ?thesis using 1(1) t(3,4) u(3) by auto
  next
    case 2
    then have "ih_entry tbl' e = ih_entry ?tbl e" using u(3) by (simp add: index_link_def)
    then show ?thesis using t(3,4) by simp
  qed
qed simp

lemma index_insert_entry:
  assumes "index_ok tbl" "attempts_fair e attempts"
    and "wg_index_hashtable_insert attempts tbl e = Some (i, tbl')"
  shows "index_ok tbl'" "index_find tbl' i = Some e" "ie_peer (ih_entry tbl' e) = ie_peer (ih_entry tbl e)"
    "ie_type (ih_entry tbl' e) = ie_type (ih_entry tbl e)"
proof -
  obtain tbl1 where t: "index_ok tbl1" "\<not> linked tbl1 e \<and> ie_index (ih_entry tbl1 e) = i \<and> index_find tbl1 i = None"
    "tbl' = index_link tbl1 i e" using insert_ok [OF assms] by blast
  then show "index_ok tbl'" "index_find tbl' i = Some e"
    using idx.add_ok [OF t(1,2)] idx.look_add [OF t(1,2)] by auto
  let ?t = "wg_index_hashtable_remove tbl e"
  have "ie_peer (ih_entry tbl' e) = ie_peer (ih_entry ?t e) \<and> ie_type (ih_entry tbl' e) = ie_type (ih_entry ?t e)"
  proof (rule search_unused_slot_entry [OF _ _ assms(2)])
    show "index_ok ?t" "\<not> linked ?t e" using index_unlink_ok [OF assms(1)] by auto
    show "search_unused_slot attempts ?t e = Some (i, tbl')"
      using assms(3) by (simp add: wg_index_hashtable_insert_def wg_index_hashtable_remove_def Let_def)
  qed
  then show "ie_peer (ih_entry tbl' e) = ie_peer (ih_entry tbl e)" "ie_type (ih_entry tbl' e) = ie_type (ih_entry tbl e)"
    by (simp_all add: wg_index_hashtable_remove_def)
qed

lemma index_lookup_hit:
  assumes "index_find tbl i = Some e" "ie_type (ih_entry tbl e) AND type_mask \<noteq> 0"
    "ie_peer (ih_entry tbl e) = Some p" "0 < refs p"
  shows "\<exists>tbl'. wg_index_hashtable_lookup tbl refs type_mask i = (Some (e, p), tbl', kref_get refs p)"
  using assms by (simp add: wg_index_hashtable_lookup_def)

section \<open>The steps of an exchange\<close>

lemma handshake_of_upd [simp]:
  "handshake_of (upd_handshake p f wg) q = (if q = p then f (handshake_of wg p) else handshake_of wg q)"
  "handshake_of (wg\<lparr>dv_index_hashtable := t\<rparr>) q = handshake_of wg q"
  "handshake_of (wg\<lparr>dv_refs := r\<rparr>) q = handshake_of wg q"
  "handshake_of (wg_peer_put x wg) q = handshake_of wg q"
  by (simp_all add: handshake_of_def)

lemma create_initiation_elim:
  assumes "wg_noise_handshake_create_initiation env p wg = Some (Some m, wg')"
  obtains e es et h i tbl where
    "si_has_identity (dv_static_identity wg)"
    "initiation_payload env (dv_static_identity wg) (handshake_of wg p) = (Some (e, es, et), h)"
    "wg_index_hashtable_insert (e_attempts env) (dv_index_hashtable wg) (HandshakeEntry p) = Some (i, tbl)"
    "m = \<lparr>mi_type = MESSAGE_HANDSHAKE_INITIATION, mi_sender_index = i, mi_unencrypted_ephemeral = e,
       mi_encrypted_static = es, mi_encrypted_timestamp = et, mi_macs = no_macs\<rparr>"
    "wg' = set_handshake p (h\<lparr>hs_state := HANDSHAKE_CREATED_INITIATION\<rparr>) (wg\<lparr>dv_index_hashtable := tbl\<rparr>)"
  using assms
  by (auto simp: wg_noise_handshake_create_initiation_def Let_def split: if_splits prod.splits option.splits bind_splits)

lemma create_response_elim:
  assumes "wg_noise_handshake_create_response env p wg = Some (Some m, wg')"
  obtains e en h i tbl where
    "response_payload env (handshake_of wg p) = (Some (e, en), h)"
    "hs_state (handshake_of wg p) = HANDSHAKE_CONSUMED_INITIATION"
    "wg_index_hashtable_insert (e_attempts env) (dv_index_hashtable wg) (HandshakeEntry p) = Some (i, tbl)"
    "m = \<lparr>mr_type = MESSAGE_HANDSHAKE_RESPONSE, mr_sender_index = i, mr_receiver_index = hs_remote_index h,
       mr_unencrypted_ephemeral = e, mr_encrypted_nothing = en, mr_macs = no_macs\<rparr>"
    "wg' = set_handshake p (h\<lparr>hs_state := HANDSHAKE_CREATED_RESPONSE\<rparr>) (wg\<lparr>dv_index_hashtable := tbl\<rparr>)"
  using assms
  by (auto simp: wg_noise_handshake_create_response_def Let_def split: if_splits prod.splits option.splits bind_splits)

lemma consume_initiation_accepts:
  assumes "si_has_identity (dv_static_identity b)"
    and "initiation_static env (dv_static_identity b) m = Some (s, ck, hash)"
    and "fst (wg_pubkey_hashtable_lookup (siphash env) (remote_static_of b) (dv_peer_hashtable b) (dv_refs b) s) = Some q"
    and "initiation_timestamp env (handshake_of b q) ck hash m = Some (t, ck', hash')"
    and "\<not> initiation_rejected env (handshake_of b q) t"
  shows "\<exists>refs. wg_noise_handshake_consume_initiation env between m b =
    (Some q, upd_handshake q (initiation_accept env m t ck' hash') (between (b\<lparr>dv_refs := refs\<rparr>)))"
proof -
  obtain refs where "wg_pubkey_hashtable_lookup (siphash env) (remote_static_of b) (dv_peer_hashtable b) (dv_refs b) s =
    (Some q, refs)" using assms(3) by (metis prod.collapse)
  then show ?thesis
    using assms by (intro exI [of _ refs]) (simp add: wg_noise_handshake_consume_initiation_def Let_def)
qed

lemma consume_response_accepts:
  assumes "si_has_identity (dv_static_identity a)"
    and "index_find (dv_index_hashtable a) (mr_receiver_index m) = Some (HandshakeEntry p)"
    and "handshake_entry_ok a p"
    and "hs_state (handshake_of a p) = HANDSHAKE_CREATED_INITIATION"
    and "response_open env (dv_static_identity a) (handshake_of a p) m = Some (ck, hash)"
  shows "\<exists>tbl refs. wg_noise_handshake_consume_response env id m a =
    (Some p, upd_handshake p (response_accept m ck hash) (a\<lparr>dv_index_hashtable := tbl, dv_refs := refs\<rparr>))"
proof -
  have "(INDEX_HASHTABLE_HANDSHAKE AND INDEX_HASHTABLE_HANDSHAKE) \<noteq> 0" by (simp add: INDEX_HASHTABLE_HANDSHAKE_def)
  then obtain tbl where "wg_index_hashtable_lookup (dv_index_hashtable a) (dv_refs a) INDEX_HASHTABLE_HANDSHAKE
      (mr_receiver_index m) = (Some (HandshakeEntry p, p), tbl, kref_get (dv_refs a) p)"
    using index_lookup_hit [OF assms(2), of INDEX_HASHTABLE_HANDSHAKE p "dv_refs a"] assms(3)
    by (auto simp: handshake_entry_ok_def)
  moreover have "handshake_of (a\<lparr>dv_index_hashtable := t, dv_refs := r\<rparr>) p = handshake_of a p" for t r
    by (simp add: handshake_of_def)
  ultimately show ?thesis
    using assms(1,4,5) by (auto simp: wg_noise_handshake_consume_response_def Let_def peer_of_entry_def)
qed


lemma initiation_accept_simps [simp]:
  "hs_chaining_key (initiation_accept env m t ck hash h) = ck" "hs_hash (initiation_accept env m t ck hash h) = hash"
  "hs_remote_ephemeral (initiation_accept env m t ck hash h) = mi_unencrypted_ephemeral m"
  "hs_remote_static (initiation_accept env m t ck hash h) = hs_remote_static h"
  "hs_preshared_key (initiation_accept env m t ck hash h) = hs_preshared_key h"
  "hs_remote_index (initiation_accept env m t ck hash h) = mi_sender_index m"
  "hs_state (initiation_accept env m t ck hash h) = HANDSHAKE_CONSUMED_INITIATION"
  by (simp_all add: initiation_accept_def Let_def)

lemma payload_keeps:
  "initiation_payload env si h = (r, h') \<Longrightarrow>
     hs_preshared_key h' = hs_preshared_key h \<and> hs_precomputed_static_static h' = hs_precomputed_static_static h"
  "response_payload env h = (r2, h') \<Longrightarrow> hs_remote_index h' = hs_remote_index h"
  by (auto simp: initiation_payload_def response_payload_def Let_def split: prod.splits option.splits)

lemma payload_ephemeral:
  "initiation_payload env si h = (Some (e, es, et), h') \<Longrightarrow>
     curve25519_generate_public env (hs_ephemeral_private h') = Some e"
  by (erule initiation_payload_elim) simp

text \<open>The responder's state after it accepted an initiation of a configured initiator.\<close>

lemma responder_accepts:
  assumes laws: "aead_correct env" "dh_commutes env" "same_crypto env env2" and c: "configured env a p b q"
    and i: "initiation_payload env (dv_static_identity a) (handshake_of a p) = (Some (e, es, et), h)"
    and m: "mi_unencrypted_ephemeral m = e" "mi_encrypted_static m = es" "mi_encrypted_timestamp m = et"
    and l: "fst (wg_pubkey_hashtable_lookup (siphash env2) (remote_static_of b) (dv_peer_hashtable b) (dv_refs b)
      (si_public (dv_static_identity a))) = Some q"
    and t: "\<not> initiation_rejected env2 (handshake_of b q) (tai64n_now env)"
  shows "\<exists>refs. wg_noise_handshake_consume_initiation env2 between m b =
    (Some q, upd_handshake q (initiation_accept env2 m (tai64n_now env) (hs_chaining_key h) (hs_hash h))
       (between (b\<lparr>dv_refs := refs\<rparr>)))"
proof -
  have b: "si_has_identity (dv_static_identity b)"
    "curve25519_generate_public env (si_private (dv_static_identity b)) = Some (si_public (dv_static_identity b))"
    "curve25519_generate_public env (si_private (dv_static_identity a)) = Some (si_public (dv_static_identity a))"
    using c by (simp_all add: configured_def identity_ok_def)
  have rs: "hs_remote_static (handshake_of a p) = si_public (dv_static_identity b)"
    using c by (simp add: configured_def knows_def remote_static_of_def)
  have "Some (hs_precomputed_static_static (handshake_of a p)) = Some (hs_precomputed_static_static (handshake_of b q))"
    using c unfolding configured_def knows_def laws(2) [unfolded dh_commutes_def, rule_format, OF b(3,2)] by argo
  then have pre: "hs_precomputed_static_static h = hs_precomputed_static_static (handshake_of b q)"
    using payload_keeps(1) [OF i] by simp
  obtain ck hash where "initiation_static env2 (dv_static_identity b) m = Some (si_public (dv_static_identity a), ck, hash)"
    "initiation_timestamp env2 (handshake_of b q) ck hash m = Some (tai64n_now env, hs_chaining_key h, hs_hash h)"
    using initiation_agrees [OF laws i rs b(2) pre m] by blast
  then show ?thesis using consume_initiation_accepts [OF b(1) _ l _ t] by blast
qed

text \<open>
  C23. The handshake agrees on keys: for two interfaces configured for each other, the
  responder accepts a fresh initiation, the initiator accepts the response to it, and the
  session keys both sides then derive match crosswise; each side knows the index the
  other one listens on, and exactly the initiator regards itself as such.
\<close>

theorem handshake_key_agreement:
  assumes "aead_correct env" "dh_commutes env" "configured env a p b q"
    and "list_all (same_crypto env) [env2, env3, env4, env5, env6]"
    and "handshake_entry_ok a p" "attempts_fair (HandshakeEntry p) (e_attempts env)"
    and "wg_noise_handshake_create_initiation env p a = Some (Some m1, a1)"
    and "fst (wg_pubkey_hashtable_lookup (siphash env2) (remote_static_of b) (dv_peer_hashtable b) (dv_refs b)
      (si_public (dv_static_identity a))) = Some q"
    and "\<not> initiation_rejected env2 (handshake_of b q) (tai64n_now env)"
    and "wg_noise_handshake_consume_initiation env2 id m1 b = (r, b1)"
    and "wg_noise_handshake_create_response env3 q b1 = Some (Some m2, b2)"
    and "wg_noise_handshake_consume_response env4 id m2 a1 = (r', a2)"
  shows "r = Some q \<and> r' = Some p \<and>
    (let ka = session_keys env5 (handshake_of a2 p) kp; kb = session_keys env6 (handshake_of b2 q) kp' in
     sk_key (kp_sending ka) = sk_key (kp_receiving kb) \<and> sk_key (kp_receiving ka) = sk_key (kp_sending kb) \<and>
     kp_i_am_the_initiator ka \<and> \<not> kp_i_am_the_initiator kb \<and>
     kp_remote_index ka = mr_sender_index m2 \<and> kp_remote_index kb = mi_sender_index m1)"
proof -
  have sc: "same_crypto env env2" "same_crypto env env3" "same_crypto env3 env4" "same_crypto env5 env6"
    using assms(4) same_crypto_trans by auto
  obtain e es et h i tbl where c1: "si_has_identity (dv_static_identity a)"
    "initiation_payload env (dv_static_identity a) (handshake_of a p) = (Some (e, es, et), h)"
    "wg_index_hashtable_insert (e_attempts env) (dv_index_hashtable a) (HandshakeEntry p) = Some (i, tbl)"
    and m1: "m1 = \<lparr>mi_type = MESSAGE_HANDSHAKE_INITIATION, mi_sender_index = i, mi_unencrypted_ephemeral = e,
       mi_encrypted_static = es, mi_encrypted_timestamp = et, mi_macs = no_macs\<rparr>"
    and a1: "a1 = set_handshake p (h\<lparr>hs_state := HANDSHAKE_CREATED_INITIATION\<rparr>) (a\<lparr>dv_index_hashtable := tbl\<rparr>)"
    using create_initiation_elim [OF assms(7)] .
  obtain refs where b1: "r = Some q"
    "b1 = upd_handshake q (initiation_accept env2 m1 (tai64n_now env) (hs_chaining_key h) (hs_hash h)) (b\<lparr>dv_refs := refs\<rparr>)"
    using responder_accepts [OF assms(1,2) sc(1) assms(3) c1(2) _ _ _ assms(8,9), of m1 id] assms(10) m1 by auto
  obtain e2 en h2 j tbl2 where c2: "response_payload env3 (handshake_of b1 q) = (Some (e2, en), h2)"
    and m2: "m2 = \<lparr>mr_type = MESSAGE_HANDSHAKE_RESPONSE, mr_sender_index = j, mr_receiver_index = hs_remote_index h2,
       mr_unencrypted_ephemeral = e2, mr_encrypted_nothing = en, mr_macs = no_macs\<rparr>"
    and b2: "b2 = set_handshake q (h2\<lparr>hs_state := HANDSHAKE_CREATED_RESPONSE\<rparr>) (b1\<lparr>dv_index_hashtable := tbl2\<rparr>)"
    using create_response_elim [OF assms(11)] .
  have h2: "hs_remote_index h2 = i" using payload_keeps(2) [OF c2] b1(2) m1 by simp
  have laws3: "aead_correct env3" "dh_commutes env3" using assms(1,2) same_crypto_laws [OF sc(2)] by simp_all
  have open_ok: "response_open env4 (dv_static_identity a1) (handshake_of a1 p) m2 = Some (hs_chaining_key h2, hs_hash h2)"
  proof (rule response_agrees [OF laws3 sc(3) c2])
    show "curve25519_generate_public env3 (hs_ephemeral_private (handshake_of a1 p)) =
        Some (hs_remote_ephemeral (handshake_of b1 q))"
      using payload_ephemeral [OF c1(2)] same_crypto_laws(4) [OF sc(2)] b1(2) a1 m1 by simp
    show "curve25519_generate_public env3 (si_private (dv_static_identity a1)) = Some (hs_remote_static (handshake_of b1 q))"
      using assms(3) same_crypto_laws(4) [OF sc(2)] b1(2) a1
      by (simp add: configured_def identity_ok_def knows_def remote_static_of_def)
  qed (use b1(2) a1 m2 payload_keeps(1) [OF c1(2)] assms(3) in \<open>simp_all add: configured_def\<close>)
  note ent = index_insert_entry [OF _ assms(6) c1(3)]
  have "index_find (dv_index_hashtable a1) (mr_receiver_index m2) = Some (HandshakeEntry p)" "handshake_entry_ok a1 p"
    using ent assms(5) a1 m2 h2 by (simp_all add: handshake_entry_ok_def)
  from consume_response_accepts [OF _ this _ open_ok] have a2: "r' = Some p"
    "handshake_of a2 p = response_accept m2 (hs_chaining_key h2) (hs_hash h2) (handshake_of a1 p)"
    using assms(12) a1 c1(1) by (auto simp: handshake_of_def)
  note k = session_keys_match [OF sc(4), of "handshake_of a2 p" "handshake_of b2 q"]
  show ?thesis
    using b1(1) a2 k m1 m2 h2 b2 by (simp add: Let_def response_accept_def)
qed


lemma demo_exchange_succeeds:
  "hs_precomputed_static_static h \<noteq> replicate 32 0 \<Longrightarrow>
     \<exists>e es et h'. initiation_payload demo_env si h = (Some (e, es, et), h')"
  "\<exists>e en h'. response_payload demo_env h = (Some (e, en), h')"
  by (simp_all add: initiation_payload_def response_payload_def mix_dh_def mix_precomputed_dh_def Let_def
      NOISE_PUBLIC_KEY_LEN_def demo_env_def split: prod.splits)

lemma demo_index_insert:
  "hl_first (ih_hashtable tbl) = (\<lambda>_. []) \<Longrightarrow> hl_pprev (ih_hashtable tbl) = (\<lambda>_. None) \<Longrightarrow>
     \<exists>i tbl'. wg_index_hashtable_insert (e_attempts demo_env) tbl e = Some (i, tbl')"
  by (simp add: wg_index_hashtable_insert_def demo_env_def Let_def hlist_del_init_def hlist_unhashed_def
      set_index_def index_find_def)


lemmas demo_pair_defs = demo_left_def demo_right_def demo_defs

lemma demo_pair_configured: "configured demo_env demo_left 1 demo_right 1"
  by (simp add: configured_def identity_ok_def knows_def remote_static_of_def handshake_of_def demo_pair_defs zip_replicate)

lemma demo_pair_index: "handshake_entry_ok demo_left 1" "attempts_fair e (e_attempts demo_env)"
  by (simp_all add: handshake_entry_ok_def index_ok_def hlists_ok_def linked_def attempts_fair_def leaves_alone_def
      demo_pair_defs)

lemma demo_pair_lookup:
  "fst (wg_pubkey_hashtable_lookup (siphash demo_env) (remote_static_of demo_right) (dv_peer_hashtable demo_right)
     (dv_refs demo_right) (si_public (dv_static_identity demo_left))) = Some 1"
  by (simp add: wg_pubkey_hashtable_lookup_def pubkey_find_def wg_pubkey_hashtable_add_def pubkey_bucket_def
      hlist_add_head_def remote_static_of_def handshake_of_def wg_peer_get_maybe_zero_def demo_pair_defs)

lemma demo_timestamp: "hd (tai64n_now demo_env) = 64" "tai64n_now demo_env \<noteq> []"
  by (simp_all add: tai64n_now_def demo_env_def store_le_def hd_rev last_map last_upt)

lemma demo_pair_fresh: "\<not> initiation_rejected demo_env (handshake_of demo_right 1) (tai64n_now demo_env)"
proof -
  obtain ts where "tai64n_now demo_env = 64 # ts" using demo_timestamp by (cases "tai64n_now demo_env") auto
  moreover have "hs_latest_timestamp (handshake_of demo_right 1) = 0 # replicate 11 0"
    "hs_last_initiation_consumption (handshake_of demo_right 1) = 0" "e_boottime demo_env = 1000000000000"
    by (simp_all add: handshake_of_def demo_pair_defs NOISE_TIMESTAMP_LEN_def replicate_Suc [symmetric] del: replicate_Suc)
  ultimately show ?thesis
    by (simp add: initiation_rejected_def NSEC_PER_SEC_def INITIATIONS_PER_SECOND_def)
qed

lemma demo_pair_tables:
  "hl_first (ih_hashtable (dv_index_hashtable demo_left)) = (\<lambda>_. [])"
  "hl_pprev (ih_hashtable (dv_index_hashtable demo_left)) = (\<lambda>_. None)"
  "hl_first (ih_hashtable (dv_index_hashtable demo_right)) = (\<lambda>_. [])"
  "hl_pprev (ih_hashtable (dv_index_hashtable demo_right)) = (\<lambda>_. None)"
  "si_has_identity (dv_static_identity demo_left)"
  "hs_precomputed_static_static (handshake_of demo_left 1) \<noteq> replicate 32 0"
  by (simp_all add: handshake_of_def demo_pair_defs zip_replicate)

lemma demo_exchange:
  obtains m1 a1 b1 m2 b2 where
    "wg_noise_handshake_create_initiation demo_env 1 demo_left = Some (Some m1, a1)"
    "wg_noise_handshake_consume_initiation demo_env id m1 demo_right = (Some 1, b1)"
    "wg_noise_handshake_create_response demo_env 1 b1 = Some (Some m2, b2)"
proof -
  obtain m1 a1 where c: "wg_noise_handshake_create_initiation demo_env 1 demo_left = Some (Some m1, a1)"
    using demo_exchange_succeeds(1) [OF demo_pair_tables(6), of "dv_static_identity demo_left"]
      demo_index_insert [OF demo_pair_tables(1,2), of "HandshakeEntry 1"] demo_pair_tables(5)
    by (auto simp: wg_noise_handshake_create_initiation_def)
  have sc: "same_crypto demo_env demo_env" by (simp add: same_crypto_def)
  obtain e es et h i tbl where
    "initiation_payload demo_env (dv_static_identity demo_left) (handshake_of demo_left 1) = (Some (e, es, et), h)"
    "m1 = \<lparr>mi_type = MESSAGE_HANDSHAKE_INITIATION, mi_sender_index = i, mi_unencrypted_ephemeral = e,
       mi_encrypted_static = es, mi_encrypted_timestamp = et, mi_macs = no_macs\<rparr>"
    using create_initiation_elim [OF c] by metis
  then obtain refs where r: "wg_noise_handshake_consume_initiation demo_env id m1 demo_right =
    (Some 1, upd_handshake 1 (initiation_accept demo_env m1 (tai64n_now demo_env) (hs_chaining_key h) (hs_hash h))
       (id (demo_right\<lparr>dv_refs := refs\<rparr>)))"
    using responder_accepts [OF demo_env_laws(3,4) sc demo_pair_configured _ _ _ _ demo_pair_lookup demo_pair_fresh,
        of e es et h m1 id] by auto
  define b1 where "b1 = upd_handshake 1 (initiation_accept demo_env m1 (tai64n_now demo_env) (hs_chaining_key h) (hs_hash h))
       (id (demo_right\<lparr>dv_refs := refs\<rparr>))"
  then have b: "wg_noise_handshake_consume_initiation demo_env id m1 demo_right = (Some 1, b1)"
    "hs_state (handshake_of b1 1) = HANDSHAKE_CONSUMED_INITIATION"
    "dv_index_hashtable b1 = dv_index_hashtable demo_right"
    using r by simp_all
  obtain m2 b2 where "wg_noise_handshake_create_response demo_env 1 b1 = Some (Some m2, b2)"
    using demo_exchange_succeeds(2) [of "handshake_of b1 1"] b(2,3)
      demo_index_insert [OF demo_pair_tables(3,4), of "HandshakeEntry 1"]
    by (auto simp: wg_noise_handshake_create_response_def)
  with c b(1) that show thesis by blast
qed

theorem handshake_key_agreement_witness:
  "\<exists>m1 a1 b1 m2 b2 a2.
     wg_noise_handshake_create_initiation demo_env 1 demo_left = Some (Some m1, a1) \<and>
     wg_noise_handshake_consume_initiation demo_env id m1 demo_right = (Some 1, b1) \<and>
     wg_noise_handshake_create_response demo_env 1 b1 = Some (Some m2, b2) \<and>
     wg_noise_handshake_consume_response demo_env id m2 a1 = (Some 1, a2) \<and>
     sk_key (kp_sending (session_keys demo_env (handshake_of a2 1) zero_keypair)) =
     sk_key (kp_receiving (session_keys demo_env (handshake_of b2 1) zero_keypair))"
proof -
  obtain m1 a1 b1 m2 b2 where s: "wg_noise_handshake_create_initiation demo_env 1 demo_left = Some (Some m1, a1)"
    "wg_noise_handshake_consume_initiation demo_env id m1 demo_right = (Some 1, b1)"
    "wg_noise_handshake_create_response demo_env 1 b1 = Some (Some m2, b2)" using demo_exchange .
  obtain r a2 where c: "wg_noise_handshake_consume_response demo_env id m2 a1 = (r, a2)" by fastforce
  have "list_all (same_crypto demo_env) [demo_env, demo_env, demo_env, demo_env, demo_env]" by (simp add: same_crypto_def)
  from handshake_key_agreement [OF demo_env_laws(3,4) demo_pair_configured this demo_pair_index s(1) demo_pair_lookup
      demo_pair_fresh s(2,3) c, of zero_keypair zero_keypair]
  show ?thesis using s c by (auto simp: Let_def)
qed

end
