(* ===== verification/WG_NoiseRuns.thy ===== *)
theory WG_NoiseRuns
  imports WG_Handshake
begin

text \<open>
  The order of handshake messages. A run of an interface is a sequence of handshake
  operations, on any peers, with arbitrary other activity in between and with other
  operations running while \<^verbatim>\<open>wg_noise_handshake_consume_initiation\<close> and
  \<^verbatim>\<open>wg_noise_handshake_consume_response\<close> have dropped the lock of the handshake. Every run
  goes through the states of the handshake in the order of the protocol, and an initiation
  that was accepted once is never accepted again.
\<close>

section \<open>Runs\<close>

datatype noise_event =
    SentInitiation peer_id
  | AcceptedInitiation peer_id
  | SentResponse peer_id
  | AcceptedResponse peer_id
  | BeganSession peer_id
  | Cleared peer_id

text \<open>The length of a decrypted text, as the library documents it.\<close>

definition aead_lengths :: "env \<Rightarrow> bool" where
  "aead_lengths env \<longleftrightarrow>
     (\<forall>k n ad c m. chacha20poly1305_decrypt env k n ad c = Some m \<longrightarrow> length m = length c - 16)"

text \<open>Two states that differ in nothing that belongs to a handshake.\<close>

definition same_noise :: "wg_device \<Rightarrow> wg_device \<Rightarrow> bool" where
  "same_noise v w \<longleftrightarrow>
     (\<forall>p. handshake_of w p = handshake_of v p) \<and> dv_static_identity w = dv_static_identity v \<and>
     dv_peer_hashtable w = dv_peer_hashtable v"

text \<open>Whether a response gets as far as the second acquisition of the lock.\<close>

definition response_checked :: "env \<Rightarrow> message_handshake_response \<Rightarrow> wg_device \<Rightarrow> bool" where
  "response_checked env m wg \<longleftrightarrow>
     si_has_identity (dv_static_identity wg) \<and>
     (case fst (wg_index_hashtable_lookup (dv_index_hashtable wg) (dv_refs wg) INDEX_HASHTABLE_HANDSHAKE (mr_receiver_index m)) of
        None \<Rightarrow> False
      | Some (entry, p) \<Rightarrow>
          let h = handshake_of wg (peer_of_entry entry p)
          in hs_state h = HANDSHAKE_CREATED_INITIATION \<and> response_open env (dv_static_identity wg) h m \<noteq> None)"

text \<open>Entries of the index table that belong to a handshake have its peer.\<close>

definition entries_ok :: "wg_device \<Rightarrow> bool" where
  "entries_ok wg \<longleftrightarrow> (\<forall>q p. ie_peer (ih_entry (dv_index_hashtable wg) (HandshakeEntry q)) = Some p \<longrightarrow> p = q)"

inductive noise_run :: "wg_device \<Rightarrow> noise_event list \<Rightarrow> wg_device \<Rightarrow> bool" where
  run_nil: "noise_run wg [] wg"
| run_other: "noise_run wg evs wg1 \<Longrightarrow> same_noise wg1 wg2 \<Longrightarrow> noise_run wg evs wg2"
| run_send_initiation:
    "noise_run wg evs wg1 \<Longrightarrow> wg_noise_handshake_create_initiation env p wg1 = Some (r, wg2) \<Longrightarrow>
     noise_run wg (evs @ (if r = None then [] else [SentInitiation p])) wg2"
| run_receive_initiation:
    "noise_run wg evs wg1 \<Longrightarrow> (\<forall>w. same_noise wg1 w \<longrightarrow> noise_run w others (between w)) \<Longrightarrow>
     aead_lengths env \<Longrightarrow> length (mi_encrypted_timestamp m) = noise_encrypted_len NOISE_TIMESTAMP_LEN \<Longrightarrow>
     wg_noise_handshake_consume_initiation env between m wg1 = (r, wg2) \<Longrightarrow>
     noise_run wg (evs @ (case r of None \<Rightarrow> [] | Some p \<Rightarrow> others @ [AcceptedInitiation p])) wg2"
| run_send_response:
    "noise_run wg evs wg1 \<Longrightarrow> wg_noise_handshake_create_response env p wg1 = Some (r, wg2) \<Longrightarrow>
     noise_run wg (evs @ (if r = None then [] else [SentResponse p])) wg2"
| run_receive_response:
    "noise_run wg evs wg1 \<Longrightarrow> (\<forall>w. same_noise wg1 w \<longrightarrow> noise_run w others (between w)) \<Longrightarrow> entries_ok wg1 \<Longrightarrow>
     wg_noise_handshake_consume_response env between m wg1 = (r, wg2) \<Longrightarrow>
     noise_run wg (evs @ (if response_checked env m wg1 then others else []) @
       (case r of None \<Rightarrow> [] | Some p \<Rightarrow> [AcceptedResponse p])) wg2"
| run_begin_session:
    "noise_run wg evs wg1 \<Longrightarrow> wg_noise_handshake_begin_session env p wg1 = (r, wg2) \<Longrightarrow>
     noise_run wg (evs @ (if r then [BeganSession p]
       else if hs_state (handshake_of wg2 p) = HANDSHAKE_ZEROED then [Cleared p] else [])) wg2"
| run_clear: "noise_run wg evs wg1 \<Longrightarrow> noise_run wg (evs @ [Cleared p]) (wg_noise_handshake_clear p wg1)"
| run_expire:
    "noise_run wg evs wg1 \<Longrightarrow> noise_run wg (evs @ [Cleared p]) (wg_noise_expire_current_peer_keypairs env p wg1)"

section \<open>The order of events\<close>

text \<open>The state of the handshake of \<open>p\<close> after an event, and the state an event needs.\<close>

fun next_state :: "peer_id \<Rightarrow> noise_handshake_state \<Rightarrow> noise_event \<Rightarrow> noise_handshake_state" where
  "next_state p s (SentInitiation q) = (if q = p then HANDSHAKE_CREATED_INITIATION else s)"
| "next_state p s (AcceptedInitiation q) = (if q = p then HANDSHAKE_CONSUMED_INITIATION else s)"
| "next_state p s (SentResponse q) = (if q = p then HANDSHAKE_CREATED_RESPONSE else s)"
| "next_state p s (AcceptedResponse q) = (if q = p then HANDSHAKE_CONSUMED_RESPONSE else s)"
| "next_state p s (BeganSession q) = (if q = p then HANDSHAKE_ZEROED else s)"
| "next_state p s (Cleared q) = (if q = p then HANDSHAKE_ZEROED else s)"

fun allowed :: "peer_id \<Rightarrow> noise_handshake_state \<Rightarrow> noise_event \<Rightarrow> bool" where
  "allowed p s (SentResponse q) = (q \<noteq> p \<or> s = HANDSHAKE_CONSUMED_INITIATION)"
| "allowed p s (AcceptedResponse q) = (q \<noteq> p \<or> s = HANDSHAKE_CREATED_INITIATION)"
| "allowed p s (BeganSession q) = (q \<noteq> p \<or> s = HANDSHAKE_CREATED_RESPONSE \<or> s = HANDSHAKE_CONSUMED_RESPONSE)"
| "allowed p s _ = True"

fun in_order :: "peer_id \<Rightarrow> noise_handshake_state \<Rightarrow> noise_event list \<Rightarrow> bool" where
  "in_order p s [] = True"
| "in_order p s (e # es) = (allowed p s e \<and> in_order p (next_state p s e) es)"

text \<open>What never changes, and the timestamp, which only grows.\<close>

definition progress :: "wg_device \<Rightarrow> wg_device \<Rightarrow> bool" where
  "progress v w \<longleftrightarrow>
     dv_static_identity w = dv_static_identity v \<and> dv_peer_hashtable w = dv_peer_hashtable v \<and>
     (\<forall>p. hs_remote_static (handshake_of w p) = hs_remote_static (handshake_of v p) \<and>
          hs_precomputed_static_static (handshake_of w p) = hs_precomputed_static_static (handshake_of v p) \<and>
          (length (hs_latest_timestamp (handshake_of v p)) = NOISE_TIMESTAMP_LEN \<longrightarrow>
             length (hs_latest_timestamp (handshake_of w p)) = NOISE_TIMESTAMP_LEN \<and>
             memcmp (hs_latest_timestamp (handshake_of v p)) (hs_latest_timestamp (handshake_of w p)) \<le> 0))"

abbreviation st :: "wg_device \<Rightarrow> peer_id \<Rightarrow> noise_handshake_state" where
  "st wg p \<equiv> hs_state (handshake_of wg p)"

lemma in_order_append [simp]:
  "in_order p s (xs @ ys) \<longleftrightarrow> in_order p s xs \<and> in_order p (foldl (next_state p) s xs) ys"
  by (induction xs arbitrary: s) auto

section \<open>What the operations do to the handshakes\<close>

lemma same_noise_refl [simp]: "same_noise wg wg"
  by (simp add: same_noise_def)

lemma same_noise_refs [simp]: "same_noise wg (wg\<lparr>dv_refs := r\<rparr>)" "same_noise wg (wg\<lparr>dv_index_hashtable := t\<rparr>)"
  "same_noise wg (wg\<lparr>dv_index_hashtable := t, dv_refs := r\<rparr>)" "same_noise wg (wg_peer_put x wg)"
  by (simp_all add: same_noise_def handshake_of_def)

lemma same_noise_trans: "same_noise u v \<Longrightarrow> same_noise v w \<Longrightarrow> same_noise u w"
  by (simp add: same_noise_def)

lemma index_remove_noise [simp]:
  "handshake_of (index_remove e wg) p = handshake_of wg p"
  "dv_static_identity (index_remove e wg) = dv_static_identity wg"
  "dv_peer_hashtable (index_remove e wg) = dv_peer_hashtable wg"
  by (simp_all add: index_remove_def)

lemma upd_noise [simp]:
  "handshake_of (upd_keypair k f wg) p = handshake_of wg p"
  "handshake_of (upd_slots q g wg) p = handshake_of wg p"
  by (simp_all add: handshake_of_def)

lemma keypair_put_noise [simp]:
  "handshake_of (wg_noise_keypair_put k now wg) p = handshake_of wg p"
  "dv_static_identity (wg_noise_keypair_put k now wg) = dv_static_identity wg"
  "dv_peer_hashtable (wg_noise_keypair_put k now wg) = dv_peer_hashtable wg"
  by (simp_all add: wg_noise_keypair_put_def keypair_free_kref_def Let_def handshake_of_def index_remove_def
      split: option.split)

lemma free_keypair_noise [simp]:
  "handshake_of (kfree_keypair k wg) p = handshake_of wg p"
  "dv_static_identity (kfree_keypair k wg) = dv_static_identity wg"
  "dv_peer_hashtable (kfree_keypair k wg) = dv_peer_hashtable wg"
  "handshake_of (keypair_free_rcu k wg) p = handshake_of wg p"
  "dv_static_identity (keypair_free_rcu k wg) = dv_static_identity wg"
  "dv_peer_hashtable (keypair_free_rcu k wg) = dv_peer_hashtable wg"
  by (simp_all add: kfree_keypair_def keypair_free_rcu_def free_aead_def Let_def handshake_of_def split: option.split)

lemma add_new_keypair_noise [simp]:
  "handshake_of (add_new_keypair q k wg) p = handshake_of wg p"
  "dv_static_identity (add_new_keypair q k wg) = dv_static_identity wg"
  "dv_peer_hashtable (add_new_keypair q k wg) = dv_peer_hashtable wg"
  by (simp_all add: add_new_keypair_def Let_def)

lemma keypair_create_noise:
  "keypair_create env q wg = (r, wg') \<Longrightarrow> same_noise wg wg'"
  by (auto simp: keypair_create_def set_entry_def same_noise_def handshake_of_def Let_def split: option.splits)

lemma setup_aeads_noise:
  "setup_aeads env k wg = (r, wg') \<Longrightarrow> same_noise wg wg'"
  by (auto simp: setup_aeads_def alloc_aead_def setkey_aead_def same_noise_def handshake_of_def Let_def
      split: option.splits if_splits)

lemma memcmp_refl [simp]: "memcmp xs xs = 0"
  by (induction xs) auto

lemma memcmp_Cons_le: "memcmp (x # xs) (y # ys) \<le> 0 \<longleftrightarrow> x < y \<or> (x = y \<and> memcmp xs ys \<le> 0)"
  by simp

lemma memcmp_trans:
  "length xs = length ys \<Longrightarrow> length ys = length zs \<Longrightarrow> memcmp xs ys \<le> 0 \<Longrightarrow> memcmp ys zs \<le> 0 \<Longrightarrow> memcmp xs zs \<le> 0"
proof (induction xs ys arbitrary: zs rule: list_induct2)
  case (Cons x xs y ys)
  from Cons.prems(1) obtain z zs' where zs: "zs = z # zs'" "length ys = length zs'" by (cases zs) auto
  from Cons.prems(2,3) have "x < y \<or> x = y \<and> memcmp xs ys \<le> 0" "y < z \<or> y = z \<and> memcmp ys zs' \<le> 0"
    unfolding zs(1) memcmp_Cons_le .
  with Cons.IH [OF zs(2)] have "x < z \<or> x = z \<and> memcmp xs zs' \<le> 0"
    by (elim disjE conjE) (simp_all add: order.strict_trans)
  then show ?case unfolding zs(1) memcmp_Cons_le .
qed simp

lemma memcmp_sym: "memcmp xs ys > 0 \<Longrightarrow> memcmp ys xs < 0"
  by (induction xs ys rule: memcmp.induct) (auto split: if_splits)

lemma progress_same: "same_noise v w \<Longrightarrow> progress v w"
  by (simp add: same_noise_def progress_def)

lemma progress_trans: "progress u v \<Longrightarrow> progress v w \<Longrightarrow> progress u w"
  unfolding progress_def by (metis memcmp_trans)


lemma progress_upd:
  assumes "progress v w"
    and "hs_remote_static (f (handshake_of w p)) = hs_remote_static (handshake_of w p)"
    and "hs_precomputed_static_static (f (handshake_of w p)) = hs_precomputed_static_static (handshake_of w p)"
    and "length (hs_latest_timestamp (handshake_of w p)) = NOISE_TIMESTAMP_LEN \<longrightarrow>
      length (hs_latest_timestamp (f (handshake_of w p))) = NOISE_TIMESTAMP_LEN \<and>
      memcmp (hs_latest_timestamp (handshake_of w p)) (hs_latest_timestamp (f (handshake_of w p))) \<le> 0"
  shows "progress v (upd_handshake p f w)"
proof (rule progress_trans [OF assms(1)])
  show "progress w (upd_handshake p f w)" using assms(2-4) by (simp add: progress_def)
qed

lemma payload_progress:
  "initiation_payload env si h = (r, h') \<Longrightarrow>
     hs_remote_static h' = hs_remote_static h \<and> hs_precomputed_static_static h' = hs_precomputed_static_static h \<and>
     hs_latest_timestamp h' = hs_latest_timestamp h \<and> hs_state h' = hs_state h"
  "response_payload env h = (r2, h') \<Longrightarrow>
     hs_remote_static h' = hs_remote_static h \<and> hs_precomputed_static_static h' = hs_precomputed_static_static h \<and>
     hs_latest_timestamp h' = hs_latest_timestamp h \<and> hs_state h' = hs_state h"
  by (auto simp: initiation_payload_def response_payload_def Let_def split: prod.splits option.splits)

lemma progress_table: "progress wg (wg\<lparr>dv_index_hashtable := t\<rparr>)"
  by (simp add: progress_same)

lemma create_initiation_effect:
  assumes "wg_noise_handshake_create_initiation env p wg = Some (r, wg')"
  shows "progress wg wg' \<and> (\<forall>q. st wg' q = (if r \<noteq> None \<and> q = p then HANDSHAKE_CREATED_INITIATION else st wg q))"
proof (cases r)
  case None
  obtain x h where pl: "initiation_payload env (dv_static_identity wg) (handshake_of wg p) = (x, h)" by fastforce
  have "wg' = wg \<or> wg' = set_handshake p h wg"
    using assms pl None
    by (auto simp: wg_noise_handshake_create_initiation_def Let_def split: if_splits option.splits bind_splits)
  then show ?thesis
    using payload_progress(1) [OF pl] None by (elim disjE) (simp_all add: progress_upd progress_same)
next
  case (Some m)
  obtain x h t where pl: "initiation_payload env (dv_static_identity wg) (handshake_of wg p) = (x, h)"
    "wg' = set_handshake p (h\<lparr>hs_state := HANDSHAKE_CREATED_INITIATION\<rparr>) (wg\<lparr>dv_index_hashtable := t\<rparr>)"
    using create_initiation_elim [OF assms [unfolded Some]] by metis
  then show ?thesis
    using payload_progress(1) [OF pl(1)] Some by (simp add: progress_upd progress_same)
qed

lemma create_response_effect:
  assumes "wg_noise_handshake_create_response env p wg = Some (r, wg')"
  shows "progress wg wg' \<and> (\<forall>q. st wg' q = (if r \<noteq> None \<and> q = p then HANDSHAKE_CREATED_RESPONSE else st wg q)) \<and>
    (r \<noteq> None \<longrightarrow> st wg p = HANDSHAKE_CONSUMED_INITIATION)"
proof (cases r)
  case None
  obtain x h where pl: "response_payload env (handshake_of wg p) = (x, h)" by fastforce
  have "wg' = wg \<or> wg' = set_handshake p h wg"
    using assms pl None
    by (auto simp: wg_noise_handshake_create_response_def Let_def split: if_splits option.splits bind_splits)
  then show ?thesis
    using payload_progress(2) [OF pl] None by (elim disjE) (simp_all add: progress_upd progress_same)
next
  case (Some m)
  obtain x h t where pl: "response_payload env (handshake_of wg p) = (x, h)" "st wg p = HANDSHAKE_CONSUMED_INITIATION"
    "wg' = set_handshake p (h\<lparr>hs_state := HANDSHAKE_CREATED_RESPONSE\<rparr>) (wg\<lparr>dv_index_hashtable := t\<rparr>)"
    using create_response_elim [OF assms [unfolded Some]] by metis
  then show ?thesis
    using payload_progress(2) [OF pl(1)] Some by (simp add: progress_upd progress_same)
qed

text \<open>A failed consumption changes nothing of the handshakes; a successful one follows the others.\<close>

lemma consume_initiation_cases:
  assumes "wg_noise_handshake_consume_initiation env between m wg = (r, wg')"
  obtains (rejected) "r = None" "same_noise wg wg'"
  | (accepted) p s ck hash t ck' hash' refs where "r = Some p" "initiation_static env (dv_static_identity wg) m = Some (s, ck, hash)"
      "pubkey_find (siphash env) (remote_static_of wg) (dv_peer_hashtable wg) s = Some p"
      "initiation_timestamp env (handshake_of wg p) ck hash m = Some (t, ck', hash')"
      "\<not> initiation_rejected env (handshake_of wg p) t"
      "wg' = upd_handshake p (initiation_accept env m t ck' hash') (between (wg\<lparr>dv_refs := refs\<rparr>))"
proof -
  let ?S = "initiation_static env (dv_static_identity wg) m"
  show thesis
  proof (cases "si_has_identity (dv_static_identity wg) \<and> ?S \<noteq> None")
    case False
    then have "r = None \<and> wg' = wg"
      using assms by (cases ?S) (auto simp: wg_noise_handshake_consume_initiation_def split: if_splits)
    then show thesis using rejected by simp
  next
    case True
    then obtain s ck hash where S: "?S = Some (s, ck, hash)" by auto
    obtain f refs where l: "wg_pubkey_hashtable_lookup (siphash env) (remote_static_of wg) (dv_peer_hashtable wg)
      (dv_refs wg) s = (f, refs)" by fastforce
    let ?w = "wg\<lparr>dv_refs := refs\<rparr>"
    have c: "same_noise wg (wg_peer_put y ?w)" for y by (rule same_noise_trans [OF same_noise_refs(1,4)])
    note u = assms [unfolded wg_noise_handshake_consume_initiation_def] True S l
    show thesis
    proof (cases f)
      case None
      then show thesis using u rejected by auto
    next
      case (Some p)
      then have p: "pubkey_find (siphash env) (remote_static_of wg) (dv_peer_hashtable wg) s = Some p"
        using l by (auto simp: wg_pubkey_hashtable_lookup_def wg_peer_get_maybe_zero_def split: option.splits if_splits)
      let ?T = "initiation_timestamp env (handshake_of wg p) ck hash m"
      show thesis
      proof (cases "?T = None \<or> initiation_rejected env (handshake_of wg p) (fst (the ?T))")
        case True
        then have "r = None \<and> wg' = wg_peer_put (Some p) ?w" using u Some by (cases ?T) auto
        then show thesis using rejected c by simp
      next
        case False
        then obtain t ck' hash' where T: "?T = Some (t, ck', hash')" "\<not> initiation_rejected env (handshake_of wg p) t"
          by auto
        then have "r = Some p" "wg' = upd_handshake p (initiation_accept env m t ck' hash') (between ?w)"
          using u Some by auto
        then show thesis using accepted [OF _ S p T] by blast
      qed
    qed
  qed
qed

lemma consume_response_cases:
  assumes "wg_noise_handshake_consume_response env between m wg = (r, wg')" "entries_ok wg"
  obtains (early) "r = None" "same_noise wg wg'" "\<not> response_checked env m wg"
  | (late) w where "same_noise wg w" "r = None" "same_noise (between w) wg'" "response_checked env m wg"
  | (accepted) w p ck hash where "same_noise wg w" "r = Some p" "st (between w) p = HANDSHAKE_CREATED_INITIATION"
      "response_checked env m wg" "wg' = upd_handshake p (response_accept m ck hash) (between w)"
proof -
  let ?l = "wg_index_hashtable_lookup (dv_index_hashtable wg) (dv_refs wg) INDEX_HASHTABLE_HANDSHAKE (mr_receiver_index m)"
  obtain x tbl refs where l: "?l = (x, tbl, refs)" by (cases ?l) auto
  let ?w = "wg\<lparr>dv_index_hashtable := tbl, dv_refs := refs\<rparr>"
  have q: "peer_of_entry e p = p" if "x = Some (e, p)" for e p
    using that l assms(2)
    by (auto simp: wg_index_hashtable_lookup_def wg_peer_get_maybe_zero_def entries_ok_def peer_of_entry_def Let_def
        split: option.splits if_splits index_ptr.splits)
  note d = wg_noise_handshake_consume_response_def response_checked_def Let_def l
  have c: "same_noise wg (wg_peer_put y ?w)" for y by (rule same_noise_trans [OF same_noise_refs(3,4)])
  show thesis
  proof (cases x)
    case None
    then show thesis using assms(1) early by (auto simp: d split: if_splits)
  next
    case (Some ep)
    then obtain e p where x: "x = Some (e, p)" by (cases ep) auto
    note q = q [OF x]
    show thesis
    proof (cases "response_checked env m wg")
      case False
      then show thesis using assms(1) x q c early by (auto simp: d split: if_splits option.splits)
    next
      case True
      then obtain ck hash where o: "response_open env (dv_static_identity wg) (handshake_of wg p) m = Some (ck, hash)"
        "st wg p = HANDSHAKE_CREATED_INITIATION" "si_has_identity (dv_static_identity wg)"
        using x q by (auto simp: response_checked_def l Let_def)
      then have e: "(r, wg') = (if st (between ?w) p \<noteq> HANDSHAKE_CREATED_INITIATION
          then (None, wg_peer_put (Some p) (between ?w)) else (Some p, upd_handshake p (response_accept m ck hash) (between ?w)))"
        using assms(1) x q by (simp add: wg_noise_handshake_consume_response_def Let_def l handshake_of_def split: if_splits)
      show thesis
      proof (cases "st (between ?w) p = HANDSHAKE_CREATED_INITIATION")
        case False
        then show thesis using e late [OF same_noise_refs(3) [of wg refs tbl] _ _ True] by simp
      next
        case eq: True
        have "r = Some p" "wg' = upd_handshake p (response_accept m ck hash) (between ?w)"
          using e eq by (simp_all only: if_False prod.inject simp_thms)
        then show thesis using accepted [OF same_noise_refs(3) _ eq True] by blast
      qed
    qed
  qed
qed


lemma zero_progress [simp]:
  "hs_remote_static (handshake_zero h) = hs_remote_static h"
  "hs_precomputed_static_static (handshake_zero h) = hs_precomputed_static_static h"
  "hs_latest_timestamp (handshake_zero h) = hs_latest_timestamp h"
  "hs_state (handshake_zero h) = HANDSHAKE_ZEROED"
  by (simp_all add: handshake_zero_def)

lemma begin_session_effect:
  assumes "wg_noise_handshake_begin_session env p wg = (r, wg')"
  shows "progress wg wg' \<and> (\<forall>q. q \<noteq> p \<longrightarrow> st wg' q = st wg q) \<and> (st wg' p = HANDSHAKE_ZEROED \<or> \<not> r \<and> st wg' p = st wg p) \<and>
    (r \<longrightarrow> st wg p = HANDSHAKE_CREATED_RESPONSE \<or> st wg p = HANDSHAKE_CONSUMED_RESPONSE)"
proof -
  obtain k w where c: "keypair_create env p wg = (k, w)" by fastforce
  note s1 = keypair_create_noise [OF c]
  show ?thesis
  proof (cases "st wg p \<noteq> HANDSHAKE_CREATED_RESPONSE \<and> st wg p \<noteq> HANDSHAKE_CONSUMED_RESPONSE \<or> k = None")
    case True
    then have "wg' = wg \<or> wg' = w" "\<not> r" using assms c
      by (auto simp: wg_noise_handshake_begin_session_def Let_def split: if_splits)
    then show ?thesis using s1 progress_same [OF s1] by (auto simp: same_noise_def progress_same)
  next
    case False
    then obtain a where k: "k = Some a" by auto
    let ?w = "upd_keypair a (session_keys env (handshake_of wg p)) w"
    obtain ready w2 where a: "(if dv_is_chacha ?w then (True, ?w) else setup_aeads env a ?w) = (ready, w2)" by fastforce
    have "same_noise ?w w2" using a setup_aeads_noise by (auto split: if_splits)
    then have s2: "same_noise wg w2" using s1 by (simp add: same_noise_def)
    let ?w3 = "upd_handshake p handshake_zero w2"
    have p3: "progress wg ?w3" "st ?w3 p = HANDSHAKE_ZEROED" "\<And>q. q \<noteq> p \<Longrightarrow> st ?w3 q = st wg q"
      using progress_upd [OF progress_same [OF s2], of handshake_zero p] s2 by (simp_all add: same_noise_def)
    have "same_noise w2 wg' \<and> \<not> r \<or> same_noise ?w3 wg'"
      using assms False c k a
      by (auto simp: wg_noise_handshake_begin_session_def Let_def same_noise_def split: if_splits prod.splits)
    then show ?thesis
    proof (elim disjE conjE)
      assume "same_noise w2 wg'" "\<not> r"
      then show ?thesis using progress_same [OF same_noise_trans [OF s2]] s2 by (simp add: same_noise_def)
    next
      assume w: "same_noise ?w3 wg'"
      have "st wg' q = st ?w3 q" for q using w by (simp add: same_noise_def)
      then show ?thesis using progress_trans [OF p3(1) progress_same [OF w]] p3(2,3) False by metis
    qed
  qed
qed

lemma clear_effect:
  "progress wg (wg_noise_handshake_clear p wg)"
  "st (wg_noise_handshake_clear p wg) q = (if q = p then HANDSHAKE_ZEROED else st wg q)"
proof -
  have "progress wg (index_remove e wg)" for e by (rule progress_same) (simp add: same_noise_def)
  then show "progress wg (wg_noise_handshake_clear p wg)" unfolding wg_noise_handshake_clear_def by (rule progress_upd) simp_all
qed (simp add: wg_noise_handshake_clear_def)

lemma expire_noise: "same_noise (wg_noise_handshake_clear p wg) (wg_noise_expire_current_peer_keypairs env p wg)"
  by (simp add: wg_noise_expire_current_peer_keypairs_def wg_noise_reset_last_sent_handshake_def invalidate_sending_def
      same_noise_def handshake_of_def Let_def split: option.split)


lemma timestamp_length:
  assumes "initiation_timestamp env h ck hash m = Some (t, ck', hash')" "aead_lengths env"
    and "length (mi_encrypted_timestamp m) = noise_encrypted_len NOISE_TIMESTAMP_LEN"
  shows "length t = NOISE_TIMESTAMP_LEN"
  using assms
  by (auto simp: initiation_timestamp_def message_decrypt_def aead_lengths_def noise_encrypted_len_def
      NOISE_AUTHTAG_LEN_def split: bind_splits option.splits)

lemma accept_timestamp:
  "hs_latest_timestamp (initiation_accept env m t ck hash h) =
     (if memcmp t (hs_latest_timestamp h) > 0 then t else hs_latest_timestamp h)"
  "hs_precomputed_static_static (initiation_accept env m t ck hash h) = hs_precomputed_static_static h"
  by (simp_all add: initiation_accept_def Let_def)

lemma consume_initiation_effect:
  assumes "wg_noise_handshake_consume_initiation env between m wg = (r, wg')" "aead_lengths env"
    and "length (mi_encrypted_timestamp m) = noise_encrypted_len NOISE_TIMESTAMP_LEN"
    and "\<And>w. same_noise wg w \<Longrightarrow> progress w (between w)"
  shows "progress wg wg'"
  using assms(1)
proof (cases rule: consume_initiation_cases)
  case rejected
  then show ?thesis by (simp add: progress_same)
next
  case (accepted p s ck hash t ck' hash' refs)
  let ?w = "wg\<lparr>dv_refs := refs\<rparr>"
  have "progress wg (between ?w)"
    by (rule progress_trans [OF progress_same assms(4)]) simp_all
  then show ?thesis
    unfolding accepted(6)
    using memcmp_sym timestamp_length [OF accepted(4) assms(2,3)]
    by (intro progress_upd) (auto simp: accept_timestamp less_imp_le)
qed

lemma consume_response_effect:
  assumes "wg_noise_handshake_consume_response env between m wg = (r, wg')" "entries_ok wg"
    and "\<And>w. same_noise wg w \<Longrightarrow> progress w (between w)"
  shows "progress wg wg'"
  using assms(1,2)
proof (cases rule: consume_response_cases)
  case early
  then show ?thesis by (simp add: progress_same)
next
  case (late w)
  then show ?thesis
    using progress_trans [OF progress_trans [OF progress_same assms(3)] progress_same] by blast
next
  case (accepted w p ck hash)
  then have "progress wg (between w)" using progress_trans [OF progress_same assms(3)] by blast
  then show ?thesis unfolding accepted(5) by (rule progress_upd) (simp_all add: response_accept_def)
qed

lemma run_progress: "noise_run wg evs wg' \<Longrightarrow> progress wg wg'"
proof (induction rule: noise_run.induct)
  case (run_nil wg)
  show ?case by (simp add: progress_same)
next
  case (run_other wg evs wg1 wg2)
  then show ?case using progress_trans progress_same by blast
next
  case (run_send_initiation wg evs wg1 env p r wg2)
  then show ?case using progress_trans create_initiation_effect by blast
next
  case (run_receive_initiation wg evs wg1 others between env m r wg2)
  note IH = run_receive_initiation.IH
  show ?case
    using progress_trans [OF IH(1) consume_initiation_effect [OF run_receive_initiation.hyps(4,2,3)]] IH(2) by blast
next
  case (run_send_response wg evs wg1 env p r wg2)
  then show ?case using progress_trans create_response_effect by blast
next
  case (run_receive_response wg evs wg1 others between env m r wg2)
  note IH = run_receive_response.IH
  show ?case
    using progress_trans [OF IH(1) consume_response_effect [OF run_receive_response.hyps(3,2)]] IH(2) by blast
next
  case (run_begin_session wg evs wg1 env p r wg2)
  then show ?case using progress_trans begin_session_effect by blast
next
  case (run_clear wg evs wg1 p)
  then show ?case using progress_trans clear_effect(1) by blast
next
  case (run_expire wg evs wg1 p env)
  then show ?case
    using progress_trans [OF _ progress_trans [OF clear_effect(1) progress_same [OF expire_noise]]] by blast
qed

lemma run_order:
  "noise_run wg evs wg' \<Longrightarrow> in_order p (st wg p) evs \<and> st wg' p = foldl (next_state p) (st wg p) evs"
proof (induction rule: noise_run.induct)
  case (run_nil wg)
  show ?case by simp
next
  case (run_other wg evs wg1 wg2)
  then show ?case by (simp add: same_noise_def)
next
  case (run_send_initiation wg evs wg1 env q r wg2)
  then show ?case using create_initiation_effect [OF run_send_initiation(2)] by auto
next
  case (run_receive_initiation wg evs wg1 others between env m r wg2)
  from run_receive_initiation.hyps(4) show ?case
  proof (cases rule: consume_initiation_cases)
    case rejected
    then show ?thesis using run_receive_initiation.IH by (simp add: same_noise_def)
  next
    case (accepted q s ck hash t ck' hash' refs)
    have "same_noise wg1 (wg1\<lparr>dv_refs := refs\<rparr>)" by simp
    note run_receive_initiation.IH(2) [rule_format, OF this]
    then show ?thesis using run_receive_initiation.IH(1) accepted(1,6) by auto
  qed
next
  case (run_send_response wg evs wg1 env q r wg2)
  then show ?case using create_response_effect [OF run_send_response(2)] by auto
next
  case (run_receive_response wg evs wg1 others between env m r wg2)
  from run_receive_response.hyps(3,2) show ?case
  proof (cases rule: consume_response_cases)
    case early
    then show ?thesis using run_receive_response.IH by (simp add: same_noise_def)
  next
    case (late w)
    then show ?thesis
      using run_receive_response.IH(2) [rule_format, OF late(1)] run_receive_response.IH(1) by (simp add: same_noise_def)
  next
    case (accepted w q ck hash)
    have "st w p = st wg1 p" using accepted(1) by (simp add: same_noise_def)
    then show ?thesis
      using run_receive_response.IH(2) [rule_format, OF accepted(1)] run_receive_response.IH(1) accepted(2-5)
      by (auto simp: response_accept_def)
  qed
next
  case (run_begin_session wg evs wg1 env q r wg2)
  then show ?case using begin_session_effect [OF run_begin_session(2)] by auto
next
  case (run_clear wg evs wg1 q)
  then show ?case by (simp add: clear_effect(2))
next
  case (run_expire wg evs wg1 q env)
  then show ?case using expire_noise [of q wg1 env] by (simp add: same_noise_def clear_effect(2))
qed


section \<open>Properties\<close>


text \<open>
  C25. The handshake is a state machine: starting from a cleared handshake, in every run a
  response is sent only to an initiation accepted before, a response is accepted only to an
  initiation sent before, and a session begins only after one of them, with nothing else
  happening to the handshake of that peer in between; and the state recorded is the one
  that the last of these events leads to.
\<close>

theorem handshake_order:
  assumes "noise_run wg evs wg'" "hs_state (handshake_of wg p) = HANDSHAKE_ZEROED"
  shows "in_order p HANDSHAKE_ZEROED evs \<and>
    hs_state (handshake_of wg' p) = foldl (next_state p) HANDSHAKE_ZEROED evs"
  using run_order [OF assms(1), of p] assms(2) by simp

lemma demo_aead_lengths: "aead_lengths demo_env"
  by (simp add: aead_lengths_def demo_env_def)

lemma demo_initiation_length:
  assumes "wg_noise_handshake_create_initiation demo_env 1 demo_left = Some (Some m1, a1)"
  shows "length (mi_encrypted_timestamp m1) = noise_encrypted_len NOISE_TIMESTAMP_LEN"
proof -
  obtain e es et h where pl: "initiation_payload demo_env (dv_static_identity demo_left) (handshake_of demo_left 1) =
      (Some (e, es, et), h)" "mi_encrypted_timestamp m1 = et"
    using create_initiation_elim [OF assms] by (metis message_handshake_initiation.select_convs(5))
  obtain k hh where "chacha20poly1305_encrypt demo_env k 0 hh (tai64n_now demo_env) = et"
    by (rule initiation_payload_elim [OF pl(1)]) (auto simp: message_encrypt_def Let_def)
  then have "length et = length (tai64n_now demo_env) + 16" by (auto simp: demo_env_def)
  then show ?thesis
    using pl(2) by (simp add: noise_encrypted_len_def NOISE_AUTHTAG_LEN_def tai64n_now_def split_beta Let_def)
qed


theorem handshake_order_witness:
  "\<exists>b2. noise_run demo_right [AcceptedInitiation 1, SentResponse 1] b2 \<and>
     hs_state (handshake_of b2 1) = HANDSHAKE_CREATED_RESPONSE"
proof -
  obtain m1 a1 b1 m2 b2 where s: "wg_noise_handshake_create_initiation demo_env 1 demo_left = Some (Some m1, a1)"
    "wg_noise_handshake_consume_initiation demo_env id m1 demo_right = (Some 1, b1)"
    "wg_noise_handshake_create_response demo_env 1 b1 = Some (Some m2, b2)" using demo_exchange .
  have "\<forall>w. same_noise demo_right w \<longrightarrow> noise_run w [] (id w)" by (simp add: run_nil)
  from run_receive_initiation [OF run_nil this demo_aead_lengths demo_initiation_length [OF s(1)] s(2)]
  have "noise_run demo_right [AcceptedInitiation 1] b1" by simp
  from run_send_response [OF this s(3)] have r: "noise_run demo_right [AcceptedInitiation 1, SentResponse 1] b2" by simp
  moreover have "hs_state (handshake_of demo_right 1) = HANDSHAKE_ZEROED" by (simp add: handshake_of_def demo_pair_defs)
  ultimately show ?thesis using handshake_order [OF r, of 1] by auto
qed

end
