(* ===== verification/WG_Keypairs.thy ===== *)
theory WG_Keypairs
  imports WG_NoiseRuns
begin

text \<open>
  Session keys and their references. Every keypair is reference counted: the three slots of
  its peer and the packets being processed hold references. The invariant says that the
  count is right, so that no slot and no packet refers to a freed keypair and none is
  forgotten, and it is kept by every operation on keypairs.
\<close>

section \<open>Ownership\<close>

text \<open>
  The references an optional pointer and the slots of a peer hold. \<open>held\<close> gives the
  references held elsewhere: by packets in flight and by the slots of other peers.
\<close>

definition opt_refs :: "addr option \<Rightarrow> addr \<Rightarrow> nat" where
  "opt_refs x k = (if x = Some k then 1 else 0)"

definition slot_refs :: "noise_keypairs \<Rightarrow> addr \<Rightarrow> nat" where
  "slot_refs s k = opt_refs (current_keypair s) k + opt_refs (previous_keypair s) k + opt_refs (next_keypair s) k"

fun counted :: "noise_keypair option \<Rightarrow> nat \<Rightarrow> bool \<Rightarrow> bool" where
  "counted None n waits = (n = 0 \<and> \<not> waits)"
| "counted (Some kp) n waits = (kp_refcount kp = n \<and> (waits \<longleftrightarrow> n = 0))"

definition kp_ok :: "(addr \<Rightarrow> nat) \<Rightarrow> wg_device \<Rightarrow> bool" where
  "kp_ok refs wg \<longleftrightarrow>
     (\<forall>k. counted (dv_keypairs wg k) (refs k) (k \<in> set (dv_rcu_keypairs wg))) \<and> distinct (dv_rcu_keypairs wg)"

definition keypairs_ok :: "peer_id \<Rightarrow> (addr \<Rightarrow> nat) \<Rightarrow> wg_device \<Rightarrow> bool" where
  "keypairs_ok p held wg \<longleftrightarrow> kp_ok (\<lambda>k. slot_refs (slots_of wg p) k + held k) wg"

text \<open>A transform that no keypair refers to can never be freed.\<close>

definition aeads_owned :: "wg_device \<Rightarrow> bool" where
  "aeads_owned wg \<longleftrightarrow> (\<forall>t. dv_aeads wg t \<noteq> None \<longrightarrow>
     (\<exists>k kp. dv_keypairs wg k = Some kp \<and> (kp_aead_enc kp = Some t \<or> kp_aead_dec kp = Some t)))"

text \<open>An interface whose peer is about to begin a session, and one whose peer is being removed then.\<close>

definition demo_session :: wg_device where
  "demo_session =
     upd_handshake 1 (\<lambda>h. h\<lparr>hs_state := HANDSHAKE_CREATED_RESPONSE\<rparr>)
       (demo_right\<lparr>dv_index_hashtable := index_link (dv_index_hashtable demo_right) 0 (HandshakeEntry 1)\<rparr>)"

definition demo_dead :: wg_device where
  "demo_dead = upd_peer 1 (\<lambda>q. q\<lparr>pe_is_dead := True\<rparr>) demo_session"

section \<open>Counting\<close>

lemma put_upd_slots:
  "wg_noise_keypair_put k now (upd_slots p f wg) = upd_slots p f (wg_noise_keypair_put k now wg)"
  by (cases k) (simp_all add: wg_noise_keypair_put_def upd_slots_def upd_peer_def keypair_free_kref_def index_remove_def
      upd_keypair_def keypair_at_def Let_def)

lemma slots_of_put [simp]: "slots_of (wg_noise_keypair_put k now wg) p = slots_of wg p"
  by (simp add: slots_of_def wg_noise_keypair_put_def keypair_free_kref_def index_remove_def Let_def split: option.split)

lemma slots_of_upd [simp]: "slots_of (upd_slots p f wg) p = f (slots_of wg p)"
  by (simp add: slots_of_def)

lemma upd_slots_twice: "upd_slots p f (upd_slots p g wg) = upd_slots p (\<lambda>s. f (g s)) wg"
  by (simp add: upd_slots_def upd_peer_def)

lemma kp_ok_slots [simp]: "kp_ok refs (upd_slots p f wg) = kp_ok refs wg"
  by (simp add: kp_ok_def)

lemma kp_ok_put:
  assumes "kp_ok (\<lambda>k. refs k + opt_refs x k) wg"
  shows "kp_ok refs (wg_noise_keypair_put x now wg)"
proof (cases x)
  case None
  then show ?thesis using assms by (simp add: wg_noise_keypair_put_def opt_refs_def)
next
  case (Some k)
  have c: "counted (dv_keypairs wg j) (refs j + opt_refs (Some k) j) (j \<in> set (dv_rcu_keypairs wg))" for j
    using assms Some by (simp add: kp_ok_def)
  then obtain kp where k: "dv_keypairs wg k = Some kp" "kp_refcount kp = Suc (refs k)" "k \<notin> set (dv_rcu_keypairs wg)"
    using c [of k] by (cases "dv_keypairs wg k") (auto simp: opt_refs_def)
  have d: "distinct (dv_rcu_keypairs wg)" using assms by (simp add: kp_ok_def)
  note u = wg_noise_keypair_put_def keypair_free_kref_def index_remove_def keypair_at_def Let_def
  have "counted (dv_keypairs (wg_noise_keypair_put x now wg) j) (refs j) (j \<in> set (dv_rcu_keypairs (wg_noise_keypair_put x now wg)))"
    for j using k c [of j] Some by (cases "j = k") (auto simp: u opt_refs_def)
  then show ?thesis using k d Some by (simp add: kp_ok_def u)
qed

lemma kp_ok_cong: "kp_ok f wg \<Longrightarrow> (\<And>k. f k = g k) \<Longrightarrow> kp_ok g wg"
  by (simp add: kp_ok_def)

lemma kp_ok_alive:
  assumes "kp_ok refs wg" "refs k \<noteq> 0"
  obtains kp where "dv_keypairs wg k = Some kp" "kp_refcount kp = refs k" "k \<notin> set (dv_rcu_keypairs wg)"
proof (cases "dv_keypairs wg k")
  case None
  then show thesis using assms by (auto simp: kp_ok_def dest: spec [of _ k])
next
  case (Some kp)
  then have "kp_refcount kp = refs k" "k \<notin> set (dv_rcu_keypairs wg)"
    using assms by (auto simp: kp_ok_def dest!: spec [of _ k])
  then show thesis using that Some by blast
qed

text \<open>A new value of the slots is installed by giving up the references of the old ones.\<close>

lemma put_slots:
  assumes "keypairs_ok p held wg"
    and "\<And>k. slot_refs (slots_of wg p) k + held k = slot_refs s k + held' k + opt_refs x k + opt_refs y k"
  shows "keypairs_ok p held' (wg_noise_keypair_put y n2 (wg_noise_keypair_put x n1 (upd_slots p (\<lambda>_. s) wg)))"
  unfolding keypairs_ok_def slots_of_put slots_of_upd
proof (intro kp_ok_put, subst kp_ok_slots)
  show "kp_ok (\<lambda>k. slot_refs s k + held' k + opt_refs y k + opt_refs x k) wg"
    by (rule kp_ok_cong [OF assms(1) [unfolded keypairs_ok_def]]) (use assms(2) in simp)
qed


lemma put_slots1:
  assumes "keypairs_ok p held wg" "\<And>k. slot_refs (slots_of wg p) k + held k = slot_refs s k + held' k + opt_refs x k"
  shows "keypairs_ok p held' (wg_noise_keypair_put x n1 (upd_slots p (\<lambda>_. s) wg))"
  using put_slots [OF assms(1), of s held' x None n2 n1] assms(2)
  by (simp add: opt_refs_def wg_noise_keypair_put_def)

lemma upd_slots_cong: "f (slots_of wg p) = g (slots_of wg p) \<Longrightarrow> upd_slots p f wg = upd_slots p g wg"
  by (simp add: upd_slots_def upd_peer_def slots_of_def)

lemma add_new_keypair_eq:
  "add_new_keypair p k wg =
     (let s = slots_of wg p in
      if kp_i_am_the_initiator (keypair_at wg k) then
        if next_keypair s \<noteq> None then
          wg_noise_keypair_put (previous_keypair s) True (wg_noise_keypair_put (current_keypair s) True
            (upd_slots p (\<lambda>_. \<lparr>current_keypair = Some k, previous_keypair = next_keypair s, next_keypair = None\<rparr>) wg))
        else wg_noise_keypair_put (previous_keypair s) True
            (upd_slots p (\<lambda>_. \<lparr>current_keypair = Some k, previous_keypair = current_keypair s, next_keypair = None\<rparr>) wg)
      else wg_noise_keypair_put (previous_keypair s) True (wg_noise_keypair_put (next_keypair s) True
            (upd_slots p (\<lambda>_. \<lparr>current_keypair = current_keypair s, previous_keypair = None, next_keypair = Some k\<rparr>) wg)))"
  by (auto simp: add_new_keypair_def Let_def put_upd_slots upd_slots_twice intro!: upd_slots_cong noise_keypairs.equality)

lemma add_new_keypair_ok:
  assumes "keypairs_ok p (held(k := Suc (held k))) wg"
  shows "keypairs_ok p held (add_new_keypair p k wg)"
  unfolding add_new_keypair_eq Let_def
  by (auto intro!: put_slots [OF assms] put_slots1 [OF assms] simp: slot_refs_def opt_refs_def)

lemma received_with_keypair_eq:
  "wg_noise_received_with_keypair id p k wg =
     (let s = slots_of wg p in
      if next_keypair s \<noteq> Some k then (False, wg)
      else (True, wg_noise_keypair_put (previous_keypair s) True
        (upd_slots p (\<lambda>_. \<lparr>current_keypair = Some k, previous_keypair = current_keypair s, next_keypair = None\<rparr>) wg)))"
  by (auto simp: wg_noise_received_with_keypair_def Let_def put_upd_slots upd_slots_twice
      intro!: upd_slots_cong noise_keypairs.equality)

lemma received_with_keypair_ok:
  assumes "keypairs_ok p held wg" "wg_noise_received_with_keypair id p k wg = (r, wg')"
  shows "keypairs_ok p held wg'"
proof (cases "next_keypair (slots_of wg p) = Some k")
  case True
  then have "wg' = wg_noise_keypair_put (previous_keypair (slots_of wg p)) True (upd_slots p
    (\<lambda>_. \<lparr>current_keypair = Some k, previous_keypair = current_keypair (slots_of wg p), next_keypair = None\<rparr>) wg)"
    using assms(2) by (simp add: received_with_keypair_eq Let_def)
  then show ?thesis using True by (auto intro!: put_slots1 [OF assms(1)] simp: slot_refs_def opt_refs_def)
next
  case False
  then show ?thesis using assms by (simp add: received_with_keypair_eq Let_def)
qed

lemma clear_ok:
  assumes "keypairs_ok p held wg"
  shows "keypairs_ok p held (wg_noise_keypairs_clear p wg)" "slots_of (wg_noise_keypairs_clear p wg) p = zero_keypairs"
proof -
  show "slots_of (wg_noise_keypairs_clear p wg) p = zero_keypairs"
    by (simp add: wg_noise_keypairs_clear_def Let_def zero_keypairs_def)
  have u: "keypairs_ok p held (wg_noise_keypair_put x n (upd_slots p f w))"
    if "keypairs_ok p held w" "\<And>k. slot_refs (slots_of w p) k = slot_refs (f (slots_of w p)) k + opt_refs x k" for w x n f
    unfolding upd_slots_cong [of f w p "\<lambda>_. f (slots_of w p)", OF refl]
    by (rule put_slots1 [OF that(1)]) (use that(2) in simp)
  show "keypairs_ok p held (wg_noise_keypairs_clear p wg)"
    unfolding wg_noise_keypairs_clear_def Let_def
    by (rule u [OF u [OF u [OF assms]]]) (simp_all add: slot_refs_def opt_refs_def)
qed


section \<open>Creating and freeing\<close>

lemma counted_eq: "counted x n b \<longleftrightarrow> counted y n b" if "map_option kp_refcount x = map_option kp_refcount y"
  using that by (cases x; cases y) auto

lemma kp_ok_frame:
  assumes "kp_ok refs wg" "\<And>j. map_option kp_refcount (dv_keypairs wg' j) = map_option kp_refcount (dv_keypairs wg j)"
    "dv_rcu_keypairs wg' = dv_rcu_keypairs wg"
  shows "kp_ok refs wg'"
  using assms(1) counted_eq [OF assms(2)] by (simp add: kp_ok_def assms(3))

lemma get_ok:
  assumes "kp_ok refs wg" "wg_noise_keypair_get (Some k) wg = (Some k, wg')"
    and "dv_keypairs wg k \<noteq> None"
  shows "kp_ok (refs(k := Suc (refs k))) wg'"
proof -
  obtain kp where k: "dv_keypairs wg k = Some kp" using assms(3) by auto
  have c: "counted (dv_keypairs wg j) (refs j) (j \<in> set (dv_rcu_keypairs wg))" for j using assms(1) by (simp add: kp_ok_def)
  have "counted (dv_keypairs wg' j) ((refs(k := Suc (refs k))) j) (j \<in> set (dv_rcu_keypairs wg'))" for j
    using assms(2) c [of j] k by (cases "j = k") (auto simp: wg_noise_keypair_get_def keypair_at_def split: if_splits)
  moreover have "dv_rcu_keypairs wg' = dv_rcu_keypairs wg"
    using assms(2) by (auto simp: wg_noise_keypair_get_def split: if_splits)
  ultimately show ?thesis using assms(1) by (simp add: kp_ok_def)
qed

lemma create_ok:
  assumes "kp_ok refs wg" "keypair_create env p wg = (Some k, wg')" "dv_keypairs wg k = None"
  shows "kp_ok (refs(k := 1)) wg'"
    "dv_keypairs wg' = (dv_keypairs wg)(k \<mapsto> zero_keypair\<lparr>kp_internal_id := dv_keypair_counter wg + 1, kp_refcount := 1\<rparr>)"
    "dv_rcu_keypairs wg' = dv_rcu_keypairs wg" "slots_of wg' q = slots_of wg q" "dv_aeads wg' = dv_aeads wg"
proof -
  show e: "dv_keypairs wg' = (dv_keypairs wg)(k \<mapsto> zero_keypair\<lparr>kp_internal_id := dv_keypair_counter wg + 1, kp_refcount := 1\<rparr>)"
    "dv_rcu_keypairs wg' = dv_rcu_keypairs wg" "slots_of wg' q = slots_of wg q" "dv_aeads wg' = dv_aeads wg"
    using assms(2) by (auto simp: keypair_create_def set_entry_def slots_of_def Let_def split: option.splits)
  have c: "counted (dv_keypairs wg j) (refs j) (j \<in> set (dv_rcu_keypairs wg))" for j using assms(1) by (simp add: kp_ok_def)
  have "counted (dv_keypairs wg' j) ((refs(k := 1)) j) (j \<in> set (dv_rcu_keypairs wg'))" for j
    using c [of j] assms(3) e(1,2) by (cases "j = k") auto
  then show "kp_ok (refs(k := 1)) wg'" using assms(1) e(2) by (simp add: kp_ok_def)
qed

lemma remove_ok:
  assumes "kp_ok refs wg" "refs k \<noteq> 0" "\<And>j. dv_keypairs wg' j = (if j = k then None else dv_keypairs wg j)"
    "dv_rcu_keypairs wg' = dv_rcu_keypairs wg"
  shows "kp_ok (refs(k := 0)) wg'"
proof -
  have c: "counted (dv_keypairs wg j) (refs j) (j \<in> set (dv_rcu_keypairs wg))" for j using assms(1) by (simp add: kp_ok_def)
  have "counted (dv_keypairs wg' j) ((refs(k := 0)) j) (j \<in> set (dv_rcu_keypairs wg'))" for j
    using c [of j] assms(2-4) by (cases "dv_keypairs wg k"; cases "j = k") auto
  then show ?thesis using assms(1,4) by (simp add: kp_ok_def)
qed

lemma free_rcu_simps [simp]:
  "dv_keypairs (keypair_free_rcu k wg) = (dv_keypairs wg)(k := None)"
  "dv_rcu_keypairs (keypair_free_rcu k wg) = dv_rcu_keypairs wg"
  "slots_of (keypair_free_rcu k wg) p = slots_of wg p"
  by (simp_all add: keypair_free_rcu_def kfree_keypair_def free_aead_def slots_of_def Let_def split: option.split)

lemma grace_ok:
  assumes "kp_ok refs wg" "k \<in> set (dv_rcu_keypairs wg)"
  shows "kp_ok refs (rcu_keypair_callback k wg)"
proof -
  have c: "counted (dv_keypairs wg j) (refs j) (j \<in> set (dv_rcu_keypairs wg))" for j using assms(1) by (simp add: kp_ok_def)
  have "counted (dv_keypairs (rcu_keypair_callback k wg) j) (refs j) (j \<in> set (dv_rcu_keypairs (rcu_keypair_callback k wg)))" for j
    using c [of j] assms(2) by (cases "j = k"; cases "dv_keypairs wg k") (auto simp: rcu_keypair_callback_def)
  then show ?thesis
    using assms(1) by (simp add: kp_ok_def rcu_keypair_callback_def removeAll_filter_not_eq)
qed

lemma setup_aeads_keeps:
  assumes "setup_aeads env k wg = (r, wg')" "dv_keypairs wg k = Some kp"
  shows "\<exists>kp'. dv_keypairs wg' = (dv_keypairs wg)(k \<mapsto> kp') \<and> kp_refcount kp' = kp_refcount kp \<and>
    kp_sending kp' = kp_sending kp \<and> kp_receiving kp' = kp_receiving kp \<and>
    kp_i_am_the_initiator kp' = kp_i_am_the_initiator kp"
    "dv_rcu_keypairs wg' = dv_rcu_keypairs wg" "slots_of wg' p = slots_of wg p"
proof -
  note u = setup_aeads_def alloc_aead_def setkey_aead_def keypair_at_def slots_of_def Let_def
  show "dv_rcu_keypairs wg' = dv_rcu_keypairs wg" "slots_of wg' p = slots_of wg p"
    using assms by (auto simp: u split: option.splits if_splits)
  have "dv_keypairs wg' = (dv_keypairs wg)(k \<mapsto> the (dv_keypairs wg' k)) \<and>
    kp_refcount (the (dv_keypairs wg' k)) = kp_refcount kp \<and>
    kp_sending (the (dv_keypairs wg' k)) = kp_sending kp \<and> kp_receiving (the (dv_keypairs wg' k)) = kp_receiving kp \<and>
    kp_i_am_the_initiator (the (dv_keypairs wg' k)) = kp_i_am_the_initiator kp"
    using assms by (auto simp: u split: option.splits if_splits)
  then show "\<exists>kp'. dv_keypairs wg' = (dv_keypairs wg)(k \<mapsto> kp') \<and> kp_refcount kp' = kp_refcount kp \<and>
    kp_sending kp' = kp_sending kp \<and> kp_receiving kp' = kp_receiving kp \<and>
    kp_i_am_the_initiator kp' = kp_i_am_the_initiator kp" by blast
qed


section \<open>Beginning a session\<close>

lemma begin_session_cases:
  assumes "wg_noise_handshake_begin_session env p wg = (r, wg')"
  obtains (refused) "\<not> r" "wg' = wg"
  | (unready) k w w2 where "keypair_create env p wg = (Some k, w)"
      "setup_aeads env k (upd_keypair k (session_keys env (handshake_of wg p)) w) = (False, w2)"
      "\<not> r" "wg' = keypair_free_rcu k w2"
  | (ready) k w w2 where "keypair_create env p wg = (Some k, w)"
      "(if dv_is_chacha w then (True, upd_keypair k (session_keys env (handshake_of wg p)) w)
        else setup_aeads env k (upd_keypair k (session_keys env (handshake_of wg p)) w)) = (True, w2)"
      "if pe_is_dead (dv_peers w2 p) then \<not> r \<and> wg' = kfree_keypair k (upd_handshake p handshake_zero w2)
       else (let w3 = add_new_keypair p k (upd_handshake p handshake_zero w2);
                 (ret, tbl) = wg_index_hashtable_replace (dv_index_hashtable w3) (HandshakeEntry p) (KeypairEntry k)
             in r = ret \<and> wg' = w3\<lparr>dv_index_hashtable := tbl\<rparr>)"
proof -
  obtain x w where c: "keypair_create env p wg = (x, w)" by fastforce
  show thesis
  proof (cases "hs_state (handshake_of wg p) \<noteq> HANDSHAKE_CREATED_RESPONSE \<and>
      hs_state (handshake_of wg p) \<noteq> HANDSHAKE_CONSUMED_RESPONSE \<or> x = None")
    case True
    then have "\<not> r" "wg' = wg" using assms c
      by (auto simp: wg_noise_handshake_begin_session_def keypair_create_def Let_def split: if_splits option.splits)
    then show thesis using refused by blast
  next
    case False
    then obtain k where k: "x = Some k" by auto
    note c = c [unfolded k]
    let ?w = "upd_keypair k (session_keys env (handshake_of wg p)) w"
    obtain b w2 where a: "(if dv_is_chacha w then (True, ?w) else setup_aeads env k ?w) = (b, w2)" by fastforce
    note u = assms [unfolded wg_noise_handshake_begin_session_def c Let_def] False a
    show thesis
    proof (cases b)
      case True
      have "if pe_is_dead (dv_peers w2 p) then \<not> r \<and> wg' = kfree_keypair k (upd_handshake p handshake_zero w2)
       else (let w3 = add_new_keypair p k (upd_handshake p handshake_zero w2);
                 (ret, tbl) = wg_index_hashtable_replace (dv_index_hashtable w3) (HandshakeEntry p) (KeypairEntry k)
             in r = ret \<and> wg' = w3\<lparr>dv_index_hashtable := tbl\<rparr>)"
        using u True by (auto simp: Let_def split_beta split: if_splits)
      then show thesis using ready [OF c] a True by simp
    next
      case False
      then have "\<not> r" "wg' = keypair_free_rcu k w2" "setup_aeads env k ?w = (False, w2)"
        using u by (auto split: if_splits)
      then show thesis using unready [OF c] by blast
    qed
  qed
qed

lemma session_keys_refcount [simp]: "kp_refcount (session_keys env h kp) = kp_refcount kp"
  by (simp add: session_keys_def Let_def split: prod.split)

lemma session_prepared:
  assumes "kp_ok refs wg" "keypair_create env p wg = (Some k, w)" "dv_keypairs wg k = None"
    and "setup_aeads env k (upd_keypair k f w) = (b, w2) \<or> w2 = upd_keypair k f w"
    and "\<And>kp. kp_refcount (f kp) = kp_refcount kp"
  shows "kp_ok (refs(k := 1)) w2 \<and> slots_of w2 q = slots_of wg q \<and> refs k = 0"
proof -
  note w = create_ok [OF assms(1-3)]
  let ?w = "upd_keypair k f w"
  have w1: "dv_keypairs ?w k = Some (f (keypair_at w k))" "kp_ok (refs(k := 1)) ?w"
    using w(2) kp_ok_frame [OF w(1), of ?w] assms(5) by (simp_all add: keypair_at_def)
  have "kp_ok (refs(k := 1)) w2 \<and> slots_of w2 q = slots_of wg q"
    using assms(4)
  proof (elim disjE)
    assume s: "setup_aeads env k ?w = (b, w2)"
    note keeps = setup_aeads_keeps [OF s w1(1)]
    have "kp_ok (refs(k := 1)) w2" by (rule kp_ok_frame [OF w1(2)]) (use keeps in \<open>auto simp: keypair_at_def\<close>)
    then show ?thesis using keeps(3) w(4) by (simp add: slots_of_def)
  qed (use w1(2) w(4) in \<open>simp add: slots_of_def\<close>)
  moreover have "refs k = 0" using assms(1,3) by (auto simp: kp_ok_def dest: spec [of _ k])
  ultimately show ?thesis by simp
qed

lemma begin_session_ok:
  assumes "keypairs_ok p held wg" "wg_noise_handshake_begin_session env p wg = (r, wg')"
    and "\<And>k. e_keypair_mem env = Some k \<Longrightarrow> dv_keypairs wg k = None"
  shows "keypairs_ok p held wg'"
proof -
  let ?refs = "\<lambda>k. slot_refs (slots_of wg p) k + held k"
  have ok: "kp_ok ?refs wg" using assms(1) by (simp add: keypairs_ok_def)
  have new: "dv_keypairs wg k = None" if "keypair_create env p wg = (Some k, w)" for k w
    using assms(3) that by (auto simp: keypair_create_def split: option.splits)
  from assms(2) show ?thesis
  proof (cases rule: begin_session_cases)
    case refused
    then show ?thesis using assms(1) by simp
  next
    case (unready k w w2)
    have pr: "kp_ok (?refs(k := 1)) w2" "slots_of w2 p = slots_of wg p" "?refs k = 0"
      using session_prepared [OF ok unready(1) new [OF unready(1)] disjI1 [OF unready(2)]] by simp_all
    have "kp_ok ((?refs(k := 1))(k := 0)) (keypair_free_rcu k w2)" by (rule remove_ok [OF pr(1)]) simp_all
    then show ?thesis unfolding unready(4) keypairs_ok_def by (rule kp_ok_cong) (use pr(2,3) in simp)
  next
    case (ready k w w2)
    have pr: "kp_ok (?refs(k := 1)) w2" "slots_of w2 p = slots_of wg p" "?refs k = 0"
      using session_prepared [OF ok ready(1) new [OF ready(1)], of "session_keys env (handshake_of wg p)" True w2] ready(2)
      by (auto split: if_splits)
    let ?w = "upd_handshake p handshake_zero w2"
    have s: "slots_of ?w p = slots_of wg p" using pr(2) by (simp add: slots_of_def)
    have k1: "kp_ok (?refs(k := 1)) ?w" by (rule kp_ok_frame [OF pr(1)]) simp_all
    show ?thesis
    proof (cases "pe_is_dead (dv_peers w2 p)")
      case True
      then have e: "wg' = kfree_keypair k ?w" using ready(3) by simp
      have "kp_ok ((?refs(k := 1))(k := 0)) wg'" by (rule remove_ok [OF k1]) (simp_all add: e kfree_keypair_def)
      then show ?thesis unfolding keypairs_ok_def
        by (rule kp_ok_cong) (use pr(3) s e in \<open>simp add: slots_of_def kfree_keypair_def\<close>)
    next
      case False
      have "keypairs_ok p (held(k := Suc (held k))) ?w"
        unfolding keypairs_ok_def by (rule kp_ok_cong [OF k1]) (use pr(3) s in simp)
      note n = add_new_keypair_ok [OF this]
      obtain tbl where "wg' = (add_new_keypair p k ?w)\<lparr>dv_index_hashtable := tbl\<rparr>"
        using ready(3) False by (auto simp: Let_def split: prod.splits)
      then show ?thesis using n by (simp add: keypairs_ok_def kp_ok_def slots_of_def)
    qed
  qed
qed


lemma add_new_keypair_keeps:
  assumes "keypairs_ok p (held(k := Suc (held k))) wg" "slot_refs (slots_of wg p) k + held k = 0"
  shows "dv_keypairs (add_new_keypair p k wg) k = dv_keypairs wg k" "dv_aeads (add_new_keypair p k wg) = dv_aeads wg"
    "slots_of (add_new_keypair p k wg) p =
       (if kp_i_am_the_initiator (keypair_at wg k)
        then \<lparr>current_keypair = Some k,
               previous_keypair = (if next_keypair (slots_of wg p) \<noteq> None then next_keypair (slots_of wg p)
                 else current_keypair (slots_of wg p)), next_keypair = None\<rparr>
        else (slots_of wg p)\<lparr>previous_keypair := None, next_keypair := Some k\<rparr>)"
proof -
  have put: "dv_keypairs (wg_noise_keypair_put x n w) k = dv_keypairs w k" if "x \<noteq> Some k" for x n w
    using that by (cases x) (auto simp: wg_noise_keypair_put_def keypair_free_kref_def index_remove_def Let_def)
  have a: "dv_aeads (wg_noise_keypair_put x n w) = dv_aeads w" for x n w
    by (cases x) (auto simp: wg_noise_keypair_put_def keypair_free_kref_def index_remove_def Let_def)
  have "current_keypair (slots_of wg p) \<noteq> Some k" "previous_keypair (slots_of wg p) \<noteq> Some k" "next_keypair (slots_of wg p) \<noteq> Some k"
    using assms(2) by (auto simp: slot_refs_def opt_refs_def split: if_splits)
  then show "dv_keypairs (add_new_keypair p k wg) k = dv_keypairs wg k" "dv_aeads (add_new_keypair p k wg) = dv_aeads wg"
    "slots_of (add_new_keypair p k wg) p =
       (if kp_i_am_the_initiator (keypair_at wg k)
        then \<lparr>current_keypair = Some k,
               previous_keypair = (if next_keypair (slots_of wg p) \<noteq> None then next_keypair (slots_of wg p)
                 else current_keypair (slots_of wg p)), next_keypair = None\<rparr>
        else (slots_of wg p)\<lparr>previous_keypair := None, next_keypair := Some k\<rparr>)"
    by (cases "slots_of wg p"; simp add: add_new_keypair_eq Let_def put a)+
qed

lemma setup_aeads_ready:
  assumes "setup_aeads env k wg = (True, wg')" "dv_keypairs wg k = Some kp" "e_aead_enc env \<noteq> e_aead_dec env"
  obtains t u where "e_aead_enc env = Some t" "e_aead_dec env = Some u"
    "dv_keypairs wg' k = Some (kp\<lparr>kp_aead_enc := Some t, kp_aead_dec := Some u\<rparr>)"
    "dv_aeads wg' = (dv_aeads wg)(t \<mapsto> sk_key (kp_sending kp), u \<mapsto> sk_key (kp_receiving kp))"
  using assms
  by (auto simp: setup_aeads_def alloc_aead_def setkey_aead_def keypair_at_def Let_def fun_upd_twist
      split: option.splits if_splits)

section \<open>Runs of the keypair operations of a peer\<close>

text \<open>The ghost component \<open>held\<close> is the number of references that others than the slots of the peer hold.\<close>

inductive kp_step :: "peer_id \<Rightarrow> (addr \<Rightarrow> nat) \<times> wg_device \<Rightarrow> (addr \<Rightarrow> nat) \<times> wg_device \<Rightarrow> bool" for p where
  kp_get: "dv_keypairs wg k \<noteq> None \<Longrightarrow> wg_noise_keypair_get (Some k) wg = (Some k, wg') \<Longrightarrow>
     kp_step p (held, wg) (held(k := Suc (held k)), wg')"
| kp_put: "kp_step p (held(k := Suc (held k)), wg) (held, wg_noise_keypair_put (Some k) now wg)"
| kp_received: "wg_noise_received_with_keypair id p k wg = (r, wg') \<Longrightarrow> kp_step p (held, wg) (held, wg')"
| kp_clear: "kp_step p (held, wg) (held, wg_noise_keypairs_clear p wg)"
| kp_session: "(\<And>k. e_keypair_mem env = Some k \<Longrightarrow> dv_keypairs wg k = None) \<Longrightarrow>
     wg_noise_handshake_begin_session env p wg = (r, wg') \<Longrightarrow> kp_step p (held, wg) (held, wg')"
| kp_expire: "kp_step p (held, wg) (held, wg_noise_expire_current_peer_keypairs env p wg)"
| kp_grace: "k \<in> set (dv_rcu_keypairs wg) \<Longrightarrow> kp_step p (held, wg) (held, rcu_keypair_callback k wg)"

lemma expire_ok:
  assumes "keypairs_ok p held wg"
  shows "keypairs_ok p held (wg_noise_expire_current_peer_keypairs env p wg)"
proof -
  let ?refs = "\<lambda>k. slot_refs (slots_of wg p) k + held k"
  have inv: "kp_ok ?refs (invalidate_sending x w)" "slots_of (invalidate_sending x w) p = slots_of w p"
    if r: "kp_ok ?refs w" "\<And>k. x = Some k \<Longrightarrow> ?refs k \<noteq> 0" for x w
  proof -
    show "slots_of (invalidate_sending x w) p = slots_of w p"
      by (simp add: invalidate_sending_def slots_of_def split: option.split)
    show "kp_ok ?refs (invalidate_sending x w)"
    proof (cases x)
      case (Some k)
      then obtain kp where "dv_keypairs w k = Some kp" by (rule kp_ok_alive [OF r(1) r(2)])
      then show ?thesis
        by (intro kp_ok_frame [OF r(1)]) (auto simp: invalidate_sending_def Some keypair_at_def)
    qed (use r(1) in \<open>simp add: invalidate_sending_def\<close>)
  qed
  let ?w = "wg_noise_reset_last_sent_handshake env p (wg_noise_handshake_clear p wg)"
  have w: "kp_ok ?refs ?w" "slots_of ?w p = slots_of wg p"
    using assms by (simp_all add: keypairs_ok_def kp_ok_def wg_noise_reset_last_sent_handshake_def
        wg_noise_handshake_clear_def index_remove_def slots_of_def)
  have n: "?refs k \<noteq> 0" if "next_keypair (slots_of wg p) = Some k \<or> current_keypair (slots_of wg p) = Some k" for k
    using that by (auto simp: slot_refs_def opt_refs_def)
  note i1 = inv [OF w(1), of "next_keypair (slots_of wg p)"]
  note i2 = inv [OF i1(1), of "current_keypair (slots_of wg p)"]
  show ?thesis
    using i1 i2 n w by (simp add: keypairs_ok_def wg_noise_expire_current_peer_keypairs_def Let_def)
qed

lemma kp_step_ok: "kp_step p x y \<Longrightarrow> keypairs_ok p (fst x) (snd x) \<Longrightarrow> keypairs_ok p (fst y) (snd y)"
proof (induction rule: kp_step.induct)
  case (kp_get wg k wg' held)
  have "slots_of wg' p = slots_of wg p"
    using kp_get(2) by (auto simp: wg_noise_keypair_get_def slots_of_def split: if_splits)
  moreover have "kp_ok ((\<lambda>j. slot_refs (slots_of wg p) j + held j)(k := Suc (slot_refs (slots_of wg p) k + held k))) wg'"
    using get_ok [OF _ kp_get(2,1)] kp_get(3) by (simp add: keypairs_ok_def)
  ultimately show ?case by (simp add: keypairs_ok_def) (erule kp_ok_cong, simp)
next
  case (kp_put held k wg now)
  then have "kp_ok (\<lambda>j. slot_refs (slots_of wg p) j + held j + opt_refs (Some k) j) wg"
    by (simp add: keypairs_ok_def) (erule kp_ok_cong, simp add: opt_refs_def)
  from kp_ok_put [OF this] show ?case by (simp add: keypairs_ok_def)
next
  case (kp_received k wg r wg' held)
  then show ?case using received_with_keypair_ok by simp
next
  case (kp_clear held wg)
  then show ?case using clear_ok by simp
next
  case (kp_session env wg r wg' held)
  then show ?case using begin_session_ok by simp
next
  case (kp_expire held wg env)
  then show ?case using expire_ok by simp
next
  case (kp_grace k wg held)
  have "slots_of (rcu_keypair_callback k wg) p = slots_of wg p"
    by (simp add: rcu_keypair_callback_def slots_of_def keypair_free_rcu_def kfree_keypair_def free_aead_def Let_def split: option.split)
  then show ?case using grace_ok kp_grace by (simp add: keypairs_ok_def)
qed


lemma kp_run_ok: "(kp_step p)\<^sup>*\<^sup>* x y \<Longrightarrow> keypairs_ok p (fst x) (snd x) \<Longrightarrow> keypairs_ok p (fst y) (snd y)"
  by (induction rule: rtranclp_induct) (auto dest: kp_step_ok)

lemma session_keys_base:
  "kp_sending (session_keys env h kp) = kp_sending (session_keys env h zero_keypair)"
  "kp_receiving (session_keys env h kp) = kp_receiving (session_keys env h zero_keypair)"
  "kp_i_am_the_initiator (session_keys env h kp) \<longleftrightarrow> hs_state h = HANDSHAKE_CONSUMED_RESPONSE"
  by (simp_all add: session_keys_def Let_def split: prod.split)

section \<open>Properties\<close>

text \<open>
  C26. Keypairs are neither used after they are freed nor forgotten: after any sequence of
  operations on the keypairs of a peer, starting with none, every keypair in a slot of the
  peer or held by somebody exists and is not waiting to be freed, and every keypair that
  exists has exactly as many references as there are holders, or has none and is waiting
  for the end of a grace period.
\<close>

theorem keypair_references:
  assumes "(kp_step p)\<^sup>*\<^sup>* (\<lambda>_. 0, wg) (held, wg')"
    and "dv_keypairs wg = Map.empty" "dv_rcu_keypairs wg = []" "slots_of wg p = zero_keypairs"
  shows "(\<forall>k. slot_refs (slots_of wg' p) k + held k \<noteq> 0 \<longrightarrow>
      dv_keypairs wg' k \<noteq> None \<and> k \<notin> set (dv_rcu_keypairs wg')) \<and>
    (\<forall>k kp. dv_keypairs wg' k = Some kp \<longrightarrow>
      kp_refcount kp = slot_refs (slots_of wg' p) k + held k \<and>
      (kp_refcount kp = 0 \<longleftrightarrow> k \<in> set (dv_rcu_keypairs wg')))"
proof -
  have "keypairs_ok p (\<lambda>_. 0) wg"
    using assms(2-4) by (simp add: keypairs_ok_def kp_ok_def slot_refs_def opt_refs_def zero_keypairs_def)
  then have ok: "keypairs_ok p held wg'" using kp_run_ok [OF assms(1)] by simp
  have "counted (dv_keypairs wg' k) (slot_refs (slots_of wg' p) k + held k) (k \<in> set (dv_rcu_keypairs wg'))" for k
    using ok by (simp add: keypairs_ok_def kp_ok_def)
  moreover have "dv_keypairs wg' k \<noteq> None \<and> k \<notin> set (dv_rcu_keypairs wg')"
    if "slot_refs (slots_of wg' p) k + held k \<noteq> 0" for k
    using kp_ok_alive [OF ok [unfolded keypairs_ok_def] that] by (metis option.distinct(1))
  ultimately show ?thesis by (metis counted.simps(2))
qed

text \<open>
  C27. A session that begins is complete: the new keypair is in the slot of its role, it has
  the keys derived from the handshake, the two AES-GCM transforms exist and carry exactly
  these keys, and the secrets of the handshake are erased.
\<close>

theorem session_installed:
  assumes "keypairs_ok p held wg" "wg_noise_handshake_begin_session env p wg = (True, wg')"
    and "e_keypair_mem env = Some k" "dv_keypairs wg k = None" "\<not> dv_is_chacha wg" "e_aead_enc env \<noteq> e_aead_dec env"
  shows "\<exists>kp t u. dv_keypairs wg' k = Some kp \<and> 
     (if hs_state (handshake_of wg p) = HANDSHAKE_CONSUMED_RESPONSE then current_keypair (slots_of wg' p) = Some k
      else next_keypair (slots_of wg' p) = Some k) \<and>
     kp_sending kp = kp_sending (session_keys env (handshake_of wg p) zero_keypair) \<and>
     kp_receiving kp = kp_receiving (session_keys env (handshake_of wg p) zero_keypair) \<and>
     kp_aead_enc kp = Some t \<and> dv_aeads wg' t = Some (sk_key (kp_sending kp)) \<and>
     kp_aead_dec kp = Some u \<and> dv_aeads wg' u = Some (sk_key (kp_receiving kp)) \<and>
     hs_chaining_key (handshake_of wg' p) = replicate NOISE_HASH_LEN 0 \<and>
     hs_ephemeral_private (handshake_of wg' p) = replicate NOISE_PUBLIC_KEY_LEN 0"
  using assms(2)
proof (cases rule: begin_session_cases)
  case (ready k' w w2)
  have k: "k' = k" "dv_is_chacha w = dv_is_chacha wg" using ready(1) assms(3)
    by (auto simp: keypair_create_def set_entry_def Let_def)
  let ?h = "handshake_of wg p" and ?refs = "\<lambda>k. slot_refs (slots_of wg p) k + held k"
  have ok: "kp_ok ?refs wg" using assms(1) by (simp add: keypairs_ok_def)
  have s: "setup_aeads env k (upd_keypair k (session_keys env ?h) w) = (True, w2)"
    using ready(2) assms(5) k by simp
  have pr: "kp_ok (?refs(k := 1)) w2" "slots_of w2 p = slots_of wg p" "?refs k = 0"
    using session_prepared [OF ok ready(1) [unfolded k] assms(4) disjI1 [OF s]] by simp_all
  have kp: "dv_keypairs (upd_keypair k (session_keys env ?h) w) k = Some (session_keys env ?h (keypair_at w k))" by simp
  obtain t u where a: "dv_keypairs w2 k = Some ((session_keys env ?h (keypair_at w k))\<lparr>kp_aead_enc := Some t, kp_aead_dec := Some u\<rparr>)"
    "dv_aeads w2 t = Some (sk_key (kp_sending (session_keys env ?h (keypair_at w k))))"
    "dv_aeads w2 u = Some (sk_key (kp_receiving (session_keys env ?h (keypair_at w k))))"
    using setup_aeads_ready [OF s kp assms(6)] assms(6) by (metis fun_upd_apply)
  let ?w = "upd_handshake p handshake_zero w2"
  have "kp_ok (?refs(k := 1)) ?w" by (rule kp_ok_frame [OF pr(1)]) simp_all
  then have o: "keypairs_ok p (held(k := Suc (held k))) ?w" "slots_of ?w p = slots_of wg p"
    using pr(2,3) by (auto simp: keypairs_ok_def slots_of_def elim!: kp_ok_cong)
  note n = add_new_keypair_keeps [OF o(1), unfolded o(2), OF pr(3)]
  obtain tbl where e: "wg' = (add_new_keypair p k ?w)\<lparr>dv_index_hashtable := tbl\<rparr>"
    using ready(3) k by (auto simp: Let_def split: if_splits prod.splits)
  have "handshake_of wg' p = handshake_zero (handshake_of w2 p)"
    unfolding e by simp
  moreover let ?kp = "(session_keys env ?h (keypair_at w k))\<lparr>kp_aead_enc := Some t, kp_aead_dec := Some u\<rparr>"
  have at: "kp_i_am_the_initiator (keypair_at ?w k) = (hs_state ?h = HANDSHAKE_CONSUMED_RESPONSE)"
    using a(1) by (simp add: keypair_at_def session_keys_base(3))
  have "dv_keypairs wg' k = Some ?kp" "dv_aeads wg' = dv_aeads w2"
    using n(1,2) a(1) by (simp_all add: e)
  moreover have "slots_of wg' p = slots_of (add_new_keypair p k ?w) p" by (simp add: e slots_of_def)
  ultimately show ?thesis
    by (intro exI [of _ ?kp] exI [of _ t] exI [of _ u]) (simp add: n(3) at a(2,3) handshake_zero_def
        session_keys_base(1,2) [of env ?h "keypair_at w k"])
qed simp_all


lemma demo_session_simps [simp]:
  "dv_keypairs demo_session = Map.empty" "dv_rcu_keypairs demo_session = []" "slots_of demo_session 1 = zero_keypairs"
  "\<not> dv_is_chacha demo_session" "hs_state (handshake_of demo_session 1) = HANDSHAKE_CREATED_RESPONSE"
  "dv_aeads demo_session = Map.empty"
  "hl_pprev (ih_hashtable (dv_index_hashtable demo_session)) (HandshakeEntry 1) = Some (index_bucket 0)"
  "e_keypair_mem demo_env = Some 100" "e_aead_enc demo_env = Some 200" "e_aead_dec demo_env = Some 201"
  "e_setkey_enc demo_env" "e_setkey_dec demo_env" "\<not> pe_is_dead (dv_peers demo_session 1)"
  by (simp_all add: demo_session_def demo_pair_defs slots_of_def handshake_of_def index_link_def hlist_add_head_def)

lemma demo_session_begins: "fst (wg_noise_handshake_begin_session demo_env 1 demo_session)"
  using demo_session_simps(3) [unfolded slots_of_def]
  by (simp add: wg_noise_handshake_begin_session_def keypair_create_def set_entry_def setup_aeads_def alloc_aead_def
      setkey_aead_def add_new_keypair_eq wg_noise_keypair_put_def wg_index_hashtable_replace_def hlist_unhashed_def
      slots_of_def zero_keypairs_def Let_def del: One_nat_def)


lemma demo_session_installs:
  obtains wg' kp where "wg_noise_handshake_begin_session demo_env 1 demo_session = (True, wg')" "dv_keypairs wg' 100 = Some kp"
proof -
  obtain wg' where b: "wg_noise_handshake_begin_session demo_env 1 demo_session = (True, wg')"
    using demo_session_begins by (metis prod.collapse)
  have "dv_keypairs (snd (wg_noise_handshake_begin_session demo_env 1 demo_session)) 100 \<noteq> None"
    using demo_session_simps(3) [unfolded slots_of_def]
    by (simp add: wg_noise_handshake_begin_session_def keypair_create_def set_entry_def setup_aeads_def alloc_aead_def
        setkey_aead_def add_new_keypair_eq wg_noise_keypair_put_def wg_index_hashtable_replace_def hlist_unhashed_def
        slots_of_def zero_keypairs_def Let_def del: One_nat_def)
  then show thesis using that b by auto
qed

theorem session_installed_witness:
  "\<exists>wg' kp. wg_noise_handshake_begin_session demo_env 1 demo_session = (True, wg') \<and>
     dv_keypairs wg' 100 = Some kp \<and> next_keypair (slots_of wg' 1) = Some 100 \<and>
     (\<exists>t. kp_aead_enc kp = Some t \<and> dv_aeads wg' t = Some (sk_key (kp_sending kp)))"
proof -
  obtain wg' where b: "wg_noise_handshake_begin_session demo_env 1 demo_session = (True, wg')"
    using demo_session_begins by (metis prod.collapse)
  have "keypairs_ok 1 (\<lambda>_. 0) demo_session"
    by (simp add: keypairs_ok_def kp_ok_def slot_refs_def opt_refs_def zero_keypairs_def del: One_nat_def)
  from session_installed [OF this b, of 100] show ?thesis using b by (auto simp del: One_nat_def)
qed

theorem keypair_references_witness:
  "\<exists>held wg'. (kp_step 1)\<^sup>*\<^sup>* (\<lambda>_. 0, demo_session) (held, wg') \<and>
     (\<exists>kp. dv_keypairs wg' 100 = Some kp \<and> kp_refcount kp = slot_refs (slots_of wg' 1) 100 + held 100)"
proof -
  obtain wg' kp where b: "wg_noise_handshake_begin_session demo_env 1 demo_session = (True, wg')" "dv_keypairs wg' 100 = Some kp"
    using demo_session_installs .
  have "kp_step 1 (\<lambda>_. 0, demo_session) (\<lambda>_. 0, wg')" by (rule kp_session [OF _ b(1)]) simp
  then have r: "(kp_step 1)\<^sup>*\<^sup>* (\<lambda>_. 0, demo_session) (\<lambda>_. 0, wg')" by simp
  from keypair_references [OF this] b(2) have "kp_refcount kp = slot_refs (slots_of wg' 1) 100 + 0"
    using demo_session_simps(1-3) by blast
  then show ?thesis using r b(2) by (intro exI [of _ "\<lambda>_. 0"] exI [of _ wg']) simp
qed

section \<open>Ownership of the transforms\<close>

lemma owned_mono:
  assumes "aeads_owned w" "dv_aeads w' = dv_aeads w"
    and "\<And>k kp. dv_keypairs w k = Some kp \<Longrightarrow>
      \<exists>kp'. dv_keypairs w' k = Some kp' \<and> kp_aead_enc kp' = kp_aead_enc kp \<and> kp_aead_dec kp' = kp_aead_dec kp"
  shows "aeads_owned w'"
  using assms unfolding aeads_owned_def by metis

lemma owned_put: "aeads_owned w \<Longrightarrow> aeads_owned (wg_noise_keypair_put x now w)"
  by (erule owned_mono) (auto simp: wg_noise_keypair_put_def keypair_free_kref_def index_remove_def keypair_at_def Let_def
      split: option.split)

lemma owned_add_new: "aeads_owned w \<Longrightarrow> aeads_owned (add_new_keypair p k w)"
proof -
  assume "aeads_owned w"
  then have "aeads_owned (upd_slots p f w)" for f by (simp add: aeads_owned_def)
  then show ?thesis by (auto simp: add_new_keypair_eq Let_def intro!: owned_put)
qed

lemma is_dead_kept:
  "keypair_create env q wg = (x, w) \<Longrightarrow> pe_is_dead (dv_peers w p) = pe_is_dead (dv_peers wg p)"
  "setup_aeads env k w = (b, w2) \<Longrightarrow> pe_is_dead (dv_peers w2 p) = pe_is_dead (dv_peers w p)"
  by (auto simp: keypair_create_def set_entry_def setup_aeads_def alloc_aead_def setkey_aead_def Let_def
      split: option.splits if_splits)

lemma owned_setup:
  assumes "setup_aeads env k w = (b, w2)" "dv_keypairs w k = Some kp" "kp_aead_enc kp = None" "kp_aead_dec kp = None"
    and "aeads_owned w"
  shows "aeads_owned w2" "aeads_owned (keypair_free_rcu k w2)"
proof -
  have old: "\<exists>j kp'. j \<noteq> k \<and> dv_keypairs w j = Some kp' \<and> (kp_aead_enc kp' = Some t \<or> kp_aead_dec kp' = Some t)"
    if "dv_aeads w t \<noteq> None" for t
    using assms(2-5) that unfolding aeads_owned_def by (metis option.distinct(1) option.inject)
  note u = setup_aeads_def alloc_aead_def setkey_aead_def keypair_at_def Let_def
  have "\<exists>j kp'. dv_keypairs w2 j = Some kp' \<and> (kp_aead_enc kp' = Some t \<or> kp_aead_dec kp' = Some t)"
    if "dv_aeads w2 t \<noteq> None" for t
  proof (cases "dv_aeads w t = None")
    case True
    then have "kp_aead_enc (the (dv_keypairs w2 k)) = Some t \<or> kp_aead_dec (the (dv_keypairs w2 k)) = Some t"
      "dv_keypairs w2 k \<noteq> None"
      using assms(1-4) that by (auto simp: u split: option.splits if_splits)
    then show ?thesis by (metis option.collapse)
  next
    case False
    from old [OF this] obtain j kp' where j: "j \<noteq> k" "dv_keypairs w j = Some kp'"
      "kp_aead_enc kp' = Some t \<or> kp_aead_dec kp' = Some t" by blast
    have "dv_keypairs w2 j = dv_keypairs w j" using assms(1) j(1) by (auto simp: u split: option.splits if_splits)
    then show ?thesis using j by metis
  qed
  then show "aeads_owned w2" by (simp add: aeads_owned_def)
  have "\<exists>j kp'. dv_keypairs (keypair_free_rcu k w2) j = Some kp' \<and> (kp_aead_enc kp' = Some t \<or> kp_aead_dec kp' = Some t)"
    if t: "dv_aeads (keypair_free_rcu k w2) t \<noteq> None" for t
  proof -
    have "dv_aeads w t \<noteq> None"
      using assms(1-4) t by (auto simp: u keypair_free_rcu_def free_aead_def kfree_keypair_def split: option.splits if_splits)
    from old [OF this] obtain j kp' where j: "j \<noteq> k" "dv_keypairs w j = Some kp'"
      "kp_aead_enc kp' = Some t \<or> kp_aead_dec kp' = Some t" by blast
    have "dv_keypairs w2 j = dv_keypairs w j" using assms(1) j(1) by (auto simp: u split: option.splits if_splits)
    then show ?thesis using j by (metis free_rcu_simps(1) fun_upd_other)
  qed
  then show "aeads_owned (keypair_free_rcu k w2)" by (simp add: aeads_owned_def)
qed




end
