(* ===== verification/WG_Packets.thy ===== *)
theory WG_Packets
  imports WG_Keypairs
begin

unbundle bit_operations_syntax

text \<open>
  Packets on their way through the driver: the operations on socket buffers and the part of
  \<^verbatim>\<open>queueing.h\<close> that moves packets between the queues of a device and of a peer. A batch of
  packets (a list of buffers linked by their \<^verbatim>\<open>next\<close> pointers) is known by the address of its
  first packet, whose control block holds the state and the keypair; \<open>dv_inflight\<close> has the
  batches that are in some queue.
\<close>

section \<open>Socket buffers\<close>

definition skb_pull :: "nat \<Rightarrow> packet \<Rightarrow> packet" where
  "skb_pull n skb = skb\<lparr>pk_data := pk_data skb + n\<rparr>"

definition skb_push :: "nat \<Rightarrow> packet \<Rightarrow> packet" where
  "skb_push n skb = skb\<lparr>pk_data := pk_data skb - n\<rparr>"

text \<open>The bytes from \<^verbatim>\<open>skb->data\<close> on are replaced.\<close>

definition skb_set_bytes :: "bytes \<Rightarrow> packet \<Rightarrow> packet" where
  "skb_set_bytes bs skb = skb\<lparr>pk_buf := take (pk_data skb) (pk_buf skb) @ bs\<rparr>"

definition pskb_trim :: "nat \<Rightarrow> packet \<Rightarrow> packet" where
  "pskb_trim len skb = skb_set_bytes (take len (pk_bytes skb)) skb"

text \<open>A buffer with too little room in front is copied into a larger one.\<close>

definition skb_cow_head :: "nat \<Rightarrow> packet \<Rightarrow> packet" where
  "skb_cow_head room skb =
     (let k = room - pk_data skb
      in skb\<lparr>pk_buf := replicate k 0 @ pk_buf skb, pk_data := pk_data skb + k,
             pk_network_header := pk_network_header skb + k, pk_transport_header := pk_transport_header skb + k\<rparr>)"

definition network_bytes :: "packet \<Rightarrow> bytes" where
  "network_bytes skb = drop (pk_network_header skb) (pk_buf skb)"

definition wg_check_packet_protocol :: "env \<Rightarrow> packet \<Rightarrow> bool" where
  "wg_check_packet_protocol env skb \<longleftrightarrow>
     (let real_protocol = e_parse_protocol env (network_bytes skb)
      in real_protocol \<noteq> 0 \<and> pk_protocol skb = real_protocol)"

text \<open>
  The header fields of the buffer are zeroed, except for the flow hash when the packet is
  being encapsulated.
\<close>

definition wg_reset_packet :: "packet \<Rightarrow> bool \<Rightarrow> packet" where
  "wg_reset_packet skb encapsulating =
     skb\<lparr>pk_hash := (if encapsulating then pk_hash skb else 0), pk_protocol := 0, pk_mark := 0, pk_iif := 0,
         pk_csum_partial := False, pk_csum_unnecessary := False,
         pk_network_header := pk_data skb, pk_transport_header := pk_data skb\<rparr>"

section \<open>Batches\<close>

definition batch :: "wg_device \<Rightarrow> addr \<Rightarrow> packet list" where
  "batch wg a = the (dv_inflight wg a)"

definition put_batch :: "addr \<Rightarrow> packet list \<Rightarrow> wg_device \<Rightarrow> wg_device" where
  "put_batch a xs wg = wg\<lparr>dv_inflight := (dv_inflight wg)(a \<mapsto> xs)\<rparr>"

definition free_batch :: "addr \<Rightarrow> wg_device \<Rightarrow> wg_device" where
  "free_batch a wg = wg\<lparr>dv_inflight := (dv_inflight wg)(a := None)\<rparr>"

definition upd_first :: "(packet \<Rightarrow> packet) \<Rightarrow> packet list \<Rightarrow> packet list" where
  "upd_first f xs = (case xs of [] \<Rightarrow> [] | x # xs \<Rightarrow> f x # xs)"

definition set_state :: "addr \<Rightarrow> packet_state \<Rightarrow> wg_device \<Rightarrow> wg_device" where
  "set_state a s wg = put_batch a (upd_first (\<lambda>x. x\<lparr>cb_state := s\<rparr>) (batch wg a)) wg"

definition packet_state_of :: "wg_device \<Rightarrow> addr \<Rightarrow> packet_state" where
  "packet_state_of wg a = cb_state (hd (batch wg a))"

definition packet_keypair :: "wg_device \<Rightarrow> addr \<Rightarrow> addr option" where
  "packet_keypair wg a = cb_keypair (hd (batch wg a))"

text \<open>\<^verbatim>\<open>keypair->entry.peer\<close>, and \<^verbatim>\<open>PACKET_PEER(skb)\<close>.\<close>

definition keypair_peer :: "wg_device \<Rightarrow> addr \<Rightarrow> peer_id" where
  "keypair_peer wg k = the (ie_peer (ih_entry (dv_index_hashtable wg) (KeypairEntry k)))"

definition PACKET_PEER :: "wg_device \<Rightarrow> addr \<Rightarrow> peer_id" where
  "PACKET_PEER wg a = keypair_peer wg (the (packet_keypair wg a))"

section \<open>The queues of the device and of the peer\<close>

datatype direction = Tx | Rx

definition device_queue :: "direction \<Rightarrow> wg_device \<Rightarrow> addr crypt_queue" where
  "device_queue d wg = (case d of Tx \<Rightarrow> dv_encrypt_queue wg | Rx \<Rightarrow> dv_decrypt_queue wg)"

definition set_device_queue :: "direction \<Rightarrow> addr crypt_queue \<Rightarrow> wg_device \<Rightarrow> wg_device" where
  "set_device_queue d q wg = (case d of Tx \<Rightarrow> wg\<lparr>dv_encrypt_queue := q\<rparr> | Rx \<Rightarrow> wg\<lparr>dv_decrypt_queue := q\<rparr>)"

definition peer_queue :: "direction \<Rightarrow> wg_device \<Rightarrow> peer_id \<Rightarrow> prev_queue" where
  "peer_queue d wg p = (case d of Tx \<Rightarrow> pe_tx_queue (dv_peers wg p) | Rx \<Rightarrow> pe_rx_queue (dv_peers wg p))"

definition set_peer_queue :: "direction \<Rightarrow> peer_id \<Rightarrow> prev_queue \<Rightarrow> wg_device \<Rightarrow> wg_device" where
  "set_peer_queue d p x =
     (case d of Tx \<Rightarrow> upd_peer p (\<lambda>q. q\<lparr>pe_tx_queue := x\<rparr>) | Rx \<Rightarrow> upd_peer p (\<lambda>q. q\<lparr>pe_rx_queue := x\<rparr>))"

definition wg_queue_enqueue_per_device_and_peer ::
    "env \<Rightarrow> direction \<Rightarrow> peer_id \<Rightarrow> addr \<Rightarrow> wg_device \<Rightarrow> errno option \<times> wg_device" where
  "wg_queue_enqueue_per_device_and_peer env d p a wg =
     (let wg = set_state a PACKET_STATE_UNCRYPTED wg;
          (ok, pq) = wg_prev_queue_enqueue (peer_queue d wg p) a in
      if \<not> ok then (Some ENOSPC, wg)
      else
        let wg = set_peer_queue d p pq wg;
            dq = device_queue d wg;
            cpu = wg_cpumask_next_online (e_online env) (cq_last_cpu dq);
            dq = dq\<lparr>cq_last_cpu := int cpu\<rparr>;
            (full, dq) = ptr_ring_produce dq a in
        if full \<noteq> None then (Some EPIPE, set_device_queue d dq wg)
        else (None, set_device_queue d (queue_work_on cpu dq) wg))"

definition get_peer_ref :: "peer_id \<Rightarrow> wg_device \<Rightarrow> wg_device" where
  "get_peer_ref p wg = wg\<lparr>dv_refs := snd (wg_peer_get (dv_refs wg) p)\<rparr>"

definition wg_queue_enqueue_per_peer_tx :: "env \<Rightarrow> addr \<Rightarrow> packet_state \<Rightarrow> wg_device \<Rightarrow> wg_device" where
  "wg_queue_enqueue_per_peer_tx env a state wg =
     (let p = PACKET_PEER wg a;
          wg = get_peer_ref p wg;
          wg = set_state a state wg;
          wg = upd_peer p (\<lambda>q. q\<lparr>pe_serial_work_cpu :=
                 wg_cpumask_choose_online (e_online env) (pe_serial_work_cpu q) (unat (ucast (pe_internal_id q) :: u32)),
                 pe_transmit_packet_work := True\<rparr>) wg
      in wg_peer_put (Some p) wg)"

definition wg_queue_enqueue_per_peer_rx :: "addr \<Rightarrow> packet_state \<Rightarrow> wg_device \<Rightarrow> wg_device" where
  "wg_queue_enqueue_per_peer_rx a state wg =
     (let p = PACKET_PEER wg a;
          wg = get_peer_ref p wg;
          wg = set_state a state wg;
          wg = upd_peer p (\<lambda>q. q\<lparr>pe_napi_scheduled := True\<rparr>) wg
      in wg_peer_put (Some p) wg)"

end
