(* ===== verification/WG_Cookie.thy ===== *)
theory WG_Cookie
  imports WG_Instances
begin

text \<open>
  The cookies of \<^verbatim>\<open>cookie.c\<close>: the two MACs every handshake message carries, the cookie that a
  loaded responder gives to an address instead of an answer, and its use by the initiator.
  BLAKE2s and XChaCha20Poly1305 are the functions of the crypto library; incremental
  hashing is the hash of the concatenation.
\<close>

section \<open>Keys\<close>

definition wg_cookie_checker_init :: "env \<Rightarrow> cookie_checker \<Rightarrow> cookie_checker" where
  "wg_cookie_checker_init env checker =
     checker\<lparr>ck_secret_birthdate := e_boottime env, ck_secret := e_cookie_secret env\<rparr>"

definition mac1_key_label :: bytes where
  "mac1_key_label = [109, 97, 99, 49, 45, 45, 45, 45]"

definition cookie_key_label :: bytes where
  "cookie_key_label = [99, 111, 111, 107, 105, 101, 45, 45]"

definition precompute_key :: "env \<Rightarrow> bytes \<Rightarrow> bytes \<Rightarrow> bytes" where
  "precompute_key env pubkey label = blake2s env NOISE_SYMMETRIC_KEY_LEN [] (label @ pubkey)"

definition wg_cookie_checker_precompute_device_keys :: "env \<Rightarrow> wg_device \<Rightarrow> wg_device" where
  "wg_cookie_checker_precompute_device_keys env wg =
     (let si = dv_static_identity wg; checker = dv_cookie_checker wg in
      if si_has_identity si then
        wg\<lparr>dv_cookie_checker := checker
          \<lparr>ck_cookie_encryption_key := precompute_key env (si_public si) cookie_key_label,
           ck_message_mac1_key := precompute_key env (si_public si) mac1_key_label\<rparr>\<rparr>
      else
        wg\<lparr>dv_cookie_checker := checker
          \<lparr>ck_cookie_encryption_key := replicate NOISE_SYMMETRIC_KEY_LEN 0,
           ck_message_mac1_key := replicate NOISE_SYMMETRIC_KEY_LEN 0\<rparr>\<rparr>)"

definition wg_cookie_checker_precompute_peer_keys :: "env \<Rightarrow> wg_peer \<Rightarrow> wg_peer" where
  "wg_cookie_checker_precompute_peer_keys env p =
     (let remote_static = hs_remote_static (pe_handshake p) in
      p\<lparr>pe_latest_cookie := (pe_latest_cookie p)
        \<lparr>co_cookie_decryption_key := precompute_key env remote_static cookie_key_label,
         co_message_mac1_key := precompute_key env remote_static mac1_key_label\<rparr>\<rparr>)"

definition wg_cookie_init :: "cookie \<Rightarrow> cookie" where
  "wg_cookie_init c =
     \<lparr>co_birthdate = 0, co_is_valid = False, co_cookie = replicate COOKIE_LEN 0,
      co_have_sent_mac1 = False, co_last_mac1_sent = replicate COOKIE_LEN 0,
      co_cookie_decryption_key = replicate NOISE_SYMMETRIC_KEY_LEN 0,
      co_message_mac1_key = replicate NOISE_SYMMETRIC_KEY_LEN 0\<rparr>"

section \<open>MACs\<close>

text \<open>The offset of a member of \<^verbatim>\<open>struct message_macs\<close> ends the part of the message that is hashed.\<close>

definition compute_mac1 :: "env \<Rightarrow> bytes \<Rightarrow> bytes \<Rightarrow> bytes" where
  "compute_mac1 env message key =
     blake2s env COOKIE_LEN key (take (length message - sizeof_macs + 0) message)"

definition compute_mac2 :: "env \<Rightarrow> bytes \<Rightarrow> bytes \<Rightarrow> bytes" where
  "compute_mac2 env message cookie =
     blake2s env COOKIE_LEN cookie (take (length message - sizeof_macs + COOKIE_LEN) message)"

text \<open>The overlay of \<^verbatim>\<open>struct message_macs\<close> on the end of a message.\<close>

definition macs_of :: "bytes \<Rightarrow> message_macs" where
  "macs_of message = decode_macs (drop (length message - sizeof_macs) message)"

definition set_mac1 :: "bytes \<Rightarrow> bytes \<Rightarrow> bytes" where
  "set_mac1 m message =
     take (length message - sizeof_macs) message @ m @ drop (length message - sizeof_macs + COOKIE_LEN) message"

definition set_mac2 :: "bytes \<Rightarrow> bytes \<Rightarrow> bytes" where
  "set_mac2 m message = take (length message - sizeof_macs + COOKIE_LEN) message @ m"

definition cookie_source :: "packet \<Rightarrow> bytes" where
  "cookie_source skb =
     (if pk_protocol skb = htons ETH_P_IP then ip_saddr (network (pk_view skb))
      else if pk_protocol skb = htons ETH_P_IPV6 then ipv6_saddr (network (pk_view skb))
      else []) @ udp_source skb"

definition make_cookie :: "env \<Rightarrow> packet \<Rightarrow> cookie_checker \<Rightarrow> bytes \<times> cookie_checker" where
  "make_cookie env skb checker =
     (let checker =
        (if wg_birthdate_has_expired env (ck_secret_birthdate checker) COOKIE_SECRET_MAX_AGE
         then checker\<lparr>ck_secret_birthdate := e_boottime env, ck_secret := e_cookie_secret env\<rparr>
         else checker)
      in (blake2s env COOKIE_LEN (ck_secret checker) (cookie_source skb), checker))"

definition wg_cookie_validate_packet :: "env \<Rightarrow> packet \<Rightarrow> bool \<Rightarrow> wg_device \<Rightarrow> cookie_mac_state \<times> wg_device" where
  "wg_cookie_validate_packet env skb check_cookie wg =
     (let macs = macs_of (pk_bytes skb);
          computed_mac = compute_mac1 env (pk_bytes skb) (ck_message_mac1_key (dv_cookie_checker wg)) in
      if computed_mac \<noteq> mac1 macs then (INVALID_MAC, wg)
      else if \<not> check_cookie then (VALID_MAC_BUT_NO_COOKIE, wg)
      else
        let (cookie, checker) = make_cookie env skb (dv_cookie_checker wg);
            wg = wg\<lparr>dv_cookie_checker := checker\<rparr>;
            computed_mac = compute_mac2 env (pk_bytes skb) cookie in
        if computed_mac \<noteq> mac2 macs then (VALID_MAC_BUT_NO_COOKIE, wg)
        else
          let (allowed, rl) = wg_ratelimiter_allow (hsip env) (pk_view skb) (e_net env)
                (e_boottime env) (e_rl_mem env) (dv_ratelimiter wg);
              wg = wg\<lparr>dv_ratelimiter := rl\<rparr> in
          if \<not> allowed then (VALID_MAC_WITH_COOKIE_BUT_RATELIMITED, wg)
          else (VALID_MAC_WITH_COOKIE, wg))"

definition wg_cookie_add_mac_to_packet :: "env \<Rightarrow> bytes \<Rightarrow> peer_id \<Rightarrow> wg_device \<Rightarrow> bytes \<times> wg_device" where
  "wg_cookie_add_mac_to_packet env message p wg =
     (let c = pe_latest_cookie (dv_peers wg p);
          m = compute_mac1 env message (co_message_mac1_key c);
          message = set_mac1 m message;
          c = c\<lparr>co_last_mac1_sent := m, co_have_sent_mac1 := True\<rparr>;
          wg = upd_peer p (\<lambda>q. q\<lparr>pe_latest_cookie := c\<rparr>) wg in
      if co_is_valid c \<and>
         \<not> wg_birthdate_has_expired env (co_birthdate c) (COOKIE_SECRET_MAX_AGE - COOKIE_SECRET_LATENCY)
      then (set_mac2 (compute_mac2 env message (co_cookie c)) message, wg)
      else (set_mac2 (replicate COOKIE_LEN 0) message, wg))"

section \<open>Cookie messages\<close>

definition wg_cookie_message_create ::
    "env \<Rightarrow> packet \<Rightarrow> u32 \<Rightarrow> wg_device \<Rightarrow> message_handshake_cookie \<times> wg_device" where
  "wg_cookie_message_create env skb index wg =
     (let macs = macs_of (pk_bytes skb);
          (cookie, checker) = make_cookie env skb (dv_cookie_checker wg);
          wg = wg\<lparr>dv_cookie_checker := checker\<rparr>
      in (\<lparr>mc_type = MESSAGE_HANDSHAKE_COOKIE, mc_receiver_index = index, mc_nonce = e_cookie_nonce env,
           mc_encrypted_cookie = xchacha20poly1305_encrypt env (ck_cookie_encryption_key checker)
             (e_cookie_nonce env) (mac1 macs) cookie\<rparr>, wg))"

definition wg_cookie_message_consume :: "env \<Rightarrow> message_handshake_cookie \<Rightarrow> wg_device \<Rightarrow> wg_device" where
  "wg_cookie_message_consume env src wg =
     (let (r, tbl, refs) = wg_index_hashtable_lookup (dv_index_hashtable wg) (dv_refs wg)
            (INDEX_HASHTABLE_HANDSHAKE OR INDEX_HASHTABLE_KEYPAIR) (mc_receiver_index src);
          wg = wg\<lparr>dv_index_hashtable := tbl, dv_refs := refs\<rparr> in
      case r of
        None \<Rightarrow> wg
      | Some (e, p) \<Rightarrow>
          let c = pe_latest_cookie (dv_peers wg p) in
          if \<not> co_have_sent_mac1 c then wg_peer_put (Some p) wg
          else
            case xchacha20poly1305_decrypt env (co_cookie_decryption_key c) (mc_nonce src)
                   (co_last_mac1_sent c) (mc_encrypted_cookie src) of
              None \<Rightarrow> wg_peer_put (Some p) wg
            | Some cookie \<Rightarrow>
                wg_peer_put (Some p)
                  (upd_peer p (\<lambda>q. q\<lparr>pe_latest_cookie := c
                    \<lparr>co_cookie := cookie, co_birthdate := e_boottime env, co_is_valid := True,
                     co_have_sent_mac1 := False\<rparr>\<rparr>) wg))"


section \<open>Specification\<close>

text \<open>The environment at another time.\<close>

definition at_time :: "env \<Rightarrow> u64 \<Rightarrow> env" where
  "at_time env t = env\<lparr>e_boottime := t\<rparr>"

text \<open>Both sides have precomputed their keys for the responder's public key.\<close>

definition cookie_keys_match :: "env \<Rightarrow> wg_device \<Rightarrow> peer_id \<Rightarrow> wg_device \<Rightarrow> bool" where
  "cookie_keys_match env a p b \<longleftrightarrow>
     si_has_identity (dv_static_identity b) \<and>
     hs_remote_static (pe_handshake (dv_peers a p)) = si_public (dv_static_identity b) \<and>
     (\<exists>b'. b = wg_cookie_checker_precompute_device_keys env b') \<and>
     (\<exists>q. dv_peers a p = wg_cookie_checker_precompute_peer_keys env q)"

definition valid_mac1 :: "env \<Rightarrow> packet \<Rightarrow> wg_device \<Rightarrow> bool" where
  "valid_mac1 env skb wg \<longleftrightarrow>
     mac1 (macs_of (pk_bytes skb)) = compute_mac1 env (pk_bytes skb) (ck_message_mac1_key (dv_cookie_checker wg))"

definition valid_mac2 :: "env \<Rightarrow> packet \<Rightarrow> wg_device \<Rightarrow> bool" where
  "valid_mac2 env skb wg \<longleftrightarrow>
     mac2 (macs_of (pk_bytes skb)) =
       compute_mac2 env (pk_bytes skb) (fst (make_cookie env skb (dv_cookie_checker wg)))"

definition ratelimit_allows :: "env \<Rightarrow> packet \<Rightarrow> wg_device \<Rightarrow> bool" where
  "ratelimit_allows env skb wg \<longleftrightarrow>
     fst (wg_ratelimiter_allow (hsip env) (pk_view skb) (e_net env) (e_boottime env) (e_rl_mem env)
       (dv_ratelimiter wg))"

text \<open>
  A concrete exchange: an initiator with public key 3..3 that knows the responder 4..4, two
  messages that consist of the MACs only, and the packets that carry them.
\<close>

definition demo_initiator :: wg_device where
  "demo_initiator =
     (let wg = upd_peer 1 (wg_cookie_checker_precompute_peer_keys demo_env)
           (demo_with_peer (replicate 32 3) 1 (replicate 32 4))
      in wg\<lparr>dv_index_hashtable := index_link (dv_index_hashtable wg) 0 (HandshakeEntry 1)\<rparr>)"

definition demo_responder :: wg_device where
  "demo_responder = wg_cookie_checker_precompute_device_keys demo_env (demo_device (replicate 32 4))"

definition demo_udp :: "bytes \<Rightarrow> packet" where
  "demo_udp payload = zero_packet
     \<lparr>pk_buf := replicate 12 0 @ [10, 0, 0, 1, 10, 0, 0, 2] @ [39, 15] @ replicate 6 0 @ payload,
      pk_data := 28, pk_transport_header := 20, pk_protocol := htons ETH_P_IP\<rparr>"

definition demo_sent1 :: "bytes \<times> wg_device" where
  "demo_sent1 = wg_cookie_add_mac_to_packet (at_time demo_env 1000000000000) (replicate 32 1) 1 demo_initiator"

definition demo_first :: packet where
  "demo_first = demo_udp (fst demo_sent1)"

definition demo_reply :: message_handshake_cookie where
  "demo_reply = fst (wg_cookie_message_create (at_time demo_env 1000000000000) demo_first 0 demo_responder)"

definition demo_loaded :: wg_device where
  "demo_loaded = snd (wg_cookie_message_create (at_time demo_env 1000000000000) demo_first 0 demo_responder)"

definition demo_sent2 :: "bytes \<times> wg_device" where
  "demo_sent2 = wg_cookie_add_mac_to_packet (at_time demo_env 1000000000000) (replicate 32 2) 1
     (wg_cookie_message_consume (at_time demo_env 1000000000000) demo_reply (snd demo_sent1))"

definition demo_second :: packet where
  "demo_second = demo_udp (fst demo_sent2)"

section \<open>MACs\<close>

lemma at_time_simps [simp]:
  "blake2s (at_time env t) = blake2s env" "xchacha20poly1305_encrypt (at_time env t) = xchacha20poly1305_encrypt env"
  "xchacha20poly1305_decrypt (at_time env t) = xchacha20poly1305_decrypt env" "e_boottime (at_time env t) = t"
  "hash_lengths (at_time env t) = hash_lengths env" "hsip (at_time env t) = hsip env"
  "e_net (at_time env t) = e_net env" "e_rl_mem (at_time env t) = e_rl_mem env"
  "compute_mac1 (at_time env t) = compute_mac1 env" "compute_mac2 (at_time env t) = compute_mac2 env"
  by (simp_all add: at_time_def hash_lengths_def compute_mac1_def compute_mac2_def fun_eq_iff)

lemma length_compute_mac [simp]:
  assumes "hash_lengths env"
  shows "length (compute_mac1 env m k) = 16" "length (compute_mac2 env m k) = 16"
  using assms by (simp_all add: hash_lengths_def compute_mac1_def compute_mac2_def)

lemma length_set_mac [simp]:
  assumes "32 \<le> length m"
  shows "length x = 16 \<Longrightarrow> length (set_mac1 x m) = length m" "length x = 16 \<Longrightarrow> length (set_mac2 x m) = length m"
  using assms by (simp_all add: set_mac1_def set_mac2_def)

lemma macs_of_set_mac:
  assumes "32 \<le> length m" "length x = 16" "length y = 16"
  shows "macs_of (set_mac2 y (set_mac1 x m)) = \<lparr>mac1 = x, mac2 = y\<rparr>"
  using assms by (simp add: macs_of_def decode_macs_def set_mac1_def set_mac2_def field_def)

lemma compute_mac1_set_mac:
  assumes "32 \<le> length m" "length x = 16" "length y = 16"
  shows "compute_mac1 env (set_mac2 y (set_mac1 x m)) k = compute_mac1 env m k"
    and "compute_mac2 env (set_mac2 y (set_mac1 x m)) k = compute_mac2 env (set_mac1 x m) k"
  using assms by (simp_all add: compute_mac1_def compute_mac2_def set_mac1_def set_mac2_def)

lemma add_mac_to_packet:
  assumes "32 \<le> length m" "hash_lengths env" "wg_cookie_add_mac_to_packet env m p wg = (m', wg')"
  defines "c \<equiv> pe_latest_cookie (dv_peers wg p)"
  defines "x \<equiv> compute_mac1 env m (co_message_mac1_key c)"
  shows "\<exists>y. m' = set_mac2 y (set_mac1 x m) \<and> length y = 16 \<and>
      (co_is_valid c \<longrightarrow>
       \<not> wg_birthdate_has_expired env (co_birthdate c) (COOKIE_SECRET_MAX_AGE - COOKIE_SECRET_LATENCY) \<longrightarrow>
       y = compute_mac2 env (set_mac1 x m) (co_cookie c))"
    and "wg' = upd_peer p (\<lambda>q. q\<lparr>pe_latest_cookie := c\<lparr>co_last_mac1_sent := x, co_have_sent_mac1 := True\<rparr>\<rparr>) wg"
    and "length x = 16"
  using assms by (auto simp: wg_cookie_add_mac_to_packet_def Let_def split: if_splits)

lemma validate_cases:
  "wg_cookie_validate_packet env skb check_cookie wg =
     (let checker = snd (make_cookie env skb (dv_cookie_checker wg));
          rl = snd (wg_ratelimiter_allow (hsip env) (pk_view skb) (e_net env) (e_boottime env) (e_rl_mem env)
            (dv_ratelimiter wg)) in
      if \<not> valid_mac1 env skb wg then (INVALID_MAC, wg)
      else if \<not> check_cookie then (VALID_MAC_BUT_NO_COOKIE, wg)
      else if \<not> valid_mac2 env skb wg then (VALID_MAC_BUT_NO_COOKIE, wg\<lparr>dv_cookie_checker := checker\<rparr>)
      else (if ratelimit_allows env skb wg then VALID_MAC_WITH_COOKIE else VALID_MAC_WITH_COOKIE_BUT_RATELIMITED,
            wg\<lparr>dv_cookie_checker := checker, dv_ratelimiter := rl\<rparr>))"
  by (auto simp: wg_cookie_validate_packet_def valid_mac1_def valid_mac2_def ratelimit_allows_def Let_def
      split: prod.split)

lemma make_cookie_fresh:
  "\<not> wg_birthdate_has_expired env (ck_secret_birthdate checker) COOKIE_SECRET_MAX_AGE \<Longrightarrow>
   make_cookie env skb checker = (blake2s env 16 (ck_secret checker) (cookie_source skb), checker)"
  by (simp add: make_cookie_def)

lemma make_cookie_secret:
  "make_cookie env skb checker = (c, checker') \<Longrightarrow> c = blake2s env 16 (ck_secret checker') (cookie_source skb)"
  "make_cookie env skb checker = (c, checker') \<Longrightarrow>
     ck_message_mac1_key checker' = ck_message_mac1_key checker \<and>
     ck_cookie_encryption_key checker' = ck_cookie_encryption_key checker"
  by (auto simp: make_cookie_def Let_def)

lemma cookie_keys_matchD:
  assumes "cookie_keys_match env a p b"
  shows "co_message_mac1_key (pe_latest_cookie (dv_peers a p)) = ck_message_mac1_key (dv_cookie_checker b)"
    and "co_cookie_decryption_key (pe_latest_cookie (dv_peers a p)) = ck_cookie_encryption_key (dv_cookie_checker b)"
proof -
  obtain b' q where "b = wg_cookie_checker_precompute_device_keys env b'"
    "dv_peers a p = wg_cookie_checker_precompute_peer_keys env q"
    "si_has_identity (dv_static_identity b)"
    "hs_remote_static (pe_handshake (dv_peers a p)) = si_public (dv_static_identity b)"
    using assms by (auto simp: cookie_keys_match_def)
  then show "co_message_mac1_key (pe_latest_cookie (dv_peers a p)) = ck_message_mac1_key (dv_cookie_checker b)"
    and "co_cookie_decryption_key (pe_latest_cookie (dv_peers a p)) = ck_cookie_encryption_key (dv_cookie_checker b)"
    by (auto simp: wg_cookie_checker_precompute_device_keys_def wg_cookie_checker_precompute_peer_keys_def Let_def
        split: if_splits)
qed


lemma add_mac_other:
  "dv_index_hashtable (snd (wg_cookie_add_mac_to_packet env m p wg)) = dv_index_hashtable wg"
  "dv_refs (snd (wg_cookie_add_mac_to_packet env m p wg)) = dv_refs wg"
  by (simp_all add: wg_cookie_add_mac_to_packet_def Let_def)

lemma message_create_other:
  "dv_ratelimiter (snd (wg_cookie_message_create env skb i wg)) = dv_ratelimiter wg"
  by (simp add: wg_cookie_message_create_def Let_def split: prod.split)

lemma ratelimiter_by_source:
  "packet_source s = packet_source s' \<Longrightarrow> wg_ratelimiter_allow H s n t m rl = wg_ratelimiter_allow H s' n t m rl"
  by (simp add: wg_ratelimiter_allow_def)

lemma demo_udp_simps:
  "pk_bytes (demo_udp m) = m"
  "cookie_source (demo_udp m) = [10, 0, 0, 1, 39, 15]"
  "packet_source (pk_view (demo_udp m)) = packet_source
     \<lparr>protocol = htons ETH_P_IP, network = replicate 12 0 @ [10, 0, 0, 1, 10, 0, 0, 2]\<rparr>"
  by (simp_all add: demo_udp_def pk_bytes_def cookie_source_def pk_view_def udp_source_def ip_saddr_def
      packet_source_def zero_packet_def)

text \<open>What the initiator has after it got the reply to its first message.\<close>

lemma consume_reply:
  assumes "xaead_correct env" "pe_latest_cookie (dv_peers a p) = c" "co_have_sent_mac1 c"
    and "fst (wg_index_hashtable_lookup (dv_index_hashtable a) (dv_refs a)
      (INDEX_HASHTABLE_HANDSHAKE OR INDEX_HASHTABLE_KEYPAIR) (mc_receiver_index src)) = Some (e, p)"
    and "mc_encrypted_cookie src =
      xchacha20poly1305_encrypt env (co_cookie_decryption_key c) (mc_nonce src) (co_last_mac1_sent c) x"
  shows "pe_latest_cookie (dv_peers (wg_cookie_message_consume env src a) p) =
    c\<lparr>co_cookie := x, co_birthdate := e_boottime env, co_is_valid := True, co_have_sent_mac1 := False\<rparr>"
proof -
  obtain tbl refs where "wg_index_hashtable_lookup (dv_index_hashtable a) (dv_refs a)
      (INDEX_HASHTABLE_HANDSHAKE OR INDEX_HASHTABLE_KEYPAIR) (mc_receiver_index src) = (Some (e, p), tbl, refs)"
    using assms(4) by (metis prod.collapse)
  moreover have "xchacha20poly1305_decrypt env (co_cookie_decryption_key c) (mc_nonce src) (co_last_mac1_sent c)
      (mc_encrypted_cookie src) = Some x" using assms(1,5) by (simp add: xaead_correct_def)
  ultimately show ?thesis using assms(2,3) by (simp add: wg_cookie_message_consume_def Let_def)
qed

text \<open>
  C21. The cookie exchange works: an initiator whose handshake message was answered by a
  cookie message (sealed under the MAC of that message) stores the cookie, and its next
  message, sent while the cookie is fresh and received from the same address and port
  while the responder's secret is unchanged, is accepted by the loaded responder as coming
  with a valid cookie, subject only to the rate limiter.
\<close>

theorem cookie_exchange_completes:
  assumes "hash_lengths env" "xaead_correct env" "cookie_keys_match env a p b"
    and "32 \<le> length m1" "32 \<le> length m2"
    and "wg_cookie_add_mac_to_packet (at_time env t1) m1 p a = (msg1, a1)" "pk_bytes skb1 = msg1"
    and "wg_cookie_message_create (at_time env t2) skb1 i b = (reply, b1)"
    and "fst (wg_index_hashtable_lookup (dv_index_hashtable a1) (dv_refs a1)
           (INDEX_HASHTABLE_HANDSHAKE OR INDEX_HASHTABLE_KEYPAIR) i) = Some (e, p)"
    and "a2 = wg_cookie_message_consume (at_time env t3) reply a1"
    and "\<not> wg_birthdate_has_expired (at_time env t4) t3 (COOKIE_SECRET_MAX_AGE - COOKIE_SECRET_LATENCY)"
    and "wg_cookie_add_mac_to_packet (at_time env t4) m2 p a2 = (msg2, a3)" "pk_bytes skb2 = msg2"
    and "cookie_source skb2 = cookie_source skb1"
    and "\<not> wg_birthdate_has_expired (at_time env t5) (ck_secret_birthdate (dv_cookie_checker b1)) COOKIE_SECRET_MAX_AGE"
  shows "fst (wg_cookie_validate_packet (at_time env t5) skb2 True b1) =
    (if ratelimit_allows (at_time env t5) skb2 b1 then VALID_MAC_WITH_COOKIE
     else VALID_MAC_WITH_COOKIE_BUT_RATELIMITED)"
proof -
  define c where "c = pe_latest_cookie (dv_peers a p)"
  define x where "x = compute_mac1 env m1 (co_message_mac1_key c)"
  have hl: "hash_lengths (at_time env t)" for t using assms(1) by simp
  note first = add_mac_to_packet [OF assms(4) hl assms(6), folded c_def, simplified, folded x_def]
  obtain y where msg1: "pk_bytes skb1 = set_mac2 y (set_mac1 x m1)" "length y = 16" using first(1) assms(7) by auto
  have m1: "mac1 (macs_of (pk_bytes skb1)) = x"
    using macs_of_set_mac [OF assms(4) first(3) msg1(2)] msg1(1) by simp
  obtain k checker where mk: "make_cookie (at_time env t2) skb1 (dv_cookie_checker b) = (k, checker)" by fastforce
  have b1: "b1 = b\<lparr>dv_cookie_checker := checker\<rparr>" and reply: "mc_receiver_index reply = i"
    "mc_encrypted_cookie reply = xchacha20poly1305_encrypt env (ck_cookie_encryption_key checker) (mc_nonce reply) x k"
    using assms(8) mk m1 by (auto simp: wg_cookie_message_create_def Let_def)
  have k: "k = blake2s env 16 (ck_secret checker) (cookie_source skb1)"
    "ck_message_mac1_key checker = ck_message_mac1_key (dv_cookie_checker b)"
    "ck_cookie_encryption_key checker = ck_cookie_encryption_key (dv_cookie_checker b)"
    using make_cookie_secret [OF mk] by auto
  have keys: "co_message_mac1_key c = ck_message_mac1_key checker"
    "co_cookie_decryption_key c = ck_cookie_encryption_key checker"
    using cookie_keys_matchD [OF assms(3)] k by (simp_all add: c_def)
  define c1 where "c1 = c\<lparr>co_last_mac1_sent := x, co_have_sent_mac1 := True\<rparr>"
  define c2 where "c2 = c1\<lparr>co_cookie := k, co_birthdate := t3, co_is_valid := True, co_have_sent_mac1 := False\<rparr>"
  have xc: "xaead_correct (at_time env t3)" using assms(2) by (simp add: xaead_correct_def)
  have "pe_latest_cookie (dv_peers a1 p) = c1" using first(2) by (simp add: c1_def)
  from consume_reply [OF xc this] have c2: "pe_latest_cookie (dv_peers a2 p) = c2"
    using assms(9,10) reply keys by (simp add: c1_def c2_def)
  define x2 where "x2 = compute_mac1 env m2 (co_message_mac1_key c2)"
  note second = add_mac_to_packet [OF assms(5) hl assms(12), unfolded c2, simplified, folded x2_def]
  have msg2: "pk_bytes skb2 = set_mac2 (compute_mac2 env (set_mac1 x2 m2) k) (set_mac1 x2 m2)"
    using second(1) assms(11,13) by (auto simp: c2_def)
  have l: "length (compute_mac2 env (set_mac1 x2 m2) k) = 16" using assms(1) by simp
  note macs2 = macs_of_set_mac [OF assms(5) second(3) l, folded msg2]
    and comp2 = compute_mac1_set_mac [OF assms(5) second(3) l, folded msg2]
  have "make_cookie (at_time env t5) skb2 checker = (k, checker)"
    using make_cookie_fresh assms(14,15) b1 k(1) by simp
  then have "valid_mac1 (at_time env t5) skb2 b1" "valid_mac2 (at_time env t5) skb2 b1"
    using macs2 comp2 keys by (simp_all add: valid_mac1_def valid_mac2_def b1 x2_def c2_def c1_def)
  then show ?thesis by (simp add: validate_cases Let_def)
qed

theorem cookie_exchange_completes_witness:
  "fst (wg_cookie_validate_packet (at_time demo_env 1000000000000) demo_second True demo_loaded) =
     VALID_MAC_WITH_COOKIE"
proof -
  note ex = cookie_exchange_completes [of demo_env demo_initiator 1 demo_responder "replicate 32 1" "replicate 32 2"
    1000000000000 "fst demo_sent1" "snd demo_sent1" demo_first 1000000000000 0 demo_reply demo_loaded
    "HandshakeEntry 1" _ 1000000000000 1000000000000 "fst demo_sent2" "snd demo_sent2" demo_second 1000000000000]
  have "si_has_identity (dv_static_identity demo_responder)"
    "hs_remote_static (pe_handshake (dv_peers demo_initiator 1)) = si_public (dv_static_identity demo_responder)"
    by (simp_all add: demo_responder_def demo_initiator_def demo_defs wg_cookie_checker_precompute_device_keys_def
        wg_cookie_checker_precompute_peer_keys_def)
  moreover have "dv_peers demo_initiator 1 = wg_cookie_checker_precompute_peer_keys demo_env
      (dv_peers (demo_with_peer (replicate 32 3) 1 (replicate 32 4)) 1)"
    by (simp add: demo_initiator_def Let_def)
  ultimately have "cookie_keys_match demo_env demo_initiator 1 demo_responder"
    unfolding cookie_keys_match_def using demo_responder_def by blast
  moreover have "pk_bytes demo_first = fst demo_sent1" "pk_bytes demo_second = fst demo_sent2"
    by (simp_all add: demo_first_def demo_second_def demo_udp_simps)
  moreover have "fst (wg_index_hashtable_lookup (dv_index_hashtable demo_initiator) (dv_refs demo_initiator)
      (INDEX_HASHTABLE_HANDSHAKE OR INDEX_HASHTABLE_KEYPAIR) 0) = Some (HandshakeEntry 1, 1)"
    by (simp add: demo_initiator_def demo_defs wg_index_hashtable_lookup_def index_find_def index_link_def
        hlist_add_head_def INDEX_HASHTABLE_HANDSHAKE_def INDEX_HASHTABLE_KEYPAIR_def)
  moreover have "\<not> wg_birthdate_has_expired (at_time demo_env 1000000000000) 1000000000000
      (COOKIE_SECRET_MAX_AGE - COOKIE_SECRET_LATENCY)"
    by (simp add: wg_birthdate_has_expired_def COOKIE_SECRET_MAX_AGE_def COOKIE_SECRET_LATENCY_def NSEC_PER_SEC_def)
  moreover have "cookie_source demo_second = cookie_source demo_first"
    by (simp add: demo_first_def demo_second_def demo_udp_simps)
  moreover have e: "\<not> wg_birthdate_has_expired (at_time demo_env 1000000000000)
      (ck_secret_birthdate (dv_cookie_checker demo_responder)) COOKIE_SECRET_MAX_AGE"
    by (simp add: wg_birthdate_has_expired_def COOKIE_SECRET_MAX_AGE_def NSEC_PER_SEC_def demo_responder_def
        demo_defs wg_cookie_checker_precompute_device_keys_def)
  moreover from e have "dv_cookie_checker demo_loaded = dv_cookie_checker demo_responder"
    by (simp add: demo_loaded_def wg_cookie_message_create_def make_cookie_fresh)
  moreover have "fst (wg_ratelimiter_allow (hsip demo_env)
      \<lparr>protocol = htons ETH_P_IP, network = replicate 12 0 @ [10, 0, 0, 1, 10, 0, 0, 2]\<rparr> (e_net demo_env)
      1000000000000 (e_rl_mem demo_env) (dv_ratelimiter demo_responder))"
    by (simp add: demo_responder_def demo_defs wg_cookie_checker_precompute_device_keys_def
        wg_ratelimiter_allow_def packet_source_def buckets_def bucket_of_def bucket_allow.simps word_less_nat_alt)
  then have "ratelimit_allows (at_time demo_env 1000000000000) demo_second demo_loaded"
    by (simp add: ratelimit_allows_def demo_second_def demo_loaded_def message_create_other
        ratelimiter_by_source [OF demo_udp_simps(3)])
  ultimately show ?thesis
    using ex add_mac_other [of "at_time demo_env 1000000000000" "replicate 32 1" 1 demo_initiator]
    by (simp add: demo_sent1_def demo_sent2_def demo_reply_def demo_loaded_def)
qed



end
