(* ===== verification/WG_Socket.thy ===== *)
theory WG_Socket
  imports WG_Instances "HOL-Library.Multiset"
begin

unbundle bit_operations_syntax

text \<open>
  The UDP sockets of an interface, \<^verbatim>\<open>socket.c\<close>: sending to the endpoint of a peer or back to
  the sender of a packet, learning endpoints, and opening and replacing the sockets. A
  result \<open>None\<close> is the return value 0, \<open>Some e\<close> is \<open>-e\<close>. What the kernel answers to the
  questions about addresses and routes is part of the environment. A packet that is sent is
  recorded in \<open>dv_sent\<close>; the open sockets are recorded in \<open>dv_open_socks\<close>.
\<close>

section \<open>Sending\<close>

definition src4 :: "endpoint \<Rightarrow> bytes" where "src4 ep = take 4 (ep_src ep)"
definition src_if4 :: "endpoint \<Rightarrow> u32" where "src_if4 ep = load_le (take 4 (drop 4 (ep_src ep)))"

definition clear_src4 :: "endpoint \<Rightarrow> endpoint" where
  "clear_src4 ep = ep\<lparr>ep_src := replicate 8 0 @ drop 8 (ep_src ep)\<rparr>"

text \<open>The routing cache of a peer, if the caller has one: the route and the source address it is for.\<close>

type_synonym dst_cache = "(rtable \<times> bytes) option option"

definition dst_cache_get :: "env \<Rightarrow> dst_cache \<Rightarrow> (rtable \<times> bytes) option" where
  "dst_cache_get env cache = (case cache of Some (Some x) \<Rightarrow> if e_cache_valid env then Some x else None | _ \<Rightarrow> None)"

definition dst_cache_reset :: "dst_cache \<Rightarrow> dst_cache" where
  "dst_cache_reset cache = (case cache of None \<Rightarrow> None | Some _ \<Rightarrow> Some None)"

definition dst_cache_set :: "rtable \<Rightarrow> bytes \<Rightarrow> dst_cache \<Rightarrow> dst_cache" where
  "dst_cache_set rt saddr cache = (case cache of None \<Rightarrow> None | Some _ \<Rightarrow> Some (Some (rt, saddr)))"

definition udp_tunnel_xmit :: "flow \<Rightarrow> u8 \<Rightarrow> bytes \<Rightarrow> wg_device \<Rightarrow> wg_device" where
  "udp_tunnel_xmit fl ds payload wg =
     wg\<lparr>dv_sent := dv_sent wg @ [\<lparr>tx_flow = fl, tx_ds = ds, tx_payload = payload\<rparr>]\<rparr>"

text \<open>A route that is wrong for the interface on which the peer was heard.\<close>

definition route_mismatch :: "endpoint \<Rightarrow> errno + rtable \<Rightarrow> bool" where
  "route_mismatch ep rt \<longleftrightarrow>
     src_if4 ep \<noteq> 0 \<and> (case rt of Inl e \<Rightarrow> e = EINVAL | Inr r \<Rightarrow> rt_ifindex r \<noteq> src_if4 ep)"

type_synonym sending = "endpoint \<times> flow \<times> dst_cache"

definition forget_src4 :: "sending \<Rightarrow> sending" where
  "forget_src4 = (\<lambda>(ep, fl, cache). (clear_src4 ep, fl\<lparr>fl_saddr := replicate 4 0\<rparr>, dst_cache_reset cache))"

definition confirm_src4 :: "env \<Rightarrow> sending \<Rightarrow> sending" where
  "confirm_src4 env = (\<lambda>(ep, fl, cache).
     if e_saddr_ok env (fl_saddr fl) then (ep, fl, cache) else forget_src4 (ep, fl, cache))"

definition route4 :: "env \<Rightarrow> sending \<Rightarrow> sending \<times> (errno + rtable)" where
  "route4 env = (\<lambda>(ep, fl, cache).
     let rt = e_route env fl in
     if route_mismatch ep rt then let s = forget_src4 (ep, fl, cache) in (s, e_route env (fst (snd s)))
     else ((ep, fl, cache), rt))"

definition send4 ::
    "env \<Rightarrow> bytes \<Rightarrow> endpoint \<Rightarrow> u8 \<Rightarrow> dst_cache \<Rightarrow> wg_device \<Rightarrow>
     errno option \<times> endpoint \<times> dst_cache \<times> wg_device" where
  "send4 env payload ep ds cache wg =
     (case dv_sock4 wg of
        None \<Rightarrow> (Some ENONET, ep, cache, wg)
      | Some sock \<Rightarrow>
          let fl = \<lparr>fl_saddr = src4 ep, fl_daddr = sin_addr (ep_addr ep), fl_sport = so_sport sock,
                fl_dport = sin_port (ep_addr ep), fl_mark = dv_fwmark wg, fl_oif = 0\<rparr> in
          case dst_cache_get env cache of
            Some (rt, saddr) \<Rightarrow> (None, ep, cache, udp_tunnel_xmit (fl\<lparr>fl_saddr := saddr\<rparr>) ds payload wg)
          | None \<Rightarrow>
              (case route4 env (confirm_src4 env (ep, fl, cache)) of
                 ((ep, fl, cache), Inl err) \<Rightarrow> (Some err, ep, cache, wg)
               | ((ep, fl, cache), Inr rt) \<Rightarrow>
                   (None, ep, dst_cache_set rt (fl_saddr fl) cache, udp_tunnel_xmit fl ds payload wg)))"

definition confirm_src6 :: "env \<Rightarrow> sending \<Rightarrow> sending" where
  "confirm_src6 env = (\<lambda>(ep, fl, cache).
     if fl_saddr fl \<noteq> replicate 16 0 \<and> \<not> e_saddr_ok env (fl_saddr fl)
     then (ep\<lparr>ep_src := replicate 16 0\<rparr>, fl\<lparr>fl_saddr := replicate 16 0\<rparr>, dst_cache_reset cache)
     else (ep, fl, cache))"

definition send6 ::
    "env \<Rightarrow> bytes \<Rightarrow> endpoint \<Rightarrow> u8 \<Rightarrow> dst_cache \<Rightarrow> wg_device \<Rightarrow>
     errno option \<times> endpoint \<times> dst_cache \<times> wg_device" where
  "send6 env payload ep ds cache wg =
     (case dv_sock6 wg of
        None \<Rightarrow> (Some ENONET, ep, cache, wg)
      | Some sock \<Rightarrow>
          let fl = \<lparr>fl_saddr = ep_src ep, fl_daddr = sin6_addr (ep_addr ep), fl_sport = so_sport sock,
                fl_dport = sin6_port (ep_addr ep), fl_mark = dv_fwmark wg, fl_oif = sin6_scope_id (ep_addr ep)\<rparr> in
          case dst_cache_get env cache of
            Some (rt, saddr) \<Rightarrow> (None, ep, cache, udp_tunnel_xmit (fl\<lparr>fl_saddr := saddr\<rparr>) ds payload wg)
          | None \<Rightarrow>
              (case confirm_src6 env (ep, fl, cache) of
                 (ep, fl, cache) \<Rightarrow>
                   (case e_route env fl of
                      Inl err \<Rightarrow> (Some err, ep, cache, wg)
                    | Inr rt \<Rightarrow> (None, ep, dst_cache_set rt (fl_saddr fl) cache, udp_tunnel_xmit fl ds payload wg))))"

text \<open>The address of the peer decides; a peer without one has family 0.\<close>

definition send_to ::
    "env \<Rightarrow> bytes \<Rightarrow> endpoint \<Rightarrow> u8 \<Rightarrow> dst_cache \<Rightarrow> wg_device \<Rightarrow>
     errno option \<times> endpoint \<times> dst_cache \<times> wg_device" where
  "send_to env payload ep ds cache wg =
     (case ep_addr ep of
        Addr4 _ _ \<Rightarrow> send4 env payload ep ds cache wg
      | Addr6 _ _ _ \<Rightarrow> send6 env payload ep ds cache wg
      | AddrNone \<Rightarrow> (Some EAFNOSUPPORT, ep, cache, wg))"

definition wg_socket_send_skb_to_peer ::
    "env \<Rightarrow> peer_id \<Rightarrow> bytes \<Rightarrow> u8 \<Rightarrow> wg_device \<Rightarrow> errno option \<times> wg_device" where
  "wg_socket_send_skb_to_peer env p payload ds wg =
     (let (ret, ep, cache, wg) = send_to env payload (pe_endpoint (dv_peers wg p)) ds
            (Some (pe_endpoint_cache (dv_peers wg p))) wg;
          wg = upd_peer p (\<lambda>q. q\<lparr>pe_endpoint := ep, pe_endpoint_cache := the cache\<rparr>) wg
      in (ret, if ret = None
               then upd_peer p (\<lambda>q. q\<lparr>pe_tx_bytes := pe_tx_bytes q + of_nat (length payload)\<rparr>) wg else wg))"

definition wg_socket_send_buffer_to_peer ::
    "env \<Rightarrow> peer_id \<Rightarrow> bytes \<Rightarrow> u8 \<Rightarrow> wg_device \<Rightarrow> errno option \<times> wg_device" where
  "wg_socket_send_buffer_to_peer env p buffer ds wg =
     (case e_skb_mem env p of
        None \<Rightarrow> (Some ENOMEM, wg)
      | Some _ \<Rightarrow> wg_socket_send_skb_to_peer env p buffer ds wg)"

section \<open>Endpoints\<close>

text \<open>The source and destination of the outer headers. The port is kept in network order.\<close>

definition wg_socket_endpoint_from_skb :: "env \<Rightarrow> packet \<Rightarrow> endpoint option" where
  "wg_socket_endpoint_from_skb env skb =
     (let hdr = drop (pk_network_header skb) (pk_buf skb) in
      if pk_protocol skb = htons ETH_P_IP then
        Some \<lparr>ep_addr = Addr4 (load_le (udp_source skb)) (ip_saddr hdr),
              ep_src = ip_daddr hdr @ store_le 4 (pk_iif skb) @ replicate 8 0\<rparr>
      else if pk_protocol skb = htons ETH_P_IPV6 then
        Some \<lparr>ep_addr = Addr6 (load_le (udp_source skb)) (ipv6_saddr hdr) (e_scope_id env (ipv6_saddr hdr) (pk_iif skb)),
              ep_src = ipv6_daddr hdr\<rparr>
      else None)"

definition wg_socket_send_buffer_as_reply_to_skb ::
    "env \<Rightarrow> packet option \<Rightarrow> bytes \<Rightarrow> wg_device \<Rightarrow> errno option \<times> wg_device" where
  "wg_socket_send_buffer_as_reply_to_skb env in_skb buffer wg =
     (case in_skb of
        None \<Rightarrow> (Some EINVAL, wg)
      | Some skb \<Rightarrow>
          (case wg_socket_endpoint_from_skb env skb of
             None \<Rightarrow> (Some EINVAL, wg)
           | Some ep \<Rightarrow>
               if \<not> e_reply_mem env then (Some ENOMEM, wg)
               else let (ret, _, _, wg) = send_to env buffer ep 0 None wg in (ret, wg)))"

fun endpoint_eq :: "endpoint \<Rightarrow> endpoint \<Rightarrow> bool" where
  "endpoint_eq a b =
     (case (ep_addr a, ep_addr b) of
        (Addr4 p x, Addr4 q y) \<Rightarrow> p = q \<and> x = y \<and> src4 a = src4 b \<and> src_if4 a = src_if4 b
      | (Addr6 p x s, Addr6 q y t) \<Rightarrow> p = q \<and> x = y \<and> s = t \<and> ep_src a = ep_src b
      | (AddrNone, AddrNone) \<Rightarrow> True
      | _ \<Rightarrow> False)"

definition wg_socket_set_peer_endpoint :: "peer_id \<Rightarrow> endpoint \<Rightarrow> wg_device \<Rightarrow> wg_device" where
  "wg_socket_set_peer_endpoint p ep wg =
     (if endpoint_eq ep (pe_endpoint (dv_peers wg p)) then wg
      else
        case ep_addr ep of
          Addr4 _ _ \<Rightarrow> upd_peer p (\<lambda>q. q\<lparr>pe_endpoint :=
              \<lparr>ep_addr = ep_addr ep, ep_src = take 8 (ep_src ep) @ drop 8 (ep_src (pe_endpoint q))\<rparr>,
              pe_endpoint_cache := None\<rparr>) wg
        | Addr6 _ _ _ \<Rightarrow> upd_peer p (\<lambda>q. q\<lparr>pe_endpoint := ep, pe_endpoint_cache := None\<rparr>) wg
        | AddrNone \<Rightarrow> wg)"

definition wg_socket_set_peer_endpoint_from_skb :: "env \<Rightarrow> peer_id \<Rightarrow> packet \<Rightarrow> wg_device \<Rightarrow> wg_device" where
  "wg_socket_set_peer_endpoint_from_skb env p skb wg =
     (case wg_socket_endpoint_from_skb env skb of
        None \<Rightarrow> wg
      | Some ep \<Rightarrow> wg_socket_set_peer_endpoint p ep wg)"

definition wg_socket_clear_peer_endpoint_src :: "peer_id \<Rightarrow> wg_device \<Rightarrow> wg_device" where
  "wg_socket_clear_peer_endpoint_src p =
     upd_peer p (\<lambda>q. q\<lparr>pe_endpoint := (pe_endpoint q)\<lparr>ep_src := replicate 16 0\<rparr>, pe_endpoint_cache := None\<rparr>)"

section \<open>Opening and closing\<close>

definition sock_open :: "sock \<Rightarrow> wg_device \<Rightarrow> wg_device" where
  "sock_open s wg = wg\<lparr>dv_open_socks := so_id s # dv_open_socks wg\<rparr>"

definition sock_free :: "sock option \<Rightarrow> wg_device \<Rightarrow> wg_device" where
  "sock_free s wg =
     (case s of None \<Rightarrow> wg | Some s \<Rightarrow> wg\<lparr>dv_open_socks := remove1 (so_id s) (dv_open_socks wg)\<rparr>)"

definition wg_socket_reinit :: "sock option \<Rightarrow> sock option \<Rightarrow> wg_device \<Rightarrow> wg_device" where
  "wg_socket_reinit new4 new6 wg =
     (let old4 = dv_sock4 wg; old6 = dv_sock6 wg;
          wg = wg\<lparr>dv_sock4 := new4, dv_sock6 := new6\<rparr>;
          wg = (case new4 of None \<Rightarrow> wg | Some s \<Rightarrow> wg\<lparr>dv_incoming_port := htons (so_sport s)\<rparr>)
      in sock_free old6 (sock_free old4 wg))"

text \<open>
  One round of creating both sockets, numbered by \<open>retries\<close>. A kernel-chosen port may be
  taken for IPv6, then the round is repeated, at most 100 times.
\<close>

function socket_rounds :: "env \<Rightarrow> u16 \<Rightarrow> nat \<Rightarrow> wg_device \<Rightarrow> errno option \<times> wg_device" where
  "socket_rounds env port retries wg =
     (case e_udp4 env retries of
        Inl err \<Rightarrow> (Some err, wg)
      | Inr new4 \<Rightarrow>
          let wg = sock_open new4 wg in
          if \<not> e_ipv6 env then (None, wg_socket_reinit (Some new4) None wg)
          else
            case e_udp6 env retries of
              Inl err \<Rightarrow>
                let wg = sock_free (Some new4) wg in
                if err = EADDRINUSE \<and> port = 0 \<and> retries < 100 then socket_rounds env port (retries + 1) wg
                else (Some err, wg)
            | Inr new6 \<Rightarrow> (None, wg_socket_reinit (Some new4) (Some new6) (sock_open new6 wg)))"
  by pat_completeness auto
termination by (relation "measure (\<lambda>(env, port, retries, wg). 100 - retries)") auto

definition wg_socket_init :: "env \<Rightarrow> u16 \<Rightarrow> wg_device \<Rightarrow> errno option \<times> wg_device" where
  "wg_socket_init env port wg =
     (case dv_creating_net wg of
        None \<Rightarrow> (Some ENONET, wg)
      | Some _ \<Rightarrow> socket_rounds env port 0 wg)"


section \<open>Specification\<close>

text \<open>The destination of an address, as bytes and port.\<close>

fun addr_dest :: "sockaddr \<Rightarrow> bytes \<times> u16" where
  "addr_dest (Addr4 port a) = (a, port)"
| "addr_dest (Addr6 port a s) = (a, port)"
| "addr_dest AddrNone = ([], 0)"

definition sent_to :: "sockaddr \<Rightarrow> u32 \<Rightarrow> u8 \<Rightarrow> bytes \<Rightarrow> transmission \<Rightarrow> bool" where
  "sent_to a mark ds payload t \<longleftrightarrow>
     (fl_daddr (tx_flow t), fl_dport (tx_flow t)) = addr_dest a \<and> fl_mark (tx_flow t) = mark \<and>
     tx_ds t = ds \<and> tx_payload t = payload"

text \<open>Forgetting a source address changes nothing else of the flow.\<close>

definition same_dest :: "sending \<Rightarrow> sending \<Rightarrow> bool" where
  "same_dest = (\<lambda>(ep, fl, cache) (ep', fl', cache').
     ep_addr ep' = ep_addr ep \<and> fl_daddr fl' = fl_daddr fl \<and> fl_dport fl' = fl_dport fl \<and> fl_mark fl' = fl_mark fl \<and>
     (cache' = None \<longleftrightarrow> cache = None))"

definition send_ok ::
    "endpoint \<Rightarrow> dst_cache \<Rightarrow> u8 \<Rightarrow> bytes \<Rightarrow> wg_device \<Rightarrow> errno option \<times> endpoint \<times> dst_cache \<times> wg_device \<Rightarrow> bool" where
  "send_ok ep cache ds payload wg = (\<lambda>(r, ep', cache', wg').
     ep_addr ep' = ep_addr ep \<and> (cache' = None \<longleftrightarrow> cache = None) \<and>
     (if r = None then \<exists>t. wg' = wg\<lparr>dv_sent := dv_sent wg @ [t]\<rparr> \<and> sent_to (ep_addr ep) (dv_fwmark wg) ds payload t
      else wg' = wg))"

text \<open>The ids of installed sockets.\<close>

definition sock_ids :: "sock option \<Rightarrow> addr list" where
  "sock_ids s = (case s of None \<Rightarrow> [] | Some s \<Rightarrow> [so_id s])"

fun open_opt :: "sock option \<Rightarrow> wg_device \<Rightarrow> wg_device" where
  "open_opt None wg = wg"
| "open_opt (Some s) wg = sock_open s wg"

text \<open>A UDP packet over IPv4.\<close>

definition demo_outer :: packet where
  "demo_outer = zero_packet\<lparr>pk_protocol := htons ETH_P_IP, pk_transport_header := 20,
     pk_buf := replicate 12 0 @ [10, 0, 0, 1] @ [10, 0, 0, 2] @ [0x12, 0x34, 0, 0, 0, 0, 0, 0]\<rparr>"

section \<open>Lemmas\<close>

declare socket_rounds.simps [simp del]

lemma same_dest_steps:
  "same_dest s (forget_src4 s)" "same_dest s (confirm_src4 env s)" "same_dest s (fst (route4 env s))"
  "same_dest s (confirm_src6 env s)"
  by (cases s; auto simp: same_dest_def forget_src4_def confirm_src4_def route4_def confirm_src6_def clear_src4_def
      dst_cache_reset_def Let_def split: option.splits)+

lemma same_dest_trans: "same_dest s t \<Longrightarrow> same_dest t u \<Longrightarrow> same_dest s u"
  by (auto simp: same_dest_def split: prod.splits)

lemma send_ok_xmit:
  assumes "same_dest (ep, fl, cache) (ep', fl', cache')" "(fl_daddr fl, fl_dport fl) = addr_dest (ep_addr ep)" "fl_mark fl = dv_fwmark wg"
    and "cache'' = None \<longleftrightarrow> cache = None"
  shows "send_ok ep cache ds payload wg (None, ep', cache'', udp_tunnel_xmit fl' ds payload wg)"
  using assms
  by (auto simp: send_ok_def udp_tunnel_xmit_def sent_to_def same_dest_def
      intro!: exI [of _ "\<lparr>tx_flow = fl', tx_ds = ds, tx_payload = payload\<rparr>"])

lemma dst_cache_None [simp]: "dst_cache_set rt a c = None \<longleftrightarrow> c = None"
  by (simp add: dst_cache_set_def split: option.split)

lemma send4_ok:
  assumes "ep_addr ep = Addr4 port a"
  shows "send_ok ep cache ds payload wg (send4 env payload ep ds cache wg)"
proof (cases "dv_sock4 wg")
  case None
  then show ?thesis by (simp add: send4_def send_ok_def)
next
  case (Some sock)
  let ?fl = "\<lparr>fl_saddr = src4 ep, fl_daddr = a, fl_sport = so_sport sock, fl_dport = port, fl_mark = dv_fwmark wg, fl_oif = 0\<rparr>"
  obtain ep' fl' cache' rt where r: "route4 env (confirm_src4 env (ep, ?fl, cache)) = ((ep', fl', cache'), rt)"
    by (metis prod_cases3 surj_pair)
  have d: "same_dest (ep, ?fl, cache) (ep', fl', cache')"
    using same_dest_trans [OF same_dest_steps(2,3), of "(ep, ?fl, cache)" env env] r by simp
  have "send_ok ep cache ds payload wg (None, ep, cache, udp_tunnel_xmit (?fl\<lparr>fl_saddr := saddr\<rparr>) ds payload wg)" for saddr
    by (rule send_ok_xmit [of ep ?fl cache _ _ cache]) (simp_all add: same_dest_def assms)
  moreover have "send_ok ep cache ds payload wg (None, ep', dst_cache_set x y cache', udp_tunnel_xmit fl' ds payload wg)" for x y
    by (rule send_ok_xmit [OF d]) (use d assms in \<open>auto simp: same_dest_def\<close>)
  moreover have "send_ok ep cache ds payload wg (Some e, ep', cache', wg)" for e
    using d by (simp add: send_ok_def same_dest_def)
  ultimately show ?thesis
    using Some r assms by (auto simp: send4_def Let_def split: option.split sum.split)
qed

lemma send6_ok:
  assumes "ep_addr ep = Addr6 port a scope"
  shows "send_ok ep cache ds payload wg (send6 env payload ep ds cache wg)"
proof (cases "dv_sock6 wg")
  case None
  then show ?thesis by (simp add: send6_def send_ok_def)
next
  case (Some sock)
  let ?fl = "\<lparr>fl_saddr = ep_src ep, fl_daddr = a, fl_sport = so_sport sock, fl_dport = port, fl_mark = dv_fwmark wg, fl_oif = scope\<rparr>"
  obtain ep' fl' cache' where r: "confirm_src6 env (ep, ?fl, cache) = (ep', fl', cache')"
    by (metis prod_cases3)
  have d: "same_dest (ep, ?fl, cache) (ep', fl', cache')"
    using same_dest_steps(4) [of "(ep, ?fl, cache)" env] r by simp
  have "send_ok ep cache ds payload wg (None, ep, cache, udp_tunnel_xmit (?fl\<lparr>fl_saddr := saddr\<rparr>) ds payload wg)" for saddr
    by (rule send_ok_xmit [of ep ?fl cache _ _ cache]) (simp_all add: same_dest_def assms)
  moreover have "send_ok ep cache ds payload wg (None, ep', dst_cache_set x y cache', udp_tunnel_xmit fl' ds payload wg)" for x y
    by (rule send_ok_xmit [OF d]) (use d assms in \<open>auto simp: same_dest_def\<close>)
  moreover have "send_ok ep cache ds payload wg (Some e, ep', cache', wg)" for e
    using d by (simp add: send_ok_def same_dest_def)
  ultimately show ?thesis
    using Some r assms by (auto simp: send6_def Let_def split: option.split sum.split)
qed

lemma send_to_ok: "send_ok ep cache ds payload wg (send_to env payload ep ds cache wg)"
  by (cases "ep_addr ep") (simp_all add: send_to_def send4_ok send6_ok, simp add: send_ok_def)

lemma send_skb_shape:
  assumes "wg_socket_send_skb_to_peer env p payload ds wg = (r, wg')"
  obtains ep c where "ep_addr ep = ep_addr (pe_endpoint (dv_peers wg p))"
    "if r = None
     then \<exists>t. sent_to (ep_addr ep) (dv_fwmark wg) ds payload t \<and>
       wg' = upd_peer p (\<lambda>q. q\<lparr>pe_endpoint := ep, pe_endpoint_cache := c,
         pe_tx_bytes := pe_tx_bytes q + of_nat (length payload)\<rparr>) (wg\<lparr>dv_sent := dv_sent wg @ [t]\<rparr>)
     else wg' = upd_peer p (\<lambda>q. q\<lparr>pe_endpoint := ep, pe_endpoint_cache := c\<rparr>) wg"
proof -
  obtain r1 ep cache w where s: "send_to env payload (pe_endpoint (dv_peers wg p)) ds
      (Some (pe_endpoint_cache (dv_peers wg p))) wg = (r1, ep, cache, w)" by (metis prod_cases4)
  have c: "send_ok (pe_endpoint (dv_peers wg p)) (Some (pe_endpoint_cache (dv_peers wg p))) ds payload wg (r1, ep, cache, w)"
    unfolding s [symmetric] by (rule send_to_ok)
  have r: "r1 = r" using assms s by (auto simp: wg_socket_send_skb_to_peer_def Let_def)
  have "ep_addr ep = ep_addr (pe_endpoint (dv_peers wg p))" using c by (simp add: send_ok_def)
  moreover have "if r = None
     then \<exists>t. sent_to (ep_addr ep) (dv_fwmark wg) ds payload t \<and>
       wg' = upd_peer p (\<lambda>q. q\<lparr>pe_endpoint := ep, pe_endpoint_cache := the cache,
         pe_tx_bytes := pe_tx_bytes q + of_nat (length payload)\<rparr>) (wg\<lparr>dv_sent := dv_sent wg @ [t]\<rparr>)
     else wg' = upd_peer p (\<lambda>q. q\<lparr>pe_endpoint := ep, pe_endpoint_cache := the cache\<rparr>) wg"
  proof (cases r)
    case None
    then obtain t where t: "w = wg\<lparr>dv_sent := dv_sent wg @ [t]\<rparr>" "sent_to (ep_addr ep) (dv_fwmark wg) ds payload t"
      using c r by (auto simp: send_ok_def)
    have "wg' = upd_peer p (\<lambda>q. q\<lparr>pe_endpoint := ep, pe_endpoint_cache := the cache,
         pe_tx_bytes := pe_tx_bytes q + of_nat (length payload)\<rparr>) (wg\<lparr>dv_sent := dv_sent wg @ [t]\<rparr>)"
      using assms s None r t(1) by (simp add: wg_socket_send_skb_to_peer_def upd_peer_def)
    then show ?thesis using None t(2) by auto
  next
    case (Some e)
    then show ?thesis using assms s r c by (simp add: wg_socket_send_skb_to_peer_def send_ok_def)
  qed
  ultimately show thesis by (rule that)
qed


lemma set_endpoint_addr:
  assumes "ep_addr ep \<noteq> AddrNone"
  shows "ep_addr (pe_endpoint (dv_peers (wg_socket_set_peer_endpoint p ep wg) p)) = ep_addr ep"
    "dv_sent (wg_socket_set_peer_endpoint p ep wg) = dv_sent wg"
    "dv_fwmark (wg_socket_set_peer_endpoint p ep wg) = dv_fwmark wg"
    "pe_tx_bytes (dv_peers (wg_socket_set_peer_endpoint p ep wg) q) = pe_tx_bytes (dv_peers wg q)"
  using assms by (auto simp: wg_socket_set_peer_endpoint_def split: sockaddr.splits)

lemma free_after_open [simp]: "sock_free (Some s) (sock_open s wg) = wg"
  by (simp add: sock_free_def sock_open_def)

lemma sock_free_mset: "mset (dv_open_socks (sock_free s wg)) = mset (dv_open_socks wg) - mset (sock_ids s)"
  by (cases s) (simp_all add: sock_free_def sock_ids_def)

lemma reinit_open:
  "mset (dv_open_socks (wg_socket_reinit new4 new6 wg)) =
     mset (dv_open_socks wg) - mset (sock_ids (dv_sock4 wg)) - mset (sock_ids (dv_sock6 wg))"
  by (simp add: wg_socket_reinit_def Let_def sock_free_mset split: option.split)

lemma reinit_simps [simp]:
  "dv_sock4 (wg_socket_reinit new4 new6 wg) = new4" "dv_sock6 (wg_socket_reinit new4 new6 wg) = new6"
  "dv_incoming_port (wg_socket_reinit (Some s) new6 wg) = htons (so_sport s)"
  "dv_incoming_port (wg_socket_reinit None new6 wg) = dv_incoming_port wg"
  by (simp_all add: wg_socket_reinit_def Let_def sock_free_def split: option.split)

lemma socket_rounds_cases:
  "socket_rounds env port n wg = (r, wg') \<Longrightarrow>
     (r \<noteq> None \<and> wg' = wg) \<or>
     (r = None \<and> (\<exists>new4 new6. wg' = wg_socket_reinit (Some new4) new6
        (open_opt new6 (sock_open new4 wg)) \<and>
        (new6 = None \<longleftrightarrow> \<not> e_ipv6 env)))"
proof (induction env port n wg arbitrary: r wg' rule: socket_rounds.induct)
  case (1 env port n wg)
  note u = 1(2) [unfolded socket_rounds.simps [of env port n wg] Let_def]
  show ?case
  proof (cases "e_udp4 env n")
    case (Inl e)
    then show ?thesis using u by auto
  next
    case (Inr new4)
    note four = this
    show ?thesis
    proof (cases "e_ipv6 env")
      case False
      then have "r = None" "wg' = wg_socket_reinit (Some new4) None (sock_open new4 wg)"
        using u four by auto
      then show ?thesis using False by (intro disjI2 conjI exI [of _ new4] exI [of _ None]) auto
    next
      case True
      note six = this
      show ?thesis
      proof (cases "e_udp6 env n")
        case (Inl e)
        show ?thesis
        proof (cases "e = EADDRINUSE \<and> port = 0 \<and> n < 100")
          case True
          then have "socket_rounds env port (n + 1) wg = (r, wg')"
            using u four six Inl by simp
          then show ?thesis using 1(1) [OF four refl _ Inl refl] six True by simp
        next
          case False
          then have "r = Some e \<and> wg' = wg"
            using u four six Inl by auto
          then show ?thesis by simp
        qed
      next
        case (Inr new6)
        then have "r = None" "wg' = wg_socket_reinit (Some new4) (Some new6) (sock_open new6 (sock_open new4 wg))"
          using u four six Inr by auto
        then show ?thesis using six by (intro disjI2 conjI exI [of _ new4] exI [of _ "Some new6"]) auto
      qed
    qed
  qed
qed

section \<open>Properties\<close>

text \<open>
  C29. Roaming: once the endpoint of a peer has been learned from a packet, whatever is sent
  to the peer goes to the address and port that packet came from, marked with the
  firewall mark of the interface, and is counted; a failed send puts nothing on the wire
  and is not counted.
\<close>

theorem roaming_reply:
  assumes "wg_socket_endpoint_from_skb env skb \<noteq> None"
    and "wg_socket_send_skb_to_peer env2 p payload ds (wg_socket_set_peer_endpoint_from_skb env p skb wg) = (r, wg')"
  shows "if r = None
    then \<exists>t. dv_sent wg' = dv_sent wg @ [t] \<and> tx_payload t = payload \<and> tx_ds t = ds \<and>
      fl_mark (tx_flow t) = dv_fwmark wg \<and> fl_dport (tx_flow t) = load_le (udp_source skb) \<and>
      fl_daddr (tx_flow t) = (if pk_protocol skb = htons ETH_P_IP then ip_saddr (drop (pk_network_header skb) (pk_buf skb))
        else ipv6_saddr (drop (pk_network_header skb) (pk_buf skb))) \<and>
      pe_tx_bytes (dv_peers wg' p) = pe_tx_bytes (dv_peers wg p) + of_nat (length payload)
    else dv_sent wg' = dv_sent wg \<and> pe_tx_bytes (dv_peers wg' p) = pe_tx_bytes (dv_peers wg p)"
proof -
  obtain e where e: "wg_socket_endpoint_from_skb env skb = Some e" using assms(1) by blast
  then have a: "addr_dest (ep_addr e) = ((if pk_protocol skb = htons ETH_P_IP then ip_saddr (drop (pk_network_header skb) (pk_buf skb))
      else ipv6_saddr (drop (pk_network_header skb) (pk_buf skb))), load_le (udp_source skb))" "ep_addr e \<noteq> AddrNone"
    by (auto simp: wg_socket_endpoint_from_skb_def Let_def split: if_splits)
  let ?w = "wg_socket_set_peer_endpoint p e wg"
  have w: "wg_socket_set_peer_endpoint_from_skb env p skb wg = ?w"
    by (simp add: wg_socket_set_peer_endpoint_from_skb_def e)
  obtain ep c where s: "ep_addr ep = ep_addr (pe_endpoint (dv_peers ?w p))"
    "if r = None
     then \<exists>t. sent_to (ep_addr ep) (dv_fwmark ?w) ds payload t \<and>
       wg' = upd_peer p (\<lambda>q. q\<lparr>pe_endpoint := ep, pe_endpoint_cache := c,
         pe_tx_bytes := pe_tx_bytes q + of_nat (length payload)\<rparr>) (?w\<lparr>dv_sent := dv_sent ?w @ [t]\<rparr>)
     else wg' = upd_peer p (\<lambda>q. q\<lparr>pe_endpoint := ep, pe_endpoint_cache := c\<rparr>) ?w"
    using send_skb_shape [OF assms(2) [unfolded w]] .
  show ?thesis
    using s a set_endpoint_addr [OF a(2), of p wg] by (auto simp: sent_to_def)
qed

text \<open>
  C30. Opening the sockets is all or nothing, for every number of rounds: on an error the
  interface keeps the sockets and port it had and every socket opened on the way is closed
  again; on success the new IPv4 socket and, if there is IPv6, the new IPv6 socket are
  installed, the recorded port is theirs, and of the sockets open before exactly the
  replaced ones are closed.
\<close>

theorem socket_init_all_or_nothing:
  assumes "wg_socket_init env port wg = (r, wg')"
    and "mset (sock_ids (dv_sock4 wg)) + mset (sock_ids (dv_sock6 wg)) \<subseteq># mset (dv_open_socks wg)"
  shows "if r \<noteq> None then wg' = wg
    else (\<exists>new4. dv_sock4 wg' = Some new4 \<and> dv_incoming_port wg' = htons (so_sport new4)) \<and>
      (dv_sock6 wg' = None \<longleftrightarrow> \<not> e_ipv6 env) \<and>
      mset (dv_open_socks wg') + mset (sock_ids (dv_sock4 wg)) + mset (sock_ids (dv_sock6 wg)) =
        mset (dv_open_socks wg) + mset (sock_ids (dv_sock4 wg')) + mset (sock_ids (dv_sock6 wg'))"
proof -
  consider "r \<noteq> None" "wg' = wg"
    | new4 new6 where "r = None" "wg' = wg_socket_reinit (Some new4) new6
        (open_opt new6 (sock_open new4 wg))" "new6 = None \<longleftrightarrow> \<not> e_ipv6 env"
    using assms(1) socket_rounds_cases [of env port 0 wg r wg'] by (auto simp: wg_socket_init_def split: option.splits)
  then show ?thesis
  proof cases
    case 1
    then show ?thesis by simp
  next
    case (2 new4 new6)
    let ?I = "mset (sock_ids (dv_sock4 wg)) + mset (sock_ids (dv_sock6 wg))"
    let ?w = "open_opt new6 (sock_open new4 wg)"
    have w: "dv_sock4 ?w = dv_sock4 wg" "dv_sock6 ?w = dv_sock6 wg"
      "mset (dv_open_socks ?w) = mset (dv_open_socks wg) + mset (sock_ids (Some new4)) + mset (sock_ids new6)"
      by (cases new6; simp add: sock_open_def sock_ids_def)+
    have "?I \<subseteq># mset (dv_open_socks ?w)"
      unfolding w(3) using assms(2) by (simp add: subset_mset.add_increasing2)
    then have "mset (dv_open_socks wg') + ?I = mset (dv_open_socks ?w)"
      unfolding 2(2) reinit_open w(1,2) by (simp add: diff_diff_add subset_mset.diff_add)
    then show ?thesis using 2 w(3) by (simp add: ac_simps)
  qed
qed


theorem roaming_reply_witness:
  "\<exists>wg' t. wg_socket_send_skb_to_peer demo_env 1 [1, 2, 3] 0
       (wg_socket_set_peer_endpoint_from_skb demo_env 1 demo_outer (demo_device [])) = (None, wg') \<and>
     dv_sent wg' = [t] \<and> fl_daddr (tx_flow t) = [10, 0, 0, 1] \<and> tx_payload t = [1, 2, 3]"
proof -
  let ?w = "wg_socket_set_peer_endpoint_from_skb demo_env 1 demo_outer (demo_device [])"
  obtain r wg' where s: "wg_socket_send_skb_to_peer demo_env 1 [1, 2, 3] 0 ?w = (r, wg')" by fastforce
  have e: "wg_socket_endpoint_from_skb demo_env demo_outer \<noteq> None"
    by (simp add: wg_socket_endpoint_from_skb_def demo_outer_def Let_def)
  have "fst (wg_socket_send_skb_to_peer demo_env 1 [1, 2, 3] 0 ?w) = None"
    by (simp add: wg_socket_send_skb_to_peer_def wg_socket_set_peer_endpoint_from_skb_def wg_socket_endpoint_from_skb_def
        wg_socket_set_peer_endpoint_def send_to_def send4_def route4_def confirm_src4_def route_mismatch_def src_if4_def
        dst_cache_get_def forget_src4_def demo_outer_def demo_defs)
  then have r: "r = None" using s by simp
  have d: "dv_sent (demo_device []) = []" by (simp add: demo_device_def)
  show ?thesis using roaming_reply [OF e s] s unfolding r d by (auto simp: demo_outer_def zero_packet_def ip_saddr_def)
qed

theorem socket_init_all_or_nothing_witness:
  "\<exists>wg'. wg_socket_init demo_env 0 (demo_device []) = (None, wg') \<and> dv_incoming_port wg' = htons 51820 \<and>
     mset (dv_open_socks wg') = {#10, 11#}"
proof -
  obtain r wg' where i: "wg_socket_init demo_env 0 (demo_device []) = (r, wg')" by fastforce
  have r: "r = None" "dv_sock4 wg' = Some \<lparr>so_id = 10, so_sport = 51820\<rparr>" "dv_sock6 wg' = Some \<lparr>so_id = 11, so_sport = 51820\<rparr>"
    using i by (simp_all add: wg_socket_init_def socket_rounds.simps demo_defs del: upd_peer_other) auto
  have o: "sock_ids (dv_sock4 (demo_device [])) = [1]" "sock_ids (dv_sock6 (demo_device [])) = [2]"
    "dv_open_socks (demo_device []) = [1, 2]"
    by (simp_all add: demo_device_def sock_ids_def)
  from socket_init_all_or_nothing [OF i, unfolded o] r(1) i have "mset (dv_open_socks wg') + {#1#} + {#2#} = {#10, 11#} + {#1#} + {#2#}"
    "dv_incoming_port wg' = htons 51820" by (simp_all add: r(2,3) sock_ids_def add_mset_commute)
  then have "mset (dv_open_socks wg') = {#10, 11#}" by (simp only: add_right_cancel)
  then show ?thesis using i r(1) \<open>dv_incoming_port wg' = htons 51820\<close> by auto
qed

end
