(* ===== verification/WG_Timers.thy ===== *)
theory WG_Timers
  imports WG_Instances
begin

text \<open>
  The timer events of \<^verbatim>\<open>timers.c\<close>, which the other components report. A timer is the time in
  jiffies at which it expires, if it is pending. The handlers of expired timers send
  packets and are in a theory of their own.
\<close>

section \<open>Operations on timers\<close>

text \<open>A timer of a peer is named by its update function.\<close>

type_synonym peer_timer = "(timer \<Rightarrow> timer) \<Rightarrow> wg_peer \<Rightarrow> wg_peer"

definition mod_peer_timer :: "peer_timer \<Rightarrow> peer_id \<Rightarrow> u64 \<Rightarrow> wg_device \<Rightarrow> wg_device" where
  "mod_peer_timer timer p expires wg =
     (if dv_running wg \<and> \<not> pe_is_dead (dv_peers wg p) then upd_peer p (timer (\<lambda>_. Some expires)) wg else wg)"

definition del_timer :: "peer_timer \<Rightarrow> peer_id \<Rightarrow> wg_device \<Rightarrow> wg_device" where
  "del_timer timer p = upd_peer p (timer (\<lambda>_. None))"

text \<open>\<open>seconds * HZ\<close> after now.\<close>

definition after_secs :: "env \<Rightarrow> nat \<Rightarrow> u64" where
  "after_secs env secs = e_jiffies env + of_nat (secs * e_HZ env)"

section \<open>Events\<close>

definition wg_timers_data_sent :: "env \<Rightarrow> peer_id \<Rightarrow> wg_device \<Rightarrow> wg_device" where
  "wg_timers_data_sent env p wg =
     (if pe_timer_new_handshake (dv_peers wg p) = None
      then mod_peer_timer pe_timer_new_handshake_update p
             (after_secs env (KEEPALIVE_TIMEOUT + REKEY_TIMEOUT) + of_nat (e_jitter env)) wg
      else wg)"

definition wg_timers_data_received :: "env \<Rightarrow> peer_id \<Rightarrow> wg_device \<Rightarrow> wg_device" where
  "wg_timers_data_received env p wg =
     (if dv_running wg then
        if pe_timer_send_keepalive (dv_peers wg p) = None
        then mod_peer_timer pe_timer_send_keepalive_update p (after_secs env KEEPALIVE_TIMEOUT) wg
        else upd_peer p (\<lambda>q. q\<lparr>pe_timer_need_another_keepalive := True\<rparr>) wg
      else wg)"

definition wg_timers_any_authenticated_packet_sent :: "peer_id \<Rightarrow> wg_device \<Rightarrow> wg_device" where
  "wg_timers_any_authenticated_packet_sent p = del_timer pe_timer_send_keepalive_update p"

definition wg_timers_any_authenticated_packet_received :: "peer_id \<Rightarrow> wg_device \<Rightarrow> wg_device" where
  "wg_timers_any_authenticated_packet_received p = del_timer pe_timer_new_handshake_update p"

definition wg_timers_handshake_initiated :: "env \<Rightarrow> peer_id \<Rightarrow> wg_device \<Rightarrow> wg_device" where
  "wg_timers_handshake_initiated env p =
     mod_peer_timer pe_timer_retransmit_handshake_update p
       (after_secs env REKEY_TIMEOUT + of_nat (e_jitter env))"

definition wg_timers_handshake_complete :: "env \<Rightarrow> peer_id \<Rightarrow> wg_device \<Rightarrow> wg_device" where
  "wg_timers_handshake_complete env p wg =
     upd_peer p (\<lambda>q. q\<lparr>pe_timer_handshake_attempts := 0, pe_sent_lastminute_handshake := False,
       pe_walltime_last_handshake := e_realtime env\<rparr>) (del_timer pe_timer_retransmit_handshake_update p wg)"

definition wg_timers_session_derived :: "env \<Rightarrow> peer_id \<Rightarrow> wg_device \<Rightarrow> wg_device" where
  "wg_timers_session_derived env p =
     mod_peer_timer pe_timer_zero_key_material_update p (after_secs env (REJECT_AFTER_TIME * 3))"

definition wg_timers_any_authenticated_packet_traversal :: "env \<Rightarrow> peer_id \<Rightarrow> wg_device \<Rightarrow> wg_device" where
  "wg_timers_any_authenticated_packet_traversal env p wg =
     (if pe_persistent_keepalive_interval (dv_peers wg p) \<noteq> 0
      then mod_peer_timer pe_timer_persistent_keepalive_update p
             (after_secs env (unat (pe_persistent_keepalive_interval (dv_peers wg p)))) wg
      else wg)"

definition wg_timers_init :: "wg_peer \<Rightarrow> wg_peer" where
  "wg_timers_init q =
     q\<lparr>pe_timer_retransmit_handshake := None, pe_timer_send_keepalive := None, pe_timer_new_handshake := None,
       pe_timer_zero_key_material := None, pe_timer_persistent_keepalive := None, pe_clear_peer_work := False,
       pe_timer_handshake_attempts := 0, pe_sent_lastminute_handshake := False,
       pe_timer_need_another_keepalive := False\<rparr>"

section \<open>The pending timers of a peer\<close>

definition pending_timers :: "wg_peer \<Rightarrow> u64 list" where
  "pending_timers q =
     concat (map (\<lambda>t. case t of None \<Rightarrow> [] | Some e \<Rightarrow> [e])
       [pe_timer_retransmit_handshake q, pe_timer_send_keepalive q, pe_timer_new_handshake q,
        pe_timer_zero_key_material q, pe_timer_persistent_keepalive q])"

text \<open>
  What a timer event may change of a peer: its timers and the flags and counters that belong
  to them.
\<close>

definition timers_only :: "wg_peer \<Rightarrow> wg_peer \<Rightarrow> bool" where
  "timers_only q q' \<longleftrightarrow>
     q' = q\<lparr>pe_timer_retransmit_handshake := pe_timer_retransmit_handshake q',
            pe_timer_send_keepalive := pe_timer_send_keepalive q',
            pe_timer_new_handshake := pe_timer_new_handshake q',
            pe_timer_zero_key_material := pe_timer_zero_key_material q',
            pe_timer_persistent_keepalive := pe_timer_persistent_keepalive q',
            pe_timer_handshake_attempts := pe_timer_handshake_attempts q',
            pe_timer_need_another_keepalive := pe_timer_need_another_keepalive q',
            pe_sent_lastminute_handshake := pe_sent_lastminute_handshake q',
            pe_walltime_last_handshake := pe_walltime_last_handshake q'\<rparr>"

end
