(* ===== verification/WG_Send.thy ===== *)
theory WG_Send
  imports WG_Packets WG_Cookie WG_Socket WG_Timers "HOL-Library.Monad_Syntax" "HOL-Library.Sublist"
begin

unbundle bit_operations_syntax

text \<open>
  The sending side, \<^verbatim>\<open>send.c\<close>: handshake messages, the staging of packets until there is a
  key, nonces, padding, encryption on all CPUs, and the transmission in the order of the
  nonces. Functions that draw a handshake index return \<open>None\<close> when the random numbers given
  contain no free one. A worker takes an environment for every round of its loop.
\<close>

section \<open>Handshake messages\<close>

definition now_sent_handshake :: "env \<Rightarrow> peer_id \<Rightarrow> wg_device \<Rightarrow> wg_device" where
  "now_sent_handshake env p = upd_peer p (\<lambda>q. q\<lparr>pe_last_sent_handshake := e_boottime env\<rparr>)"

definition wg_packet_send_handshake_initiation :: "env \<Rightarrow> peer_id \<Rightarrow> wg_device \<Rightarrow> wg_device option" where
  "wg_packet_send_handshake_initiation env p wg =
     (if \<not> wg_birthdate_has_expired env (pe_last_sent_handshake (dv_peers wg p)) (of_nat REKEY_TIMEOUT) then Some wg
      else do {
        let wg = now_sent_handshake env p wg;
        (packet, wg) \<leftarrow> wg_noise_handshake_create_initiation env p wg;
        case packet of
          None \<Rightarrow> Some wg
        | Some packet \<Rightarrow>
            let (bytes, wg) = wg_cookie_add_mac_to_packet env (encode_initiation packet) p wg;
                wg = wg_timers_any_authenticated_packet_traversal env p wg;
                wg = wg_timers_any_authenticated_packet_sent p wg;
                wg = now_sent_handshake env p wg;
                (_, wg) = wg_socket_send_buffer_to_peer env p bytes HANDSHAKE_DSCP wg
            in Some (wg_timers_handshake_initiated env p wg)
      })"

definition wg_packet_handshake_send_worker :: "env \<Rightarrow> peer_id \<Rightarrow> wg_device \<Rightarrow> wg_device option" where
  "wg_packet_handshake_send_worker env p wg =
     do {
       wg \<leftarrow> wg_packet_send_handshake_initiation env p (upd_peer p (\<lambda>q. q\<lparr>pe_transmit_handshake_work := False\<rparr>) wg);
       Some (wg_peer_put (Some p) wg)
     }"

definition wg_packet_send_queued_handshake_initiation :: "env \<Rightarrow> peer_id \<Rightarrow> bool \<Rightarrow> wg_device \<Rightarrow> wg_device" where
  "wg_packet_send_queued_handshake_initiation env p is_retry wg =
     (let wg = (if is_retry then wg else upd_peer p (\<lambda>q. q\<lparr>pe_timer_handshake_attempts := 0\<rparr>) wg) in
      if \<not> wg_birthdate_has_expired env (pe_last_sent_handshake (dv_peers wg p)) (of_nat REKEY_TIMEOUT) \<or>
         pe_is_dead (dv_peers wg p) then wg
      else
        let wg = get_peer_ref p wg in
        if pe_transmit_handshake_work (dv_peers wg p) then wg_peer_put (Some p) wg
        else upd_peer p (\<lambda>q. q\<lparr>pe_transmit_handshake_work := True\<rparr>) wg)"

definition wg_packet_send_handshake_response :: "env \<Rightarrow> peer_id \<Rightarrow> wg_device \<Rightarrow> wg_device option" where
  "wg_packet_send_handshake_response env p wg =
     do {
       let wg = now_sent_handshake env p wg;
       (packet, wg) \<leftarrow> wg_noise_handshake_create_response env p wg;
       case packet of
         None \<Rightarrow> Some wg
       | Some packet \<Rightarrow>
           let (bytes, wg) = wg_cookie_add_mac_to_packet env (encode_response packet) p wg;
               (began, wg) = wg_noise_handshake_begin_session env p wg
           in if \<not> began then Some wg
              else
                let wg = wg_timers_session_derived env p wg;
                    wg = wg_timers_any_authenticated_packet_traversal env p wg;
                    wg = wg_timers_any_authenticated_packet_sent p wg;
                    wg = now_sent_handshake env p wg;
                    (_, wg) = wg_socket_send_buffer_to_peer env p bytes HANDSHAKE_DSCP wg
                in Some wg
     }"

definition wg_packet_send_handshake_cookie :: "env \<Rightarrow> packet \<Rightarrow> u32 \<Rightarrow> wg_device \<Rightarrow> wg_device" where
  "wg_packet_send_handshake_cookie env initiating_skb sender_index wg =
     (let (packet, wg) = wg_cookie_message_create env initiating_skb sender_index wg
      in snd (wg_socket_send_buffer_as_reply_to_skb env (Some initiating_skb) (encode_cookie packet) wg))"

definition keep_key_fresh_tx :: "env \<Rightarrow> peer_id \<Rightarrow> wg_device \<Rightarrow> wg_device" where
  "keep_key_fresh_tx env p wg =
     (let send = (case current_keypair (slots_of wg p) of
            None \<Rightarrow> False
          | Some k \<Rightarrow>
              let kp = keypair_at wg k
              in sk_is_valid (kp_sending kp) \<and>
                 (kp_sending_counter kp > REKEY_AFTER_MESSAGES \<or>
                  kp_i_am_the_initiator kp \<and>
                  wg_birthdate_has_expired env (sk_birthdate (kp_sending kp)) (of_nat REKEY_AFTER_TIME)))
      in if send then wg_packet_send_queued_handshake_initiation env p False wg else wg)"

section \<open>Encryption\<close>

text \<open>\<^verbatim>\<open>unsigned int\<close> arithmetic. The macro \<^verbatim>\<open>ALIGN\<close> is applied to a power of two.\<close>

definition ALIGN32 :: "u32 \<Rightarrow> u32 \<Rightarrow> u32" where
  "ALIGN32 x a = (x + (a - 1)) AND NOT (a - 1)"

definition calculate_skb_padding :: "u32 \<Rightarrow> u32 \<Rightarrow> u32" where
  "calculate_skb_padding len mtu =
     (if mtu = 0 then ALIGN32 len (of_nat MESSAGE_PADDING_MULTIPLE) - len
      else
        let last_unit = (if len > mtu then len mod mtu else len);
            padded_size = min mtu (ALIGN32 last_unit (of_nat MESSAGE_PADDING_MULTIPLE))
        in padded_size - last_unit)"

definition aes_iv :: "u64 \<Rightarrow> bytes" where
  "aes_iv nonce = replicate 4 0 @ store_le 8 nonce"

text \<open>The AEAD transform of a keypair holds the expanded key; \<open>None\<close> is a failure.\<close>

definition seal :: "env \<Rightarrow> wg_device \<Rightarrow> noise_keypair \<Rightarrow> u64 \<Rightarrow> bytes \<Rightarrow> bytes option" where
  "seal env wg kp nonce plain =
     (if dv_is_chacha wg then Some (chacha20poly1305_encrypt env (sk_key (kp_sending kp)) nonce [] plain)
      else aes_gcm_encrypt env (the (dv_aeads wg (the (kp_aead_enc kp)))) (aes_iv nonce) [] plain)"

text \<open>A hash that was computed before is kept; the kernel's hashes are not zero.\<close>

definition skb_get_hash :: "env \<Rightarrow> packet \<Rightarrow> packet" where
  "skb_get_hash env skb = (if pk_hash skb = 0 then skb\<lparr>pk_hash := e_skb_hash env (pk_bytes skb)\<rparr> else skb)"

text \<open>
  \<open>e_cow_ok\<close> says that the buffer could be made writable and mapped into a scatter list. When the
  function fails, the packet is freed by the caller.
\<close>

definition encrypt_packet :: "env \<Rightarrow> wg_device \<Rightarrow> noise_keypair \<Rightarrow> packet \<Rightarrow> packet option" where
  "encrypt_packet env wg kp skb =
     (let skb = skb_get_hash env skb;
          padding_len = unat (calculate_skb_padding (of_nat (pk_len skb)) (cb_mtu skb)) in
      if \<not> e_cow_ok env (pk_addr skb) \<or> \<not> e_head_ok env (pk_addr skb) then None
      else
        let skb = skb_cow_head (DATA_PACKET_HEAD_ROOM (e_NET_SKB_PAD env)) skb in
        case (if pk_csum_partial skb then e_csum env (pk_bytes skb) else Some (pk_bytes skb)) of
          None \<Rightarrow> None
        | Some plain \<Rightarrow>
            (case seal env wg kp (cb_nonce skb) (plain @ replicate padding_len 0) of
               None \<Rightarrow> None
             | Some cipher \<Rightarrow>
                 let header = encode_data \<lparr>md_type = MESSAGE_DATA, md_key_idx = kp_remote_index kp,
                                md_counter = cb_nonce skb\<rparr>;
                     skb = skb_push sizeof_data skb
                 in Some (skb_set_bytes (header @ cipher) skb)))"

section \<open>From the staged packets to the wire\<close>

text \<open>
  Every packet gets the next value of the counter. The walk stops at the first packet whose
  nonce is too large.
\<close>

primrec assign_nonces :: "env \<Rightarrow> packet list \<Rightarrow> u64 \<Rightarrow> bool \<times> packet list \<times> u64" where
  "assign_nonces env [] c = (True, [], c)"
| "assign_nonces env (skb # skbs) c =
     (let skb = skb\<lparr>cb_ds := e_ecn_encap env (pk_protocol skb) (network_bytes skb), cb_nonce := c\<rparr> in
      if c \<ge> REJECT_AFTER_MESSAGES then (False, skb # skbs, c + 1)
      else
        let (ok, skbs, c') = assign_nonces env skbs (c + 1)
        in (ok, skb # skbs, c'))"

definition wg_packet_create_data :: "env \<Rightarrow> peer_id \<Rightarrow> addr \<Rightarrow> wg_device \<Rightarrow> wg_device" where
  "wg_packet_create_data env p first wg =
     (let (ret, wg) =
            (if pe_is_dead (dv_peers wg p) then (Some EINVAL, wg)
             else
               let (ret, wg) = wg_queue_enqueue_per_device_and_peer env Tx p first wg
               in (ret, if ret = Some EPIPE
                        then wg_queue_enqueue_per_peer_tx env first PACKET_STATE_DEAD wg else wg)) in
      if ret = None \<or> ret = Some EPIPE then wg
      else
        let wg = wg_noise_keypair_put (packet_keypair wg first) False wg;
            wg = wg_peer_put (Some p) wg
        in free_batch first wg)"

text \<open>\<^verbatim>\<open>out_nokey\<close>: the packets go back to the front of the queue.\<close>

definition out_nokey :: "env \<Rightarrow> peer_id \<Rightarrow> addr option \<Rightarrow> packet list \<Rightarrow> wg_device \<Rightarrow> wg_device" where
  "out_nokey env p keypair packets wg =
     (let wg = wg_noise_keypair_put keypair False wg;
          wg = upd_peer p (\<lambda>q. q\<lparr>pe_staged_packet_queue := packets @ pe_staged_packet_queue q\<rparr>) wg
      in wg_packet_send_queued_handshake_initiation env p False wg)"

definition out_invalid :: "env \<Rightarrow> peer_id \<Rightarrow> addr \<Rightarrow> packet list \<Rightarrow> wg_device \<Rightarrow> wg_device" where
  "out_invalid env p k packets wg =
     (let wg = upd_keypair k (\<lambda>kp. kp\<lparr>kp_sending := (kp_sending kp)\<lparr>sk_is_valid := False\<rparr>\<rparr>) wg
      in out_nokey env p (Some k) packets wg)"

text \<open>
  The first part of \<^verbatim>\<open>wg_packet_send_staged_packets\<close>: the staged packets are turned into a batch
  that holds a reference to the keypair and to the peer, or there is nothing to hand on.
\<close>

definition stage_batch :: "env \<Rightarrow> peer_id \<Rightarrow> wg_device \<Rightarrow> addr option \<times> wg_device" where
  "stage_batch env p wg =
     (let packets = pe_staged_packet_queue (dv_peers wg p);
          wg = upd_peer p (\<lambda>q. q\<lparr>pe_staged_packet_queue := []\<rparr>) wg in
      if packets = [] then (None, wg)
      else
        let (keypair, wg) = wg_noise_keypair_get (current_keypair (slots_of wg p)) wg in
        case keypair of
          None \<Rightarrow> (None, out_nokey env p None packets wg)
        | Some k \<Rightarrow>
            if \<not> sk_is_valid (kp_sending (keypair_at wg k)) then (None, out_nokey env p (Some k) packets wg)
            else if wg_birthdate_has_expired env (sk_birthdate (kp_sending (keypair_at wg k))) (of_nat REJECT_AFTER_TIME)
            then (None, out_invalid env p k packets wg)
            else
              let (ok, packets, c) = assign_nonces env packets (kp_sending_counter (keypair_at wg k));
                  wg = upd_keypair k (\<lambda>kp. kp\<lparr>kp_sending_counter := c\<rparr>) wg in
              if \<not> ok then (None, out_invalid env p k packets wg)
              else
                let wg = get_peer_ref (keypair_peer wg k) wg;
                    first = pk_addr (hd packets)
                in (Some first, put_batch first (upd_first (\<lambda>x. x\<lparr>cb_keypair := Some k\<rparr>) packets) wg))"

definition wg_packet_send_staged_packets :: "env \<Rightarrow> peer_id \<Rightarrow> wg_device \<Rightarrow> wg_device" where
  "wg_packet_send_staged_packets env p wg =
     (let (first, wg) = stage_batch env p wg in
      case first of None \<Rightarrow> wg | Some a \<Rightarrow> wg_packet_create_data env p a wg)"

definition alloc_skb :: "addr \<Rightarrow> nat \<Rightarrow> packet" where
  "alloc_skb a room =
     \<lparr>pk_addr = a, pk_buf = replicate room 0, pk_data = room, pk_network_header = 0, pk_transport_header = 0,
      pk_protocol = 0, pk_iif = 0, pk_mark = 0, pk_hash = 0, pk_csum_partial = False, pk_csum_unnecessary = False,
      cb_nonce = 0, cb_keypair = None, cb_state = PACKET_STATE_UNCRYPTED, cb_mtu = 0, cb_ds = 0\<rparr>"

definition wg_packet_send_keepalive :: "env \<Rightarrow> peer_id \<Rightarrow> wg_device \<Rightarrow> wg_device" where
  "wg_packet_send_keepalive env p wg =
     (if pe_staged_packet_queue (dv_peers wg p) = [] then
        case e_skb_mem env p of
          None \<Rightarrow> wg
        | Some a \<Rightarrow>
            let skb = (alloc_skb a (DATA_PACKET_HEAD_ROOM (e_NET_SKB_PAD env)))\<lparr>cb_mtu := dv_mtu wg\<rparr>;
                wg = upd_peer p (\<lambda>q. q\<lparr>pe_staged_packet_queue := pe_staged_packet_queue q @ [skb]\<rparr>) wg
            in wg_packet_send_staged_packets env p wg
      else wg_packet_send_staged_packets env p wg)"

primrec send_list :: "env \<Rightarrow> peer_id \<Rightarrow> packet list \<Rightarrow> bool \<Rightarrow> wg_device \<Rightarrow> bool \<times> wg_device" where
  "send_list env p [] data_sent wg = (data_sent, wg)"
| "send_list env p (skb # skbs) data_sent wg =
     (let is_keepalive = (pk_len skb = message_data_len 0);
          (ret, wg) = wg_socket_send_skb_to_peer env p (pk_bytes skb) (cb_ds skb) wg
      in send_list env p skbs (data_sent \<or> (ret = None \<and> \<not> is_keepalive)) wg)"

definition wg_packet_create_data_done :: "env \<Rightarrow> peer_id \<Rightarrow> packet list \<Rightarrow> wg_device \<Rightarrow> wg_device" where
  "wg_packet_create_data_done env p skbs wg =
     (let wg = wg_timers_any_authenticated_packet_traversal env p wg;
          wg = wg_timers_any_authenticated_packet_sent p wg;
          (data_sent, wg) = send_list env p skbs False wg;
          wg = (if data_sent then wg_timers_data_sent env p wg else wg)
      in keep_key_fresh_tx env p wg)"

section \<open>The workers\<close>

text \<open>
  One round of each loop, then the loop. The transmitter stops at the first batch that is not
  encrypted yet. The encryption worker stops at the first packet that fails.
\<close>

definition tx_round :: "env \<Rightarrow> peer_id \<Rightarrow> addr \<Rightarrow> wg_device \<Rightarrow> wg_device" where
  "tx_round env p first wg =
     (let state = packet_state_of wg first;
          keypair = packet_keypair wg first;
          wg = upd_peer p (\<lambda>q. q\<lparr>pe_tx_queue := wg_prev_queue_drop_peeked (pe_tx_queue q)\<rparr>) wg;
          skbs = batch wg first;
          wg = free_batch first wg;
          wg = (if state = PACKET_STATE_CRYPTED then wg_packet_create_data_done env p skbs wg else wg);
          wg = wg_noise_keypair_put keypair False wg
      in wg_peer_put (Some p) wg)"

fun tx_rounds :: "env list \<Rightarrow> peer_id \<Rightarrow> wg_device \<Rightarrow> wg_device option" where
  "tx_rounds envs p wg =
     (let (first, q) = wg_prev_queue_peek (pe_tx_queue (dv_peers wg p));
          wg = upd_peer p (\<lambda>x. x\<lparr>pe_tx_queue := q\<rparr>) wg in
      case first of
        None \<Rightarrow> Some wg
      | Some a \<Rightarrow>
          if packet_state_of wg a = PACKET_STATE_UNCRYPTED then Some wg
          else (case envs of [] \<Rightarrow> None | env # envs \<Rightarrow> tx_rounds envs p (tx_round env p a wg)))"

definition wg_packet_tx_worker :: "env list \<Rightarrow> peer_id \<Rightarrow> wg_device \<Rightarrow> wg_device option" where
  "wg_packet_tx_worker envs p wg = tx_rounds envs p (upd_peer p (\<lambda>q. q\<lparr>pe_transmit_packet_work := False\<rparr>) wg)"

primrec encrypt_list :: "env \<Rightarrow> wg_device \<Rightarrow> noise_keypair \<Rightarrow> packet list \<Rightarrow> bool \<times> packet list" where
  "encrypt_list env wg kp [] = (True, [])"
| "encrypt_list env wg kp (skb # skbs) =
     (case encrypt_packet env wg kp skb of
        None \<Rightarrow> (False, skb # skbs)
      | Some skb \<Rightarrow>
          let (ok, skbs) = encrypt_list env wg kp skbs
          in (ok, wg_reset_packet skb True # skbs))"

definition encrypt_round :: "env \<Rightarrow> addr \<Rightarrow> wg_device \<Rightarrow> wg_device" where
  "encrypt_round env first wg =
     (let kp = keypair_at wg (the (packet_keypair wg first));
          (ok, skbs) = encrypt_list env wg kp (batch wg first);
          state = (if ok then PACKET_STATE_CRYPTED else PACKET_STATE_DEAD)
      in wg_queue_enqueue_per_peer_tx env first state (put_batch first skbs wg))"

fun encrypt_rounds :: "env list \<Rightarrow> wg_device \<Rightarrow> wg_device option" where
  "encrypt_rounds envs wg =
     (let (first, q) = ptr_ring_consume (dv_encrypt_queue wg);
          wg = wg\<lparr>dv_encrypt_queue := q\<rparr> in
      case first of
        None \<Rightarrow> Some wg
      | Some a \<Rightarrow> (case envs of [] \<Rightarrow> None | env # envs \<Rightarrow> encrypt_rounds envs (encrypt_round env a wg)))"

definition start_work :: "nat \<Rightarrow> 'a crypt_queue \<Rightarrow> 'a crypt_queue" where
  "start_work cpu q = q\<lparr>cq_worker := map_option (\<lambda>w. w(cpu := False)) (cq_worker q)\<rparr>"

definition wg_packet_encrypt_worker :: "env list \<Rightarrow> nat \<Rightarrow> wg_device \<Rightarrow> wg_device option" where
  "wg_packet_encrypt_worker envs cpu wg =
     encrypt_rounds envs (wg\<lparr>dv_encrypt_queue := start_work cpu (dv_encrypt_queue wg)\<rparr>)"


section \<open>Specifications\<close>

text \<open>The nonces that one call of \<^verbatim>\<open>wg_packet_send_staged_packets\<close> hands to encryption under a keypair.\<close>

definition nonces_used :: "addr \<Rightarrow> env \<Rightarrow> peer_id \<Rightarrow> wg_device \<Rightarrow> u64 list" where
  "nonces_used k env p wg =
     (let (first, wg) = stage_batch env p wg in
      case first of
        None \<Rightarrow> []
      | Some a \<Rightarrow> if packet_keypair wg a = Some k then map cb_nonce (batch wg a) else [])"

text \<open>
  Runs in which packets are sent to any peer, keepalives included, while other operations
  neither touch the sending counter of the keypair nor make it valid again.
\<close>

inductive nonce_run :: "addr \<Rightarrow> wg_device \<Rightarrow> u64 list \<Rightarrow> wg_device \<Rightarrow> bool" for k wg where
  start: "nonce_run k wg [] wg"
| staged: "nonce_run k wg ns v \<Longrightarrow>
     nonce_run k wg (ns @ nonces_used k env p v) (wg_packet_send_staged_packets env p v)"
| tx_work: "nonce_run k wg ns v \<Longrightarrow> wg_packet_tx_worker envs p v = Some w \<Longrightarrow> nonce_run k wg ns w"
| encrypt_work: "nonce_run k wg ns v \<Longrightarrow> wg_packet_encrypt_worker envs cpu v = Some w \<Longrightarrow> nonce_run k wg ns w"
| other: "nonce_run k wg ns v \<Longrightarrow> kp_sending_counter (keypair_at w k) = kp_sending_counter (keypair_at v k) \<Longrightarrow>
     (sk_is_valid (kp_sending (keypair_at w k)) \<Longrightarrow> sk_is_valid (kp_sending (keypair_at v k))) \<Longrightarrow>
     nonce_run k wg ns w"

definition send_key :: "wg_device \<Rightarrow> addr \<Rightarrow> u64 \<times> noise_symmetric_key" where
  "send_key wg k = (kp_sending_counter (keypair_at wg k), kp_sending (keypair_at wg k))"

text \<open>
  What the transmit path leaves alone while it does its bookkeeping: the batches in flight, the
  packets sent, the transmit queues, and the sending keys with their counters.
\<close>

definition tx_view :: "wg_device \<Rightarrow> (addr \<rightharpoonup> packet list) \<times> transmission list \<times> (peer_id \<Rightarrow> prev_queue) \<times>
    (addr \<Rightarrow> u64 \<times> noise_symmetric_key)" where
  "tx_view wg = (dv_inflight wg, dv_sent wg, (\<lambda>p. pe_tx_queue (dv_peers wg p)), send_key wg)"

text \<open>The datagrams of a batch, if it was encrypted.\<close>

definition payloads :: "wg_device \<Rightarrow> addr \<Rightarrow> bytes list" where
  "payloads wg a = (if packet_state_of wg a = PACKET_STATE_CRYPTED then map pk_bytes (batch wg a) else [])"

text \<open>The batches at the front of a peer's queue that the encryption workers are done with.\<close>

definition finished :: "wg_device \<Rightarrow> addr list \<Rightarrow> addr list" where
  "finished wg as = takeWhile (\<lambda>a. packet_state_of wg a \<noteq> PACKET_STATE_UNCRYPTED) as"

section \<open>A concrete interface\<close>

text \<open>A peer with a session and two packets of a thousand bytes to send.\<close>

definition demo_keypair :: noise_keypair where
  "demo_keypair = zero_keypair\<lparr>kp_sending := \<lparr>sk_key = replicate 32 8, sk_birthdate = 999000000000, sk_is_valid = True\<rparr>,
     kp_receiving := \<lparr>sk_key = replicate 32 8, sk_birthdate = 999000000000, sk_is_valid = True\<rparr>,
     kp_remote_index := 77, kp_i_am_the_initiator := True, kp_refcount := 1, kp_aead_enc := Some 200, kp_aead_dec := Some 201\<rparr>"

definition demo_skb :: "addr \<Rightarrow> packet" where
  "demo_skb a = zero_packet\<lparr>pk_addr := a, pk_buf := replicate 100 0 @ replicate 1000 1, pk_data := 100,
     pk_network_header := 100, pk_protocol := htons ETH_P_IP, cb_mtu := 1420\<rparr>"

definition demo_tx :: wg_device where
  "demo_tx =
     (let wg = demo_with_peer (replicate 32 3) 1 (replicate 32 4);
          wg = upd_peer 1 (\<lambda>q. q\<lparr>pe_keypairs := zero_keypairs\<lparr>current_keypair := Some 100\<rparr>,
                 pe_staged_packet_queue := [demo_skb 500, demo_skb 501]\<rparr>) wg
      in wg\<lparr>dv_keypairs := [100 \<mapsto> demo_keypair], dv_aeads := [200 \<mapsto> replicate 32 8, 201 \<mapsto> replicate 32 8],
            dv_index_hashtable := (dv_index_hashtable wg)\<lparr>ih_entry := (ih_entry (dv_index_hashtable wg))
              (KeypairEntry 100 := \<lparr>ie_peer = Some 1, ie_type = INDEX_HASHTABLE_KEYPAIR, ie_index = 11\<rparr>)\<rparr>\<rparr>)"

text \<open>The same peer with one batch encrypted and one not.\<close>

definition demo_queued :: wg_device where
  "demo_queued =
     demo_tx\<lparr>dv_inflight := [500 \<mapsto> [(demo_skb 500)\<lparr>cb_state := PACKET_STATE_CRYPTED, cb_keypair := Some 100\<rparr>],
                             501 \<mapsto> [(demo_skb 501)\<lparr>cb_keypair := Some 100\<rparr>]],
             dv_peers := (dv_peers demo_tx)(1 := (dv_peers demo_tx 1)\<lparr>pe_tx_queue :=
               snd (wg_prev_queue_enqueue (snd (wg_prev_queue_enqueue (wg_prev_queue_init zero_queue) 500)) 501)\<rparr>)\<rparr>"

section \<open>Padding\<close>

lemma ALIGN32_16:
  assumes "unat x + 15 < 2 ^ 32"
  shows "unat (ALIGN32 x 16) = (unat x + 15) div 16 * 16"
proof -
  have "(15::u32) = mask 4"
    by (simp add: mask_eq_exp_minus_1)
  then have "ALIGN32 x 16 = (x + 15) AND NOT (mask 4)"
    by (simp add: ALIGN32_def)
  also have "\<dots> = push_bit 4 (drop_bit 4 (x + 15))"
    by (rule bit_word_eqI) (auto simp: bit_simps)
  finally have "ALIGN32 x 16 = push_bit 4 (drop_bit 4 (x + 15))" .
  moreover have "unat (x + 15) = unat x + 15"
    using assms by (subst unat_add_lem [THEN iffD1]) auto
  ultimately show ?thesis
    by (simp add: unat_drop_bit_eq drop_bit_eq_div push_bit_eq_mult unat_word_ariths)
qed


lemma padding_unit:
  assumes "n + 15 < (2::nat) ^ 32"
  shows "n \<le> (n + 15) div 16 * 16" "(n + 15) div 16 * 16 < n + 16"
  by linarith+

text \<open>
  C31. The padding of a packet is less than sixteen bytes and the subtraction that computes it
  never wraps. Without an MTU the padded length is a multiple of sixteen. With one, the last
  unit of the packet is padded to a multiple of sixteen or to the MTU, whichever is smaller,
  so that padding never makes the last unit exceed the MTU.
\<close>

theorem padding_bounds:
  assumes "unat len + 15 < 2 ^ 32"
  shows "unat (calculate_skb_padding len mtu) < 16 \<and>
         (if mtu = 0 then 16 dvd unat len + unat (calculate_skb_padding len mtu)
          else
            let u = (if len > mtu then unat len mod unat mtu else unat len);
                s = u + unat (calculate_skb_padding len mtu)
            in s \<le> unat mtu \<and> (s = unat mtu \<or> 16 dvd s))"
proof (cases "mtu = 0")
  case True
  have le: "len \<le> ALIGN32 len 16" and lt: "unat (ALIGN32 len 16) < unat len + 16"
    using padding_unit [OF assms] by (simp_all add: word_le_nat_alt ALIGN32_16 [OF assms])
  have "unat (calculate_skb_padding len mtu) = unat (ALIGN32 len 16) - unat len"
    using True le by (simp add: calculate_skb_padding_def unat_sub)
  then show ?thesis
    using True le lt by (auto simp: word_le_nat_alt ALIGN32_16 [OF assms])
next
  case False
  define l where "l = (if len > mtu then len mod mtu else len)"
  have lm: "l \<le> mtu" and ll: "unat l \<le> unat len"
    using False by (auto simp: l_def word_le_nat_alt unat_mod word_less_nat_alt unat_gt_0 less_imp_le)
  then have small: "unat l + 15 < 2 ^ 32"
    using assms by simp
  have u: "unat l = (if len > mtu then unat len mod unat mtu else unat len)"
    by (simp add: l_def unat_mod)
  have le: "l \<le> min mtu (ALIGN32 l 16)"
    using padding_unit [OF small] lm by (simp add: min_def word_le_nat_alt ALIGN32_16 [OF small])
  have "unat (calculate_skb_padding len mtu) = unat (min mtu (ALIGN32 l 16)) - unat l"
    using False le unfolding calculate_skb_padding_def Let_def l_def [symmetric] by (simp add: unat_sub)
  moreover have "unat (min mtu (ALIGN32 l 16)) = min (unat mtu) ((unat l + 15) div 16 * 16)"
    by (simp add: min_def word_le_nat_alt ALIGN32_16 [OF small])
  ultimately show ?thesis
    using False padding_unit [OF small] lm unfolding Let_def u [symmetric]
    by (auto simp: word_le_nat_alt min_def)
qed


section \<open>Bookkeeping\<close>

declare tx_rounds.simps [simp del] encrypt_rounds.simps [simp del]

lemma tx_view_simps [simp]:
  "(\<And>q. pe_tx_queue (f q) = pe_tx_queue q) \<Longrightarrow> tx_view (upd_peer p f wg) = tx_view wg"
  "tx_view (wg\<lparr>dv_refs := r\<rparr>) = tx_view wg"
  "tx_view (wg\<lparr>dv_index_hashtable := t\<rparr>) = tx_view wg"
  "tx_view (wg\<lparr>dv_encrypt_queue := dq\<rparr>) = tx_view wg"
  "tx_view (get_peer_ref p wg) = tx_view wg"
  "tx_view (wg_peer_put x wg) = tx_view wg"
  by (auto simp: tx_view_def fun_eq_iff send_key_def get_peer_ref_def keypair_at_def)

lemma tx_view_keypair:
  "(\<And>kp. kp_sending_counter (f kp) = kp_sending_counter kp \<and> kp_sending (f kp) = kp_sending kp) \<Longrightarrow>
   tx_view (upd_keypair k f wg) = tx_view wg"
  by (auto simp: tx_view_def fun_eq_iff send_key_def keypair_at_def)

lemma tx_view_keypair_ref [simp]:
  "tx_view (wg_noise_keypair_put k now wg) = tx_view wg"
  "tx_view (snd (wg_noise_keypair_get k wg)) = tx_view wg"
proof -
  have r: "tx_view (index_remove e w) = tx_view w" for e w
    by (simp add: index_remove_def)
  have f: "tx_view (keypair_free_kref j w) = tx_view w" for j w
    by (simp add: keypair_free_kref_def Let_def r) (simp add: tx_view_def fun_eq_iff send_key_def keypair_at_def index_remove_def)
  show "tx_view (wg_noise_keypair_put k now wg) = tx_view wg"
    by (simp add: wg_noise_keypair_put_def f r tx_view_keypair Let_def split: option.split)
  show "tx_view (snd (wg_noise_keypair_get k wg)) = tx_view wg"
    by (simp add: wg_noise_keypair_get_def tx_view_keypair split: option.split)
qed

lemma tx_view_events [simp]:
  "tx_view (wg_timers_any_authenticated_packet_traversal env p wg) = tx_view wg"
  "tx_view (wg_timers_any_authenticated_packet_sent p wg) = tx_view wg"
  "tx_view (wg_timers_data_sent env p wg) = tx_view wg"
  by (simp_all add: wg_timers_any_authenticated_packet_traversal_def wg_timers_any_authenticated_packet_sent_def
      wg_timers_data_sent_def mod_peer_timer_def del_timer_def)

lemma tx_view_queued [simp]:
  "tx_view (wg_packet_send_queued_handshake_initiation env p r wg) = tx_view wg"
  "tx_view (keep_key_fresh_tx env p wg) = tx_view wg"
  by (simp_all add: wg_packet_send_queued_handshake_initiation_def keep_key_fresh_tx_def Let_def split: option.split)


lemma tx_view_key: "tx_view v = tx_view w \<Longrightarrow> send_key v = send_key w"
  by (simp add: tx_view_def)

lemmas send_key_kept [simp] =
  tx_view_simps [THEN tx_view_key] tx_view_keypair_ref [THEN tx_view_key] tx_view_queued [THEN tx_view_key]

lemma send_key_queues [simp]:
  "send_key (put_batch a xs wg) = send_key wg"
  "send_key (free_batch a wg) = send_key wg"
  "send_key (set_state a s wg) = send_key wg"
  "send_key (set_peer_queue d p q wg) = send_key wg"
  "send_key (set_device_queue d dq wg) = send_key wg"
  "send_key (upd_peer p f wg) = send_key wg"
  by (auto simp: fun_eq_iff send_key_def keypair_at_def put_batch_def free_batch_def set_state_def set_peer_queue_def
      set_device_queue_def split: direction.split)

lemma send_key_enqueue [simp]:
  "send_key (wg_queue_enqueue_per_peer_tx env a s wg) = send_key wg"
  "send_key (snd (wg_queue_enqueue_per_device_and_peer env d p a wg)) = send_key wg"
  by (simp_all add: wg_queue_enqueue_per_peer_tx_def wg_queue_enqueue_per_device_and_peer_def Let_def split: prod.split)

lemma send_key_create_data [simp]: "send_key (wg_packet_create_data env p a wg) = send_key wg"
proof -
  have "send_key w = send_key wg" if "wg_queue_enqueue_per_device_and_peer env Tx p a wg = (r, w)" for r w
    using send_key_enqueue(2) [of env Tx p a wg] that by simp
  then show ?thesis
    by (auto simp: wg_packet_create_data_def Let_def split: prod.split)
qed

lemma send_key_staged:
  "send_key (wg_packet_send_staged_packets env p wg) = send_key (snd (stage_batch env p wg))"
  by (simp add: wg_packet_send_staged_packets_def split: prod.split option.split)

section \<open>Nonces\<close>

lemma assign_nonces_consecutive:
  assumes "assign_nonces env xs c = (True, ys, c')" "unat c \<le> unat REJECT_AFTER_MESSAGES"
  shows "map (unat \<circ> cb_nonce) ys = [unat c..<unat c + length xs] \<and> unat c' = unat c + length xs \<and>
    unat c' \<le> unat REJECT_AFTER_MESSAGES \<and> length ys = length xs"
  using assms
proof (induction xs arbitrary: c ys)
  case Nil
  then show ?case by simp
next
  case (Cons x xs)
  from Cons.prems(1) obtain zs where lt: "c < REJECT_AFTER_MESSAGES" and r: "assign_nonces env xs (c + 1) = (True, zs, c')"
    and ys: "map (unat \<circ> cb_nonce) ys = unat c # map (unat \<circ> cb_nonce) zs" "length ys = Suc (length zs)"
    by (auto simp: Let_def not_le split: if_splits prod.splits)
  have c: "unat (c + 1) = unat c + 1"
    using lt by (subst unat_add_lem [THEN iffD1]) (auto simp: word_less_nat_alt)
  have "[unat c..<unat c + length (x # xs)] = unat c # [unat (c + 1)..<unat (c + 1) + length xs]"
    using c by (simp add: upt_rec del: upt_Suc)
  then show ?case
    using Cons.IH [OF r] lt ys c by (simp add: word_less_nat_alt comp_def del: upt_Suc)
qed

lemma key_out [simp]:
  "send_key (out_nokey env p k packets wg) = send_key wg"
  by (simp add: out_nokey_def Let_def)

lemma key_out_invalid:
  "j \<noteq> k \<Longrightarrow> send_key (out_invalid env p k packets wg) j = send_key wg j"
  "\<not> sk_is_valid (snd (send_key (out_invalid env p k packets wg) k))"
  by (simp_all add: out_invalid_def Let_def) (simp_all add: send_key_def keypair_at_def)


lemma put_batch_simps [simp]:
  "batch (put_batch a xs wg) a = xs"
  "a \<noteq> b \<Longrightarrow> batch (put_batch a xs wg) b = batch wg b"
  by (simp_all add: batch_def put_batch_def)

lemma upd_first_simps [simp]:
  "upd_first f [] = []" "upd_first f (x # xs) = f x # xs"
  by (simp_all add: upd_first_def)

lemma stage_batch_cases:
  assumes "stage_batch env p wg = (r, w)"
  obtains (none) "r = None" "\<And>k. send_key w k = send_key wg k \<or> \<not> sk_is_valid (snd (send_key w k))"
    | (some) a k ys c where "r = Some a" "sk_is_valid (snd (send_key wg k))"
      "assign_nonces env (pe_staged_packet_queue (dv_peers wg p)) (fst (send_key wg k)) = (True, ys, c)"
      "packet_keypair w a = Some k" "map cb_nonce (batch w a) = map cb_nonce ys"
      "send_key w = (send_key wg)(k := (c, snd (send_key wg k)))"
proof -
  define xs where "xs = pe_staged_packet_queue (dv_peers wg p)"
  define v where "v = upd_peer p (\<lambda>q. q\<lparr>pe_staged_packet_queue := []\<rparr>) wg"
  obtain kk u where g: "wg_noise_keypair_get (current_keypair (slots_of v p)) v = (kk, u)"
    by fastforce
  have uv: "send_key u = send_key wg"
    using tx_view_key [OF tx_view_keypair_ref(2) [of "current_keypair (slots_of v p)" v, unfolded g snd_conv]]
    by (simp add: v_def)
  note s = assms [unfolded stage_batch_def Let_def, folded xs_def v_def, unfolded g prod.case]
  show thesis
  proof (cases "xs = [] \<or> kk = None \<or> \<not> sk_is_valid (kp_sending (keypair_at u (the kk)))")
    case True
    then have "r = None" "send_key w = send_key wg"
      using s uv by (auto simp: v_def split: if_splits option.splits)
    then show thesis by (intro none) auto
  next
    case False
    then obtain k x zs where kk: "kk = Some k" and xs: "xs = x # zs" and val: "sk_is_valid (snd (send_key wg k))"
      and valu: "sk_is_valid (kp_sending (keypair_at u k))"
      using uv [symmetric] by (cases xs) (auto simp: send_key_def)
    obtain ok ys c where a: "assign_nonces env xs (kp_sending_counter (keypair_at u k)) = (ok, ys, c)"
      by (metis prod_cases3)
    have key: "kp_sending_counter (keypair_at u k) = fst (send_key wg k)"
      unfolding uv [symmetric] by (simp add: send_key_def)
    have upd: "send_key (upd_keypair k (\<lambda>kp. kp\<lparr>kp_sending_counter := c\<rparr>) u) = (send_key wg)(k := (c, snd (send_key wg k)))"
      unfolding uv [symmetric] by (auto simp: fun_eq_iff send_key_def keypair_at_def)
    show thesis
    proof (cases "ok \<and> \<not> wg_birthdate_has_expired env (sk_birthdate (kp_sending (keypair_at u k))) (of_nat REJECT_AFTER_TIME)")
      case True
      then have w: "r = Some (pk_addr (hd ys))" "send_key w = (send_key wg)(k := (c, snd (send_key wg k)))"
        "batch w (pk_addr (hd ys)) = upd_first (\<lambda>x. x\<lparr>cb_keypair := Some k\<rparr>) ys"
        using s kk xs val False a upd by (auto simp: Let_def)
      moreover have "ys \<noteq> []" using a xs by (auto simp: Let_def split: if_splits prod.splits)
      then obtain y ws where "ys = y # ws" by (cases ys) auto
      ultimately show thesis
        using a True key by (intro some [of "pk_addr (hd ys)" k ys c]) (simp_all add: val xs_def packet_keypair_def)
    next
      case False
      then have "r = None" "w = out_invalid env p k (if ok then xs else ys)
          (if ok then u else upd_keypair k (\<lambda>kp. kp\<lparr>kp_sending_counter := c\<rparr>) u) \<or> w = out_invalid env p k xs u"
        using s kk xs valu a by (auto simp: Let_def split: if_splits)
      then have "send_key w j = send_key wg j \<or> \<not> sk_is_valid (snd (send_key w j))" for j
        using key_out_invalid upd uv by (cases "j = k") (auto split: if_splits)
      then show thesis using \<open>r = None\<close> by (intro none) auto
    qed
  qed
qed


lemma nonces_step:
  fixes env :: env and p :: peer_id
  assumes "sk_is_valid (snd (send_key v k)) \<Longrightarrow> unat (fst (send_key v k)) \<le> unat REJECT_AFTER_MESSAGES"
  defines "ns \<equiv> nonces_used k env p v" and "w \<equiv> wg_packet_send_staged_packets env p v"
    and "c \<equiv> unat (fst (send_key v k))"
  shows "if sk_is_valid (snd (send_key v k))
         then map unat ns = [c..<c + length ns] \<and> c + length ns \<le> unat REJECT_AFTER_MESSAGES \<and>
              (sk_is_valid (snd (send_key w k)) \<longrightarrow> unat (fst (send_key w k)) = c + length ns)
         else ns = [] \<and> \<not> sk_is_valid (snd (send_key w k))"
proof -
  obtain r u where s: "stage_batch env p v = (r, u)" by fastforce
  have w: "send_key w = send_key u" by (simp add: w_def send_key_staged s)
  show ?thesis using s
  proof (cases rule: stage_batch_cases)
    case none
    then have "ns = []" by (simp add: ns_def nonces_used_def s)
    then show ?thesis using none(2) [of k] assms(1) w by (auto simp: c_def)
  next
    case (some a k0 ys c')
    show ?thesis
    proof (cases "k0 = k")
      case True
      have n: "map (unat \<circ> cb_nonce) ys = [c..<c + length ys] \<and> unat c' = c + length ys \<and>
          unat c' \<le> unat REJECT_AFTER_MESSAGES"
        using assign_nonces_consecutive [OF some(3)] assms(1) some(2) True by (auto simp: c_def)
      have "ns = map cb_nonce ys" using some True by (simp add: ns_def nonces_used_def s)
      then show ?thesis using n w some True by simp
    next
      case False
      then have "ns = []" using some by (simp add: ns_def nonces_used_def s)
      then show ?thesis using w some False assms(1) by (simp add: c_def)
    qed
  qed
qed

lemma send_key_send: "wg_socket_send_skb_to_peer env p payload ds wg = (r, w) \<Longrightarrow> send_key w = send_key wg"
proof (erule send_skb_shape)
  have "send_key (wg\<lparr>dv_sent := x\<rparr>) = send_key wg" for x
    by (auto simp: fun_eq_iff send_key_def keypair_at_def)
  then show ?thesis if "if r = None
     then \<exists>t. sent_to (ep_addr ep) (dv_fwmark wg) ds payload t \<and>
       w = upd_peer p (\<lambda>q. q\<lparr>pe_endpoint := ep, pe_endpoint_cache := c,
         pe_tx_bytes := pe_tx_bytes q + of_nat (length payload)\<rparr>) (wg\<lparr>dv_sent := dv_sent wg @ [t]\<rparr>)
     else w = upd_peer p (\<lambda>q. q\<lparr>pe_endpoint := ep, pe_endpoint_cache := c\<rparr>) wg" for ep c
    using that by (auto split: if_splits)
qed

lemma send_key_send_list: "send_list env p skbs b wg = (r, w) \<Longrightarrow> send_key w = send_key wg"
  by (induction skbs arbitrary: b wg) (auto simp: Let_def dest: send_key_send split: prod.splits)

lemma send_key_events [simp]:
  "send_key (wg_timers_any_authenticated_packet_traversal env p wg) = send_key wg"
  "send_key (wg_timers_any_authenticated_packet_sent p wg) = send_key wg"
  "send_key (wg_timers_data_sent env p wg) = send_key wg"
  by (simp_all add: tx_view_events [THEN tx_view_key])

lemma send_key_done [simp]: "send_key (wg_packet_create_data_done env p skbs wg) = send_key wg"
  by (auto simp: wg_packet_create_data_done_def Let_def dest: send_key_send_list split: prod.split)

lemma send_key_rounds [simp]:
  "send_key (tx_round env p a wg) = send_key wg"
  "send_key (encrypt_round env a wg) = send_key wg"
  by (simp_all add: tx_round_def encrypt_round_def Let_def split: prod.split)

lemma send_key_tx_worker: "wg_packet_tx_worker envs p v = Some w \<Longrightarrow> send_key w = send_key v"
proof -
  have "tx_rounds envs p v = Some w \<Longrightarrow> send_key w = send_key v" for v
    by (induction envs arbitrary: v; subst (asm) tx_rounds.simps)
      (fastforce simp: Let_def split: prod.splits option.splits if_splits)+
  then show "wg_packet_tx_worker envs p v = Some w \<Longrightarrow> send_key w = send_key v"
    by (fastforce simp: wg_packet_tx_worker_def)
qed

lemma send_key_encrypt_worker: "wg_packet_encrypt_worker envs cpu v = Some w \<Longrightarrow> send_key w = send_key v"
proof -
  have "encrypt_rounds envs v = Some w \<Longrightarrow> send_key w = send_key v" for v
    by (induction envs arbitrary: v; subst (asm) encrypt_rounds.simps)
      (fastforce simp: Let_def split: prod.splits option.splits)+
  then show "wg_packet_encrypt_worker envs cpu v = Some w \<Longrightarrow> send_key w = send_key v"
    by (fastforce simp: wg_packet_encrypt_worker_def)
qed


lemma run_nonces:
  assumes "nonce_run k wg ns w" "unat (fst (send_key wg k)) \<le> unat REJECT_AFTER_MESSAGES"
  defines "c \<equiv> unat (fst (send_key wg k))"
  shows "map unat ns = [c..<c + length ns] \<and> c + length ns \<le> unat REJECT_AFTER_MESSAGES \<and>
    (sk_is_valid (snd (send_key w k)) \<longrightarrow> unat (fst (send_key w k)) = c + length ns)"
  using assms(1)
proof (induction rule: nonce_run.induct)
  case (staged ns v env p)
  define c1 where "c1 = unat (fst (send_key v k))"
  define ms where "ms = nonces_used k env p v"
  have step: "if sk_is_valid (snd (send_key v k))
     then map unat ms = [c1..<c1 + length ms] \<and> c1 + length ms \<le> unat REJECT_AFTER_MESSAGES \<and>
       (sk_is_valid (snd (send_key (wg_packet_send_staged_packets env p v) k)) \<longrightarrow>
        unat (fst (send_key (wg_packet_send_staged_packets env p v) k)) = c1 + length ms)
     else ms = [] \<and> \<not> sk_is_valid (snd (send_key (wg_packet_send_staged_packets env p v) k))"
    unfolding c1_def ms_def by (rule nonces_step) (use staged.IH in simp)
  show ?case
  proof (cases "sk_is_valid (snd (send_key v k))")
    case True
    then have "c1 = c + length ns" using staged.IH by (simp add: c1_def)
    moreover have "[c..<c + length ns + length ms] = [c..<c + length ns] @ [c + length ns..<c + length ns + length ms]"
      by (rule upt_add_eq_append) simp
    ultimately show ?thesis
      unfolding ms_def [symmetric] using staged.IH step True by (simp add: add.assoc)
  next
    case False
    then show ?thesis using staged.IH step by (simp add: ms_def)
  qed
next
  case (other ns v w)
  then show ?case by (auto simp: send_key_def)
qed (use assms(2) in \<open>auto simp: c_def send_key_tx_worker send_key_encrypt_worker\<close>)

section \<open>The order of transmission\<close>

lemma tx_view_send:
  assumes "wg_socket_send_skb_to_peer env p payload ds wg = (r, w)"
  obtains ts where "tx_view w = (dv_inflight wg, dv_sent wg @ ts, (\<lambda>p. pe_tx_queue (dv_peers wg p)), send_key wg)"
    "subseq (map tx_payload ts) [payload]"
  using assms
proof (rule send_skb_shape)
  note out = that
  have k: "send_key (wg\<lparr>dv_sent := x\<rparr>) = send_key wg" for x
    by (auto simp: fun_eq_iff send_key_def keypair_at_def)
  show thesis if "if r = None
     then \<exists>t. sent_to (ep_addr ep) (dv_fwmark wg) ds payload t \<and>
       w = upd_peer p (\<lambda>q. q\<lparr>pe_endpoint := ep, pe_endpoint_cache := c,
         pe_tx_bytes := pe_tx_bytes q + of_nat (length payload)\<rparr>) (wg\<lparr>dv_sent := dv_sent wg @ [t]\<rparr>)
     else w = upd_peer p (\<lambda>q. q\<lparr>pe_endpoint := ep, pe_endpoint_cache := c\<rparr>) wg" for ep c
  proof (cases r)
    case None
    then obtain t where t: "tx_payload t = payload" "tx_view w = tx_view (wg\<lparr>dv_sent := dv_sent wg @ [t]\<rparr>)"
      using \<open>if r = None then _ else _\<close> by (auto simp: sent_to_def)
    show thesis by (rule out [of "[t]"]) (use t in \<open>simp_all add: tx_view_def k\<close>)
  next
    case (Some e)
    then have "tx_view w = tx_view wg" using \<open>if r = None then _ else _\<close> by simp
    then show thesis by (intro out [of "[]"]) (simp_all add: tx_view_def)
  qed
qed

lemma tx_view_send_list:
  "send_list env p skbs b wg = (r, w) \<Longrightarrow>
   \<exists>ts. tx_view w = (dv_inflight wg, dv_sent wg @ ts, (\<lambda>p. pe_tx_queue (dv_peers wg p)), send_key wg) \<and>
        subseq (map tx_payload ts) (map pk_bytes skbs)"
proof (induction skbs arbitrary: b wg)
  case Nil
  then show ?case by (auto simp: tx_view_def)
next
  case (Cons x xs)
  obtain e v where s: "wg_socket_send_skb_to_peer env p (pk_bytes x) (cb_ds x) wg = (e, v)" by fastforce
  obtain ts where v: "tx_view v = (dv_inflight wg, dv_sent wg @ ts, (\<lambda>p. pe_tx_queue (dv_peers wg p)), send_key wg)"
    "subseq (map tx_payload ts) [pk_bytes x]" by (rule tx_view_send [OF s])
  obtain us where w: "tx_view w = (dv_inflight v, dv_sent v @ us, (\<lambda>p. pe_tx_queue (dv_peers v p)), send_key v)"
    "subseq (map tx_payload us) (map pk_bytes xs)" using Cons.IH [of _ v] Cons.prems s by (auto simp: Let_def)
  have "tx_view w = (dv_inflight wg, dv_sent wg @ (ts @ us), (\<lambda>p. pe_tx_queue (dv_peers wg p)), send_key wg)"
    using v w by (simp add: tx_view_def)
  moreover have "subseq (map tx_payload (ts @ us)) (map pk_bytes (x # xs))"
    using list_emb_append_mono [OF v(2) w(2)] by simp
  ultimately show ?case by blast
qed


lemma tx_view_done:
  assumes "tx_view wg = (i, t, q, k)"
  shows "\<exists>ts. tx_view (wg_packet_create_data_done env p skbs wg) = (i, t @ ts, q, k) \<and>
    subseq (map tx_payload ts) (map pk_bytes skbs)"
proof -
  define v where "v = wg_timers_any_authenticated_packet_sent p (wg_timers_any_authenticated_packet_traversal env p wg)"
  obtain b w where s: "send_list env p skbs False v = (b, w)" by fastforce
  obtain ts where "tx_view w = (dv_inflight v, dv_sent v @ ts, (\<lambda>p. pe_tx_queue (dv_peers v p)), send_key v)"
    "subseq (map tx_payload ts) (map pk_bytes skbs)" using tx_view_send_list [OF s] by blast
  moreover have "tx_view v = (i, t, q, k)" using assms by (simp add: v_def)
  ultimately show ?thesis
    using s by (intro exI [of _ ts]) (simp add: wg_packet_create_data_done_def Let_def v_def [symmetric], simp add: tx_view_def)
qed

lemma tx_view_round:
  "\<exists>ts. tx_view (tx_round env p a wg) =
     ((dv_inflight wg)(a := None), dv_sent wg @ ts,
      (\<lambda>x. pe_tx_queue (dv_peers wg x))(p := wg_prev_queue_drop_peeked (pe_tx_queue (dv_peers wg p))), send_key wg) \<and>
     subseq (map tx_payload ts) (payloads wg a)"
proof -
  define v where "v = free_batch a (upd_peer p (\<lambda>q. q\<lparr>pe_tx_queue := wg_prev_queue_drop_peeked (pe_tx_queue q)\<rparr>) wg)"
  define x where "x = ((dv_inflight wg)(a := None), dv_sent wg,
      (\<lambda>x. pe_tx_queue (dv_peers wg x))(p := wg_prev_queue_drop_peeked (pe_tx_queue (dv_peers wg p))), send_key wg)"
  have v: "tx_view v = x"
    by (auto simp: tx_view_def x_def v_def free_batch_def fun_eq_iff send_key_def keypair_at_def)
  have b: "batch (upd_peer p f wg) a = batch wg a" for f by (simp add: batch_def)
  show ?thesis
  proof (cases "packet_state_of wg a = PACKET_STATE_CRYPTED")
    case True
    obtain ts where "tx_view (wg_packet_create_data_done env p (batch wg a) v) =
        (fst x, fst (snd x) @ ts, fst (snd (snd x)), snd (snd (snd x)))"
      "subseq (map tx_payload ts) (map pk_bytes (batch wg a))"
      using tx_view_done [of v "fst x" "fst (snd x)" "fst (snd (snd x))" "snd (snd (snd x))" env p "batch wg a"] v
      by (auto simp: x_def)
    then show ?thesis
      using True by (intro exI [of _ ts]) (simp add: tx_round_def payloads_def Let_def b v_def [symmetric] x_def)
  next
    case False
    then show ?thesis
      using v by (intro exI [of _ "[]"]) (simp add: tx_round_def payloads_def Let_def v_def [symmetric] x_def)
  qed
qed


lemma batch_cong:
  assumes "dv_inflight v b = dv_inflight w b"
  shows "packet_state_of v b = packet_state_of w b" "payloads v b = payloads w b" "batch v b = batch w b"
  using assms by (simp_all add: packet_state_of_def payloads_def batch_def)

lemma finished_cong:
  assumes "\<And>b. b \<in> set as \<Longrightarrow> dv_inflight v b = dv_inflight w b"
  shows "finished v as = finished w as" "map (payloads v) (finished w as) = map (payloads w) (finished w as)"
  using assms batch_cong [of v _ w] set_takeWhileD [of _ _ as]
  by (auto simp: finished_def intro!: takeWhile_cong)

lemma tx_rounds_step:
  assumes "pq_rep (pe_tx_queue (dv_peers wg p)) pk xs" "content pk xs = a # as"
    "packet_state_of wg a \<noteq> PACKET_STATE_UNCRYPTED"
  obtains u ts where "tx_rounds (env # es) p wg = tx_rounds es p u" "pq_rep (pe_tx_queue (dv_peers u p)) None as"
    "dv_inflight u = (dv_inflight wg)(a := None)" "dv_sent u = dv_sent wg @ ts"
    "subseq (map tx_payload ts) (payloads wg a)"
proof -
  obtain q where q: "wg_prev_queue_peek (pe_tx_queue (dv_peers wg p)) = (Some a, q)"
      "pq_rep (wg_prev_queue_drop_peeked q) None as"
    using pq.next_element [OF assms(1,2)] by blast
  define v where "v = upd_peer p (\<lambda>x. x\<lparr>pe_tx_queue := q\<rparr>) wg"
  define u where "u = tx_round env p a v"
  have v: "packet_state_of v a = packet_state_of wg a" "payloads v a = payloads wg a"
    by (simp_all add: v_def packet_state_of_def payloads_def batch_def)
  obtain ts where "tx_view u = ((dv_inflight v)(a := None), dv_sent v @ ts,
      (\<lambda>x. pe_tx_queue (dv_peers v x))(p := wg_prev_queue_drop_peeked (pe_tx_queue (dv_peers v p))), send_key v)"
    and ts: "subseq (map tx_payload ts) (payloads v a)" unfolding u_def using tx_view_round by blast
  then have "dv_inflight u = (dv_inflight wg)(a := None)" "dv_sent u = dv_sent wg @ ts"
    "pe_tx_queue (dv_peers u p) = wg_prev_queue_drop_peeked q"
    by (auto simp: tx_view_def v_def dest: fun_cong [of _ _ p])
  moreover have "tx_rounds (env # es) p wg = tx_rounds es p u"
    using q(1) assms(3) v(1) by (simp add: tx_rounds.simps [of "env # es"] v_def [symmetric] u_def)
  ultimately show thesis using that ts v(2) q(2) by simp
qed

lemma tx_rounds_stop:
  assumes "pq_rep (pe_tx_queue (dv_peers wg p)) pk xs" "finished wg (content pk xs) = []"
  obtains w pk' xs' where "tx_rounds envs p wg = Some w" "pq_rep (pe_tx_queue (dv_peers w p)) pk' xs'"
    "content pk' xs' = content pk xs" "dv_sent w = dv_sent wg" "dv_inflight w = dv_inflight wg"
proof -
  obtain r q pk' xs' where q: "wg_prev_queue_peek (pe_tx_queue (dv_peers wg p)) = (r, q)" "pq_rep q pk' xs'"
      "content pk' xs' = content pk xs" "r = (case content pk xs of [] \<Rightarrow> None | x # _ \<Rightarrow> Some x)"
    using pq.peek_content [OF assms(1)] by (metis prod.collapse)
  define v where "v = upd_peer p (\<lambda>x. x\<lparr>pe_tx_queue := q\<rparr>) wg"
  have "packet_state_of v a = PACKET_STATE_UNCRYPTED" if "r = Some a" for a
    using that q(4) assms(2) by (auto simp: finished_def v_def packet_state_of_def batch_def split: list.splits if_splits)
  then have "tx_rounds envs p wg = Some v"
    using q(1) by (simp add: tx_rounds.simps [of envs] v_def [symmetric] split: option.split)
  then show thesis using q(2,3) by (intro that [of v pk' xs']) (simp_all add: v_def)
qed

lemma tx_rounds_order:
  assumes "pq_rep (pe_tx_queue (dv_peers wg p)) pk xs" "content pk xs = as" "distinct as"
    "length (finished wg as) \<le> length envs"
  shows "\<exists>w pk' xs' ts. tx_rounds envs p wg = Some w \<and> pq_rep (pe_tx_queue (dv_peers w p)) pk' xs' \<and>
    content pk' xs' = drop (length (finished wg as)) as \<and> dv_sent w = dv_sent wg @ ts \<and>
    subseq (map tx_payload ts) (concat (map (payloads wg) (finished wg as))) \<and>
    dv_inflight w = dv_inflight wg |` (- set (finished wg as))"
  using assms
proof (induction as arbitrary: wg pk xs envs)
  case Nil
  then have "finished wg (content pk xs) = []" by (simp add: finished_def)
  from tx_rounds_stop [OF Nil.prems(1) this, of envs] show ?case using Nil by (fastforce simp: finished_def)
next
  case (Cons a as)
  show ?case
  proof (cases "packet_state_of wg a = PACKET_STATE_UNCRYPTED")
    case True
    then have "finished wg (content pk xs) = []" "finished wg (a # as) = []"
      using Cons.prems(2) by (simp_all add: finished_def)
    with tx_rounds_stop [OF Cons.prems(1) this(1), of envs] show ?thesis using Cons.prems(2) by fastforce
  next
    case False
    then obtain env es where es: "envs = env # es" using Cons.prems(4) by (cases envs) (auto simp: finished_def)
    obtain u ts where u: "tx_rounds (env # es) p wg = tx_rounds es p u" "pq_rep (pe_tx_queue (dv_peers u p)) None as"
      "dv_inflight u = (dv_inflight wg)(a := None)" "dv_sent u = dv_sent wg @ ts"
      "subseq (map tx_payload ts) (payloads wg a)"
      using tx_rounds_step [OF Cons.prems(1,2) False] by blast
    have same: "dv_inflight u b = dv_inflight wg b" if "b \<in> set as" for b
      using u(3) Cons.prems(3) that by auto
    have fin: "finished u as = finished wg as" "map (payloads u) (finished wg as) = map (payloads wg) (finished wg as)"
      by (rule finished_cong, erule same)+
    have len: "length (finished u as) \<le> length es" "content None as = as" "distinct as"
      using Cons.prems(3,4) es False fin(1) by (simp_all add: finished_def content_def)
    obtain w pk' xs' us where w: "tx_rounds es p u = Some w" "pq_rep (pe_tx_queue (dv_peers w p)) pk' xs'"
      "content pk' xs' = drop (length (finished wg as)) as" "dv_sent w = dv_sent u @ us"
      "subseq (map tx_payload us) (concat (map (payloads wg) (finished wg as)))"
      "dv_inflight w = dv_inflight u |` (- set (finished wg as))"
      using Cons.IH [OF u(2) len(2,3,1), unfolded fin] by blast
    have f: "finished wg (a # as) = a # finished wg as" using False by (simp add: finished_def)
    have "subseq (map tx_payload (ts @ us)) (concat (map (payloads wg) (finished wg (a # as))))"
      using list_emb_append_mono [OF u(5) w(5)] f by simp
    moreover have "dv_inflight w = dv_inflight wg |` (- set (finished wg (a # as)))"
      using w(6) u(3) f by (auto simp: fun_eq_iff restrict_map_def)
    ultimately show ?thesis
      using w(1-4) u(1,4) f es by (intro exI [of _ w] exI [of _ pk'] exI [of _ xs'] exI [of _ "ts @ us"]) simp
  qed
qed


section \<open>Properties\<close>

text \<open>
  C32. Under one keypair no nonce is used twice: in every run, the nonces of the packets handed
  to encryption are consecutive numbers that start at the keypair's counter, and all of them are
  below \<^verbatim>\<open>REJECT_AFTER_MESSAGES\<close>. This covers the case where a batch runs over the limit, in
  which the counter has passed it and the key is made invalid.
\<close>

theorem nonces_never_repeat:
  assumes "nonce_run k wg ns w"
    "unat (kp_sending_counter (keypair_at wg k)) \<le> unat REJECT_AFTER_MESSAGES"
  shows "map unat ns = [unat (kp_sending_counter (keypair_at wg k))..<
           unat (kp_sending_counter (keypair_at wg k)) + length ns] \<and>
         distinct ns \<and> list_all (\<lambda>n. n < REJECT_AFTER_MESSAGES) ns"
proof -
  define c where "c = unat (kp_sending_counter (keypair_at wg k))"
  have m: "map unat ns = [c..<c + length ns]" "c + length ns \<le> unat REJECT_AFTER_MESSAGES"
    using run_nonces [OF assms(1)] assms(2) by (simp_all add: send_key_def c_def)
  have "distinct (map unat ns)" unfolding m(1) by simp
  then have "distinct ns" by (simp add: distinct_map)
  moreover have "n < REJECT_AFTER_MESSAGES" if "n \<in> set ns" for n
  proof -
    have "unat n \<in> set (map unat ns)" using that by simp
    then show ?thesis using m by (simp add: word_less_nat_alt)
  qed
  ultimately show ?thesis using m(1) by (simp add: c_def list_all_iff)
qed



section \<open>Witnesses\<close>

theorem padding_bounds_witness:
  "unat (1415::u32) + 15 < 2 ^ 32 \<and> unat (calculate_skb_padding 1415 1420) < 16"
  using padding_bounds [of 1415 1420] by simp

lemmas demo_tx_defs = demo_tx_def demo_keypair_def demo_skb_def zero_keypair_def zero_symmetric_key_def demo_defs

lemma demo_tx_nonces: "nonces_used 100 demo_env 1 demo_tx = [0, 1]"
  by (simp del: One_nat_def add: nonces_used_def stage_batch_def demo_tx_defs wg_noise_keypair_get_def slots_of_def
      upd_keypair_def upd_peer_def keypair_at_def wg_birthdate_has_expired_def REJECT_AFTER_MESSAGES_eq keypair_peer_def
      get_peer_ref_def wg_peer_get_def packet_keypair_def word_le_nat_alt NSEC_PER_SEC_def)

theorem nonces_never_repeat_witness:
  "nonce_run 100 demo_tx [0, 1] (wg_packet_send_staged_packets demo_env 1 demo_tx) \<and>
   unat (kp_sending_counter (keypair_at demo_tx 100)) \<le> unat REJECT_AFTER_MESSAGES \<and> distinct [0, 1::u64]"
proof -
  have r: "nonce_run 100 demo_tx [0, 1] (wg_packet_send_staged_packets demo_env 1 demo_tx)"
    using nonce_run.staged [OF nonce_run.start, of 100 demo_tx demo_env 1] demo_tx_nonces by simp
  have c: "unat (kp_sending_counter (keypair_at demo_tx 100)) \<le> unat REJECT_AFTER_MESSAGES"
    by (simp add: demo_tx_defs keypair_at_def)
  show ?thesis using nonces_never_repeat [OF r c] r c by blast
qed


lemma demo_queue_rep: "pq_rep (pe_tx_queue (dv_peers demo_queued 1)) None [500, 501]"
proof -
  obtain q where q: "wg_prev_queue_enqueue (wg_prev_queue_init zero_queue) 500 = (True, q)" "pq_rep q None [500]"
    using pq_rep_enqueue [OF pq_rep_init, of 500 zero_queue] by (auto simp: MAX_QUEUED_PACKETS_def)
  obtain r where "wg_prev_queue_enqueue q 501 = (True, r)" "pq_rep r None [500, 501]"
    using pq_rep_enqueue [OF q(2), of 501] by (auto simp: MAX_QUEUED_PACKETS_def)
  then show ?thesis using q by (simp add: demo_queued_def)
qed


end
