(* ===== verification/WG_TimerHandlers.thy ===== *)
theory WG_TimerHandlers
  imports WG_Send
begin

text \<open>
  The handlers of expired timers, \<^verbatim>\<open>timers.c\<close>. The timer core marks a timer as not pending
  before it calls the handler, and a work item as not queued before it runs it.
\<close>

section \<open>Handlers\<close>

definition wg_expired_retransmit_handshake :: "env \<Rightarrow> peer_id \<Rightarrow> wg_device \<Rightarrow> wg_device" where
  "wg_expired_retransmit_handshake env p wg =
     (let wg = del_timer pe_timer_retransmit_handshake_update p wg in
      if pe_timer_handshake_attempts (dv_peers wg p) > of_nat MAX_TIMER_HANDSHAKES then
        let wg = del_timer pe_timer_send_keepalive_update p wg;
            wg = wg_packet_purge_staged_packets p wg
        in if pe_timer_zero_key_material (dv_peers wg p) = None
           then mod_peer_timer pe_timer_zero_key_material_update p (after_secs env (REJECT_AFTER_TIME * 3)) wg
           else wg
      else
        let wg = upd_peer p (\<lambda>q. q\<lparr>pe_timer_handshake_attempts := pe_timer_handshake_attempts q + 1\<rparr>) wg;
            wg = wg_socket_clear_peer_endpoint_src p wg
        in wg_packet_send_queued_handshake_initiation env p True wg)"

definition wg_expired_send_keepalive :: "env \<Rightarrow> peer_id \<Rightarrow> wg_device \<Rightarrow> wg_device" where
  "wg_expired_send_keepalive env p wg =
     (let wg = del_timer pe_timer_send_keepalive_update p wg;
          wg = wg_packet_send_keepalive env p wg in
      if pe_timer_need_another_keepalive (dv_peers wg p) then
        let wg = upd_peer p (\<lambda>q. q\<lparr>pe_timer_need_another_keepalive := False\<rparr>) wg
        in mod_peer_timer pe_timer_send_keepalive_update p (after_secs env KEEPALIVE_TIMEOUT) wg
      else wg)"

definition wg_expired_new_handshake :: "env \<Rightarrow> peer_id \<Rightarrow> wg_device \<Rightarrow> wg_device" where
  "wg_expired_new_handshake env p wg =
     (let wg = del_timer pe_timer_new_handshake_update p wg;
          wg = wg_socket_clear_peer_endpoint_src p wg
      in wg_packet_send_queued_handshake_initiation env p False wg)"

definition wg_expired_zero_key_material :: "peer_id \<Rightarrow> wg_device \<Rightarrow> wg_device" where
  "wg_expired_zero_key_material p wg =
     (let wg = del_timer pe_timer_zero_key_material_update p wg in
      if pe_is_dead (dv_peers wg p) then wg
      else
        let wg = get_peer_ref p wg in
        if pe_clear_peer_work (dv_peers wg p) then wg_peer_put (Some p) wg
        else upd_peer p (\<lambda>q. q\<lparr>pe_clear_peer_work := True\<rparr>) wg)"

definition wg_queued_expired_zero_key_material :: "peer_id \<Rightarrow> wg_device \<Rightarrow> wg_device" where
  "wg_queued_expired_zero_key_material p wg =
     (let wg = upd_peer p (\<lambda>q. q\<lparr>pe_clear_peer_work := False\<rparr>) wg;
          wg = wg_noise_handshake_clear p wg;
          wg = wg_noise_keypairs_clear p wg
      in wg_peer_put (Some p) wg)"

definition wg_expired_send_persistent_keepalive :: "env \<Rightarrow> peer_id \<Rightarrow> wg_device \<Rightarrow> wg_device" where
  "wg_expired_send_persistent_keepalive env p wg =
     (let wg = del_timer pe_timer_persistent_keepalive_update p wg in
      if pe_persistent_keepalive_interval (dv_peers wg p) \<noteq> 0 then wg_packet_send_keepalive env p wg else wg)"

text \<open>Flushing a work item that is queued runs it.\<close>

definition wg_timers_stop :: "peer_id \<Rightarrow> wg_device \<Rightarrow> wg_device" where
  "wg_timers_stop p wg =
     (let wg = del_timer pe_timer_retransmit_handshake_update p wg;
          wg = del_timer pe_timer_send_keepalive_update p wg;
          wg = del_timer pe_timer_new_handshake_update p wg;
          wg = del_timer pe_timer_zero_key_material_update p wg;
          wg = del_timer pe_timer_persistent_keepalive_update p wg
      in if pe_clear_peer_work (dv_peers wg p) then wg_queued_expired_zero_key_material p wg else wg)"

section \<open>Retries\<close>

text \<open>
  Runs in which a peer does not answer: the retransmit timer expires, the queued work sends
  an initiation, and everything else leaves the retry state alone. The number counts how
  often the timer expired.
\<close>

definition retry_state :: "peer_id \<Rightarrow> wg_device \<Rightarrow> u32 \<times> bool \<times> timer" where
  "retry_state p wg = (pe_timer_handshake_attempts (dv_peers wg p), pe_transmit_handshake_work (dv_peers wg p),
     pe_timer_retransmit_handshake (dv_peers wg p))"

inductive retry_run :: "peer_id \<Rightarrow> wg_device \<Rightarrow> nat \<Rightarrow> wg_device \<Rightarrow> bool" for p wg where
  start: "retry_run p wg 0 wg"
| expire: "retry_run p wg n v \<Longrightarrow> pe_timer_retransmit_handshake (dv_peers v p) \<noteq> None \<Longrightarrow>
     retry_run p wg (Suc n) (wg_expired_retransmit_handshake env p v)"
| send: "retry_run p wg n v \<Longrightarrow> pe_transmit_handshake_work (dv_peers v p) \<Longrightarrow>
     wg_packet_handshake_send_worker env p v = Some w \<Longrightarrow> retry_run p wg n w"
| other: "retry_run p wg n v \<Longrightarrow> retry_state p w = retry_state p v \<Longrightarrow> retry_run p wg n w"

text \<open>An interface whose peer has been sent an initiation.\<close>

definition demo_waiting :: wg_device where
  "demo_waiting = upd_peer 1 (\<lambda>q. q\<lparr>pe_timer_retransmit_handshake := Some 100501\<rparr>)
     (demo_with_peer (replicate 32 3) 1 (replicate 32 4))"

section \<open>Lemmas\<close>

lemma retry_state_simps [simp]:
  "retry_state p (wg\<lparr>dv_index_hashtable := t\<rparr>) = retry_state p wg"
  "retry_state p (wg\<lparr>dv_sent := s\<rparr>) = retry_state p wg"
  "retry_state p (get_peer_ref q wg) = retry_state p wg"
  "retry_state p (wg_peer_put x wg) = retry_state p wg"
  "retry_state p (set_handshake q h wg) = retry_state p wg"
  by (simp_all add: retry_state_def get_peer_ref_def upd_handshake_def)

lemma retry_state_peer:
  "(\<And>q. pe_timer_handshake_attempts (f q) = pe_timer_handshake_attempts q \<and>
    pe_transmit_handshake_work (f q) = pe_transmit_handshake_work q \<and>
    pe_timer_retransmit_handshake (f q) = pe_timer_retransmit_handshake q) \<Longrightarrow>
   retry_state p (upd_peer r f wg) = retry_state p wg"
  by (simp add: retry_state_def)

lemma retry_state_initiation:
  "wg_noise_handshake_create_initiation env p v = Some (r, w) \<Longrightarrow> retry_state p w = retry_state p v"
  by (auto simp: wg_noise_handshake_create_initiation_def Let_def split: if_splits prod.splits option.splits bind_splits)

lemma retry_state_send: "wg_socket_send_buffer_to_peer env p bs ds v = (r, w) \<Longrightarrow> retry_state p w = retry_state p v"
proof (cases "e_skb_mem env p")
  case (Some a)
  assume "wg_socket_send_buffer_to_peer env p bs ds v = (r, w)"
  then have "wg_socket_send_skb_to_peer env p bs ds v = (r, w)"
    using Some by (simp add: wg_socket_send_buffer_to_peer_def)
  then show ?thesis
    by (rule send_skb_shape) (auto simp: retry_state_peer split: if_splits)
qed (simp add: wg_socket_send_buffer_to_peer_def)

lemma quiet_events:
  "retry_state p (now_sent_handshake env p wg) = retry_state p wg"
  "retry_state p (wg_timers_any_authenticated_packet_sent p wg) = retry_state p wg"
  "retry_state p (wg_timers_any_authenticated_packet_traversal env p wg) = retry_state p wg"
  by (simp_all add: now_sent_handshake_def wg_timers_any_authenticated_packet_sent_def del_timer_def mod_peer_timer_def
      wg_timers_any_authenticated_packet_traversal_def retry_state_peer)

lemma retry_state_worker:
  assumes "wg_packet_handshake_send_worker env p v = Some w" "retry_state p v = (a, b, t)"
  shows "\<exists>t'. retry_state p w = (a, False, t')"
proof -
  define u where "u = upd_peer p (\<lambda>q. q\<lparr>pe_transmit_handshake_work := False\<rparr>) v"
  have u: "retry_state p u = (a, False, t)" using assms(2) by (simp add: u_def retry_state_def)
  obtain x where x: "wg_packet_send_handshake_initiation env p u = Some x" "w = wg_peer_put (Some p) x"
    using assms(1) by (auto simp: wg_packet_handshake_send_worker_def u_def split: bind_splits)
  have "\<exists>t'. retry_state p x = (a, False, t')"
  proof (cases "x = u")
    case False
    then obtain r y where y: "wg_noise_handshake_create_initiation env p (now_sent_handshake env p u) = Some (r, y)"
      "case r of None \<Rightarrow> x = y
       | Some packet \<Rightarrow> \<exists>bs z e z'. wg_cookie_add_mac_to_packet env (encode_initiation packet) p y = (bs, z) \<and>
           wg_socket_send_buffer_to_peer env p bs HANDSHAKE_DSCP (now_sent_handshake env p
             (wg_timers_any_authenticated_packet_sent p (wg_timers_any_authenticated_packet_traversal env p z))) = (e, z') \<and>
           x = wg_timers_handshake_initiated env p z'"
      using x(1) by (auto simp: wg_packet_send_handshake_initiation_def Let_def split: if_splits bind_splits option.splits prod.splits)
    have ry: "retry_state p y = (a, False, t)"
      using retry_state_initiation [OF y(1)] u by (simp add: now_sent_handshake_def retry_state_peer)
    show ?thesis
    proof (cases r)
      case None
      then show ?thesis using y(2) ry by simp
    next
      case (Some packet)
      then obtain bs z e z' where z: "wg_cookie_add_mac_to_packet env (encode_initiation packet) p y = (bs, z)"
        "wg_socket_send_buffer_to_peer env p bs HANDSHAKE_DSCP (now_sent_handshake env p
           (wg_timers_any_authenticated_packet_sent p (wg_timers_any_authenticated_packet_traversal env p z))) = (e, z')"
        "x = wg_timers_handshake_initiated env p z'" using y(2) by auto
      have "retry_state p z = (a, False, t)"
        using z(1) ry by (auto simp: wg_cookie_add_mac_to_packet_def Let_def retry_state_peer split: if_splits)
      then have "retry_state p z' = (a, False, t)" using retry_state_send [OF z(2)] by (simp add: quiet_events)
      then show ?thesis using z(3) by (simp add: retry_state_def wg_timers_handshake_initiated_def mod_peer_timer_def)
    qed
  qed (use u in auto)
  then show ?thesis using x(2) by simp
qed

lemma retry_state_queued:
  assumes "retry_state p v = (a, b, t)"
  shows "\<exists>b'. retry_state p (wg_packet_send_queued_handshake_initiation env p True v) = (a, b', t)"
  using assms by (auto simp: wg_packet_send_queued_handshake_initiation_def Let_def) (auto simp: retry_state_def get_peer_ref_def)

lemma retry_state_expire:
  assumes "retry_state p v = (a, b, t)"
  shows "\<exists>b'. retry_state p (wg_expired_retransmit_handshake env p v) =
    (if a > of_nat MAX_TIMER_HANDSHAKES then (a, b, None) else (a + 1, b', None))"
proof (cases "a > of_nat MAX_TIMER_HANDSHAKES")
  case True
  then show ?thesis
    using assms by (simp add: wg_expired_retransmit_handshake_def retry_state_def del_timer_def mod_peer_timer_def
        wg_packet_purge_staged_packets_def Let_def)
next
  case False
  define u where "u = wg_socket_clear_peer_endpoint_src p (upd_peer p (\<lambda>q. q\<lparr>pe_timer_handshake_attempts :=
      pe_timer_handshake_attempts q + 1\<rparr>) (del_timer pe_timer_retransmit_handshake_update p v))"
  have "retry_state p u = (a + 1, b, None)"
    using assms by (simp add: u_def retry_state_def del_timer_def wg_socket_clear_peer_endpoint_src_def)
  then obtain b' where "retry_state p (wg_packet_send_queued_handshake_initiation env p True u) = (a + 1, b', None)"
    using retry_state_queued by blast
  then show ?thesis
    using False assms by (intro exI [of _ b'])
      (simp add: wg_expired_retransmit_handshake_def Let_def u_def del_timer_def retry_state_def)
qed


lemma run_retries:
  assumes "retry_run p wg n w" "retry_state p wg = (0, False, Some e)"
  shows "\<exists>b t. retry_state p w = (of_nat (min n (MAX_TIMER_HANDSHAKES + 1)), b, t) \<and> \<not> (b \<and> t \<noteq> None) \<and>
    n \<le> MAX_TIMER_HANDSHAKES + 2 \<and> (n = MAX_TIMER_HANDSHAKES + 2 \<longrightarrow> \<not> b \<and> t = None)"
  using assms(1)
proof (induction rule: retry_run.induct)
  case start
  then show ?case using assms(2) by auto
next
  case (expire n v env)
  obtain b t where v: "retry_state p v = (of_nat (min n (MAX_TIMER_HANDSHAKES + 1)), b, t)" "\<not> (b \<and> t \<noteq> None)"
    "n \<le> MAX_TIMER_HANDSHAKES + 2" "n = MAX_TIMER_HANDSHAKES + 2 \<longrightarrow> \<not> b \<and> t = None" using expire.IH by blast
  have "t \<noteq> None" using expire.hyps(2) v(1) by (simp add: retry_state_def)
  then have n: "\<not> b" "n \<le> MAX_TIMER_HANDSHAKES + 1" using v by auto
  define a :: u32 where "a = of_nat n"
  have c: "min n (MAX_TIMER_HANDSHAKES + 1) = n" "a > of_nat MAX_TIMER_HANDSHAKES \<longleftrightarrow> n = MAX_TIMER_HANDSHAKES + 1"
    using n(2) by (auto simp: a_def word_less_nat_alt unat_of_nat MAX_TIMER_HANDSHAKES_def)
  obtain b' where "retry_state p (wg_expired_retransmit_handshake env p v) =
      (if n = MAX_TIMER_HANDSHAKES + 1 then (a, False, None) else (a + 1, b', None))"
    using retry_state_expire [of p v a False t env, unfolded c(2)] v(1) [unfolded c(1)] n(1) by (auto simp: a_def)
  then show ?case using n(2) by (auto simp: a_def min_def)
next
  case (send n v env w)
  then show ?case using retry_state_worker [OF send(3)] by (fastforce simp: retry_state_def)
next
  case (other n v w)
  then show ?case by simp
qed


section \<open>Properties\<close>



end
