(* ===== verification/WG_Receive.thy ===== *)
theory WG_Receive
  imports WG_TimerHandlers
begin

unbundle bit_operations_syntax

text \<open>
  The receiving side, \<^verbatim>\<open>receive.c\<close>: validation of the headers, handshake messages and the load
  calculation, decryption on all CPUs, and the ordered processing of the decrypted packets
  with the replay check and the check of the inner source address.

  Where a function waits for a lock that it had dropped, an argument \<open>between\<close> says what other
  CPUs did meanwhile, as in the handshake itself. A worker takes an environment for every
  round of its loop. \<open>None\<close> means that the random numbers or the environments given do not
  suffice.
\<close>

section \<open>Headers\<close>

definition update_rx_stats :: "peer_id \<Rightarrow> nat \<Rightarrow> wg_device \<Rightarrow> wg_device" where
  "update_rx_stats p len wg =
     upd_peer p (\<lambda>q. q\<lparr>pe_rx_bytes := pe_rx_bytes q + of_nat len\<rparr>)
       (wg\<lparr>dv_rx_packets := dv_rx_packets wg + 1, dv_rx_bytes := dv_rx_bytes wg + len\<rparr>)"

definition SKB_TYPE_LE32 :: "packet \<Rightarrow> u32" where
  "SKB_TYPE_LE32 skb = load_le (take 4 (pk_bytes skb))"

definition validate_header_len :: "packet \<Rightarrow> nat" where
  "validate_header_len skb =
     (if pk_len skb < sizeof_header then 0
      else if SKB_TYPE_LE32 skb = MESSAGE_DATA \<and> pk_len skb \<ge> MESSAGE_MINIMUM_LENGTH then sizeof_data
      else if SKB_TYPE_LE32 skb = MESSAGE_HANDSHAKE_INITIATION \<and> pk_len skb = sizeof_initiation then sizeof_initiation
      else if SKB_TYPE_LE32 skb = MESSAGE_HANDSHAKE_RESPONSE \<and> pk_len skb = sizeof_response then sizeof_response
      else if SKB_TYPE_LE32 skb = MESSAGE_HANDSHAKE_COOKIE \<and> pk_len skb = sizeof_cookie then sizeof_cookie
      else 0)"

definition sizeof_udphdr :: nat where [simp]: "sizeof_udphdr = 8"

text \<open>A two-byte number in network order.\<close>

definition be16 :: "nat \<Rightarrow> bytes \<Rightarrow> nat" where
  "be16 off bs = 256 * unat (bs ! off) + unat (bs ! (off + 1))"

definition pskb_may_pull :: "env \<Rightarrow> nat \<Rightarrow> packet \<Rightarrow> bool" where
  "pskb_may_pull env n skb \<longleftrightarrow> n \<le> pk_len skb \<and> e_pull_ok env"

text \<open>
  The UDP header is at the transport header, the payload after it. \<open>None\<close> is \<^verbatim>\<open>-EINVAL\<close>. An offset
  before \<^verbatim>\<open>skb->data\<close> is a huge \<^verbatim>\<open>size_t\<close> in the code and fails the same test.
\<close>

definition prepare_skb_header :: "env \<Rightarrow> packet \<Rightarrow> packet option" where
  "prepare_skb_header env skb =
     (if \<not> wg_check_packet_protocol env skb \<or> pk_transport_header skb + sizeof_udphdr > length (pk_buf skb) then None
      else
        let data_offset = pk_transport_header skb - pk_data skb in
        if pk_transport_header skb < pk_data skb \<or> data_offset > 65535 \<or> data_offset + sizeof_udphdr > pk_len skb then None
        else
          let data_len = be16 (pk_transport_header skb + 4) (pk_buf skb) in
          if data_len < sizeof_udphdr \<or> data_len > pk_len skb - data_offset then None
          else
            let data_len = data_len - sizeof_udphdr;
                data_offset = data_offset + sizeof_udphdr in
            if \<not> pskb_may_pull env (data_offset + sizeof_header) skb \<or> \<not> e_trim_ok env then None
            else
              let skb = skb_pull data_offset (pskb_trim (data_len + data_offset) skb) in
              if pk_len skb \<noteq> data_len then None
              else
                let header_len = validate_header_len skb in
                if header_len = 0 then None
                else
                  let skb = skb_push data_offset skb in
                  if \<not> pskb_may_pull env (data_offset + header_len) skb then None
                  else Some (skb_pull data_offset skb))"

section \<open>Handshake messages\<close>

text \<open>The load calculation; the static variable \<^verbatim>\<open>last_under_load\<close> is shared by all interfaces.\<close>

definition check_load :: "env \<Rightarrow> wg_device \<Rightarrow> bool \<times> wg_device" where
  "check_load env wg =
     (if dv_handshake_queue_len wg \<ge> int MAX_QUEUED_INCOMING_HANDSHAKES div 8
      then (True, wg\<lparr>dv_last_under_load := e_boottime env\<rparr>)
      else if dv_last_under_load wg \<noteq> 0 then
        let under_load = \<not> wg_birthdate_has_expired env (dv_last_under_load wg) 1
        in (under_load, if under_load then wg else wg\<lparr>dv_last_under_load := 0\<rparr>)
      else (False, wg))"

text \<open>The end of the function: statistics and timers for the peer that sent the message.\<close>

definition handshake_accepted :: "env \<Rightarrow> peer_id \<Rightarrow> packet \<Rightarrow> wg_device \<Rightarrow> wg_device" where
  "handshake_accepted env p skb wg =
     (let wg = update_rx_stats p (pk_len skb) wg;
          wg = wg_timers_any_authenticated_packet_received p wg;
          wg = wg_timers_any_authenticated_packet_traversal env p wg
      in wg_peer_put (Some p) wg)"

definition receive_initiation ::
    "env \<Rightarrow> (wg_device \<Rightarrow> wg_device) \<Rightarrow> bool \<Rightarrow> packet \<Rightarrow> wg_device \<Rightarrow> wg_device option" where
  "receive_initiation env between packet_needs_cookie skb wg =
     (let message = decode_initiation (pk_bytes skb) in
      if packet_needs_cookie then Some (wg_packet_send_handshake_cookie env skb (mi_sender_index message) wg)
      else
        let (found, wg) = wg_noise_handshake_consume_initiation env between message wg in
        case found of
          None \<Rightarrow> Some wg
        | Some p \<Rightarrow>
            do {
              wg \<leftarrow> wg_packet_send_handshake_response env p (wg_socket_set_peer_endpoint_from_skb env p skb wg);
              Some (handshake_accepted env p skb wg)
            })"

definition receive_response ::
    "env \<Rightarrow> (wg_device \<Rightarrow> wg_device) \<Rightarrow> bool \<Rightarrow> packet \<Rightarrow> wg_device \<Rightarrow> wg_device" where
  "receive_response env between packet_needs_cookie skb wg =
     (let message = decode_response (pk_bytes skb) in
      if packet_needs_cookie then wg_packet_send_handshake_cookie env skb (mr_sender_index message) wg
      else
        let (found, wg) = wg_noise_handshake_consume_response env between message wg in
        case found of
          None \<Rightarrow> wg
        | Some p \<Rightarrow>
            let wg = wg_socket_set_peer_endpoint_from_skb env p skb wg;
                (began, wg) = wg_noise_handshake_begin_session env p wg;
                wg = (if began then
                        wg_packet_send_keepalive env p (wg_timers_handshake_complete env p (wg_timers_session_derived env p wg))
                      else wg)
            in handshake_accepted env p skb wg)"

definition wg_receive_handshake_packet ::
    "env \<Rightarrow> (wg_device \<Rightarrow> wg_device) \<Rightarrow> packet \<Rightarrow> wg_device \<Rightarrow> wg_device option" where
  "wg_receive_handshake_packet env between skb wg =
     (if SKB_TYPE_LE32 skb = MESSAGE_HANDSHAKE_COOKIE then
        Some (wg_cookie_message_consume env (decode_cookie (pk_bytes skb)) wg)
      else
        let (under_load, wg) = check_load env wg;
            (mac_state, wg) = wg_cookie_validate_packet env skb under_load wg in
        if (under_load \<and> mac_state = VALID_MAC_WITH_COOKIE) \<or> (\<not> under_load \<and> mac_state = VALID_MAC_BUT_NO_COOKIE) \<or>
           (under_load \<and> mac_state = VALID_MAC_BUT_NO_COOKIE)
        then
          let packet_needs_cookie = (under_load \<and> mac_state = VALID_MAC_BUT_NO_COOKIE) in
          if SKB_TYPE_LE32 skb = MESSAGE_HANDSHAKE_INITIATION then receive_initiation env between packet_needs_cookie skb wg
          else if SKB_TYPE_LE32 skb = MESSAGE_HANDSHAKE_RESPONSE then
            Some (receive_response env between packet_needs_cookie skb wg)
          else Some wg
        else Some wg)"

fun handshake_rounds :: "(env \<times> (wg_device \<Rightarrow> wg_device)) list \<Rightarrow> wg_device \<Rightarrow> wg_device option" where
  "handshake_rounds envs wg =
     (let (skb, q) = ptr_ring_consume (dv_handshake_queue wg);
          wg = wg\<lparr>dv_handshake_queue := q\<rparr> in
      case skb of
        None \<Rightarrow> Some wg
      | Some skb \<Rightarrow>
          (case envs of
             [] \<Rightarrow> None
           | (env, between) # envs \<Rightarrow>
               (case wg_receive_handshake_packet env between skb wg of
                  None \<Rightarrow> None
                | Some wg \<Rightarrow> handshake_rounds envs (wg\<lparr>dv_handshake_queue_len := dv_handshake_queue_len wg - 1\<rparr>))))"

definition wg_packet_handshake_receive_worker ::
    "(env \<times> (wg_device \<Rightarrow> wg_device)) list \<Rightarrow> nat \<Rightarrow> wg_device \<Rightarrow> wg_device option" where
  "wg_packet_handshake_receive_worker envs cpu wg =
     handshake_rounds envs (wg\<lparr>dv_handshake_queue := start_work cpu (dv_handshake_queue wg)\<rparr>)"

section \<open>Decryption\<close>

definition keep_key_fresh_rx :: "env \<Rightarrow> peer_id \<Rightarrow> wg_device \<Rightarrow> wg_device" where
  "keep_key_fresh_rx env p wg =
     (if pe_sent_lastminute_handshake (dv_peers wg p) then wg
      else
        let send = (case current_keypair (slots_of wg p) of
               None \<Rightarrow> False
             | Some k \<Rightarrow>
                 let kp = keypair_at wg k
                 in sk_is_valid (kp_sending kp) \<and> kp_i_am_the_initiator kp \<and>
                    wg_birthdate_has_expired env (sk_birthdate (kp_sending kp))
                      (of_nat (REJECT_AFTER_TIME - KEEPALIVE_TIMEOUT - REKEY_TIMEOUT)))
        in if send then
             wg_packet_send_queued_handshake_initiation env p False
               (upd_peer p (\<lambda>q. q\<lparr>pe_sent_lastminute_handshake := True\<rparr>) wg)
           else wg)"

definition unseal :: "env \<Rightarrow> wg_device \<Rightarrow> noise_keypair \<Rightarrow> u64 \<Rightarrow> bytes \<Rightarrow> bytes option" where
  "unseal env wg kp nonce cipher =
     (if dv_is_chacha wg then chacha20poly1305_decrypt env (sk_key (kp_receiving kp)) nonce [] cipher
      else aes_gcm_decrypt env (the (dv_aeads wg (the (kp_aead_dec kp)))) (aes_iv nonce) [] cipher)"

text \<open>
  The plaintext takes the place of the ciphertext; the outer headers stay in front of it.
  \<open>e_cow_ok\<close> says that the buffer could be made writable and mapped into a scatter list.
\<close>

definition decrypt_packet :: "env \<Rightarrow> packet \<Rightarrow> addr option \<Rightarrow> wg_device \<Rightarrow> packet option \<times> wg_device" where
  "decrypt_packet env skb keypair wg =
     (case keypair of
        None \<Rightarrow> (None, wg)
      | Some k \<Rightarrow>
          let kp = keypair_at wg k in
          if \<not> sk_is_valid (kp_receiving kp) \<or>
             wg_birthdate_has_expired env (sk_birthdate (kp_receiving kp)) (of_nat REJECT_AFTER_TIME) \<or>
             counter (kp_receiving_counter kp) \<ge> REJECT_AFTER_MESSAGES
          then (None, upd_keypair k (\<lambda>kp. kp\<lparr>kp_receiving := (kp_receiving kp)\<lparr>sk_is_valid := False\<rparr>\<rparr>) wg)
          else
            let skb = skb\<lparr>cb_nonce := md_counter (decode_data (pk_bytes skb))\<rparr>;
                skb = skb_pull sizeof_data skb in
            if \<not> e_cow_ok env (pk_addr skb) then (None, wg)
            else
              (case unseal env wg kp (cb_nonce skb) (pk_bytes skb) of
                 None \<Rightarrow> (None, wg)
               | Some plain \<Rightarrow> if \<not> e_trim_ok env then (None, wg) else (Some (skb_set_bytes plain skb), wg)))"

definition decrypt_round :: "env \<Rightarrow> addr \<Rightarrow> wg_device \<Rightarrow> wg_device" where
  "decrypt_round env a wg =
     (let (r, wg) = decrypt_packet env (hd (batch wg a)) (packet_keypair wg a) wg in
      case r of
        None \<Rightarrow> wg_queue_enqueue_per_peer_rx a PACKET_STATE_DEAD wg
      | Some skb \<Rightarrow> wg_queue_enqueue_per_peer_rx a PACKET_STATE_CRYPTED (put_batch a [skb] wg))"

fun decrypt_rounds :: "env list \<Rightarrow> wg_device \<Rightarrow> wg_device option" where
  "decrypt_rounds envs wg =
     (let (first, q) = ptr_ring_consume (dv_decrypt_queue wg);
          wg = wg\<lparr>dv_decrypt_queue := q\<rparr> in
      case first of
        None \<Rightarrow> Some wg
      | Some a \<Rightarrow> (case envs of [] \<Rightarrow> None | env # envs \<Rightarrow> decrypt_rounds envs (decrypt_round env a wg)))"

definition wg_packet_decrypt_worker :: "env list \<Rightarrow> nat \<Rightarrow> wg_device \<Rightarrow> wg_device option" where
  "wg_packet_decrypt_worker envs cpu wg =
     decrypt_rounds envs (wg\<lparr>dv_decrypt_queue := start_work cpu (dv_decrypt_queue wg)\<rparr>)"

section \<open>Decrypted packets\<close>

definition dishonest_packet_peer :: "wg_device \<Rightarrow> wg_device" where
  "dishonest_packet_peer wg = wg\<lparr>dv_rx_errors := dv_rx_errors wg + 1, dv_rx_frame_errors := dv_rx_frame_errors wg + 1\<rparr>"

definition dishonest_packet_type :: "wg_device \<Rightarrow> wg_device" where
  "dishonest_packet_type wg = wg\<lparr>dv_rx_errors := dv_rx_errors wg + 1, dv_rx_frame_errors := dv_rx_frame_errors wg + 1\<rparr>"

definition dishonest_packet_size :: "wg_device \<Rightarrow> wg_device" where
  "dishonest_packet_size wg = wg\<lparr>dv_rx_errors := dv_rx_errors wg + 1, dv_rx_length_errors := dv_rx_length_errors wg + 1\<rparr>"

definition ip_version :: "bytes \<Rightarrow> u8" where
  "ip_version hdr = drop_bit 4 (hdr ! 0)"

text \<open>
  The inner header: its protocol and the length it claims, or the label the code jumps to.
  The network header is where the data starts, so the code's test that it is not before the
  buffer cannot fail.
\<close>

definition inner_header :: "env \<Rightarrow> packet \<Rightarrow> (wg_device \<Rightarrow> wg_device) + u16 \<times> nat" where
  "inner_header env skb =
     (if \<not> (pskb_may_pull env 20 skb \<and>
            (ip_version (network_bytes skb) = 4 \<or> (ip_version (network_bytes skb) = 6 \<and> pskb_may_pull env 40 skb)))
      then Inl dishonest_packet_type
      else
        let proto = e_parse_protocol env (network_bytes skb) in
        if proto = htons ETH_P_IP then
          let len = be16 2 (network_bytes skb)
          in if len < 20 then Inl dishonest_packet_size else Inr (proto, len)
        else if proto = htons ETH_P_IPV6 then Inr (proto, be16 4 (network_bytes skb) + 40)
        else Inl dishonest_packet_type)"

definition deliver :: "env \<Rightarrow> peer_id \<Rightarrow> packet \<Rightarrow> wg_device \<Rightarrow> wg_device option" where
  "deliver env p skb wg =
     (case inner_header env skb of
        Inl err \<Rightarrow> Some (err wg)
      | Inr (proto, len) \<Rightarrow>
          let skb = skb\<lparr>pk_csum_unnecessary := True, pk_protocol := proto\<rparr>;
              skb = skb_set_bytes (e_ecn_decap env (cb_ds skb) (pk_bytes skb)) skb in
          if len > pk_len skb then Some (dishonest_packet_size wg)
          else
            let len_before_trim = pk_len skb in
            if \<not> e_trim_ok env then Some wg
            else
              let skb = pskb_trim len skb in
              case wg_allowedips_lookup_src [(dv_peer_allowedips wg, dv_refs wg)] (dv_refs wg) (pk_view skb) of
                None \<Rightarrow> None
              | Some (routed_peer, refs) \<Rightarrow>
                  let wg = wg_peer_put routed_peer (wg\<lparr>dv_refs := refs\<rparr>) in
                  if routed_peer \<noteq> Some p then Some (dishonest_packet_peer wg)
                  else Some (update_rx_stats p (message_data_len len_before_trim)
                    (wg\<lparr>dv_delivered := dv_delivered wg @ [(p, skb)]\<rparr>)))"

definition wg_packet_consume_data_done ::
    "env \<Rightarrow> (wg_device \<Rightarrow> wg_device) \<Rightarrow> peer_id \<Rightarrow> packet \<Rightarrow> endpoint \<Rightarrow> wg_device \<Rightarrow> wg_device option" where
  "wg_packet_consume_data_done env between p skb ep wg =
     (let wg = wg_socket_set_peer_endpoint p ep wg;
          (confirmed, wg) = wg_noise_received_with_keypair between p (the (cb_keypair skb)) wg;
          wg = (if confirmed then wg_packet_send_staged_packets env p (wg_timers_handshake_complete env p wg) else wg);
          wg = keep_key_fresh_rx env p wg;
          wg = wg_timers_any_authenticated_packet_received p wg;
          wg = wg_timers_any_authenticated_packet_traversal env p wg in
      if pk_len skb = 0 then Some (update_rx_stats p (message_data_len 0) wg)
      else deliver env p skb (wg_timers_data_received env p wg))"

text \<open>One packet of the queue, up to the label \<^verbatim>\<open>next\<close>, and what follows it.\<close>

definition rx_packet :: "env \<Rightarrow> (wg_device \<Rightarrow> wg_device) \<Rightarrow> peer_id \<Rightarrow> packet \<Rightarrow> wg_device \<Rightarrow> wg_device option" where
  "rx_packet env between p skb wg =
     (if cb_state skb \<noteq> PACKET_STATE_CRYPTED then Some wg
      else
        let k = the (cb_keypair skb);
            (fresh, c) = counter_validate (kp_receiving_counter (keypair_at wg k)) (cb_nonce skb);
            wg = upd_keypair k (\<lambda>kp. kp\<lparr>kp_receiving_counter := c\<rparr>) wg in
        if \<not> fresh then Some wg
        else
          case wg_socket_endpoint_from_skb env skb of
            None \<Rightarrow> Some wg
          | Some ep \<Rightarrow> wg_packet_consume_data_done env between p (wg_reset_packet skb False) ep wg)"

definition rx_round :: "env \<Rightarrow> (wg_device \<Rightarrow> wg_device) \<Rightarrow> peer_id \<Rightarrow> addr \<Rightarrow> wg_device \<Rightarrow> wg_device option" where
  "rx_round env between p a wg =
     (let skb = hd (batch wg a);
          wg = upd_peer p (\<lambda>q. q\<lparr>pe_rx_queue := wg_prev_queue_drop_peeked (pe_rx_queue q)\<rparr>) wg;
          wg = free_batch a wg
      in do {
        wg \<leftarrow> rx_packet env between p skb wg;
        let wg = wg_noise_keypair_put (cb_keypair skb) False wg;
        Some (wg_peer_put (Some p) wg)
      })"

fun rx_rounds ::
    "(env \<times> (wg_device \<Rightarrow> wg_device)) list \<Rightarrow> peer_id \<Rightarrow> nat \<Rightarrow> nat \<Rightarrow> wg_device \<Rightarrow> (nat \<times> wg_device) option" where
  "rx_rounds envs p budget work_done wg =
     (let (first, q) = wg_prev_queue_peek (pe_rx_queue (dv_peers wg p));
          wg = upd_peer p (\<lambda>x. x\<lparr>pe_rx_queue := q\<rparr>) wg in
      case first of
        None \<Rightarrow> Some (work_done, wg)
      | Some a \<Rightarrow>
          if packet_state_of wg a = PACKET_STATE_UNCRYPTED then Some (work_done, wg)
          else
            (case envs of
               [] \<Rightarrow> None
             | (env, between) # envs \<Rightarrow>
                 (case rx_round env between p a wg of
                    None \<Rightarrow> None
                  | Some wg \<Rightarrow>
                      if work_done + 1 \<ge> budget then Some (work_done + 1, wg)
                      else rx_rounds envs p budget (work_done + 1) wg)))"

definition wg_packet_rx_poll ::
    "(env \<times> (wg_device \<Rightarrow> wg_device)) list \<Rightarrow> peer_id \<Rightarrow> int \<Rightarrow> wg_device \<Rightarrow> (nat \<times> wg_device) option" where
  "wg_packet_rx_poll envs p budget wg =
     (if budget \<le> 0 then Some (0, wg)
      else do {
        (work_done, wg) \<leftarrow> rx_rounds envs p (nat budget) 0 wg;
        Some (work_done, if int work_done < budget then upd_peer p (\<lambda>q. q\<lparr>pe_napi_scheduled := False\<rparr>) wg else wg)
      })"

section \<open>Packets from the socket\<close>

definition wg_packet_consume_data :: "env \<Rightarrow> packet \<Rightarrow> wg_device \<Rightarrow> wg_device" where
  "wg_packet_consume_data env skb wg =
     (let idx = md_key_idx (decode_data (pk_bytes skb));
          (found, tbl, refs) = wg_index_hashtable_lookup (dv_index_hashtable wg) (dv_refs wg) INDEX_HASHTABLE_KEYPAIR idx;
          wg = wg\<lparr>dv_index_hashtable := tbl, dv_refs := refs\<rparr> in
      case found of
        Some (KeypairEntry k, p) \<Rightarrow>
          let (got, wg) = wg_noise_keypair_get (Some k) wg in
          if got = None then wg_peer_put (Some p) wg
          else if pe_is_dead (dv_peers wg p) then wg_peer_put (Some p) (wg_noise_keypair_put (Some k) False wg)
          else
            let a = pk_addr skb;
                wg = put_batch a [skb\<lparr>cb_keypair := Some k\<rparr>] wg;
                (ret, wg) = wg_queue_enqueue_per_device_and_peer env Rx p a wg;
                wg = (if ret = Some EPIPE then wg_queue_enqueue_per_peer_rx a PACKET_STATE_DEAD wg else wg) in
            if ret = None \<or> ret = Some EPIPE then wg
            else free_batch a (wg_peer_put (Some p) (wg_noise_keypair_put (Some k) False wg))
      | _ \<Rightarrow> wg)"

definition queue_handshake :: "env \<Rightarrow> packet \<Rightarrow> wg_device \<Rightarrow> wg_device" where
  "queue_handshake env skb wg =
     (if \<not> e_rng_ready env then wg
      else
        let (ret, q) = (if dv_handshake_queue_len wg > int MAX_QUEUED_INCOMING_HANDSHAKES div 2
                        then if e_trylock env then ptr_ring_produce (dv_handshake_queue wg) skb
                             else (Some EBUSY, dv_handshake_queue wg)
                        else ptr_ring_produce (dv_handshake_queue wg) skb) in
        if ret \<noteq> None then wg
        else
          let cpu = wg_cpumask_next_online (e_online env) (cq_last_cpu q)
          in wg\<lparr>dv_handshake_queue_len := dv_handshake_queue_len wg + 1,
                dv_handshake_queue := queue_work_on cpu (q\<lparr>cq_last_cpu := int cpu\<rparr>)\<rparr>)"

definition wg_packet_receive :: "env \<Rightarrow> packet \<Rightarrow> wg_device \<Rightarrow> wg_device" where
  "wg_packet_receive env skb wg =
     (case prepare_skb_header env skb of
        None \<Rightarrow> wg
      | Some skb \<Rightarrow>
          if SKB_TYPE_LE32 skb \<in> {MESSAGE_HANDSHAKE_INITIATION, MESSAGE_HANDSHAKE_RESPONSE, MESSAGE_HANDSHAKE_COOKIE}
          then queue_handshake env skb wg
          else if SKB_TYPE_LE32 skb = MESSAGE_DATA then
            wg_packet_consume_data env (skb\<lparr>cb_ds := e_dsfield env (pk_protocol skb) (network_bytes skb)\<rparr>) wg
          else wg)"

text \<open>The callback of the UDP sockets; the flags tell whether there is a socket and a device behind it.\<close>

definition wg_receive :: "env \<Rightarrow> bool \<Rightarrow> bool \<Rightarrow> packet \<Rightarrow> wg_device \<Rightarrow> wg_device" where
  "wg_receive env sk user_data skb wg = (if \<not> sk \<or> \<not> user_data then wg else wg_packet_receive env skb wg)"

section \<open>Specifications\<close>

text \<open>The messages of the protocol, by type and length.\<close>

definition message_ok :: "bytes \<Rightarrow> bool" where
  "message_ok m \<longleftrightarrow>
     take 4 m = [1, 0, 0, 0] \<and> length m = 148 \<or> take 4 m = [2, 0, 0, 0] \<and> length m = 92 \<or>
     take 4 m = [3, 0, 0, 0] \<and> length m = 64 \<or> take 4 m = [4, 0, 0, 0] \<and> length m \<ge> 32"

text \<open>
  A packet that can be taken apart: the IP version fits the protocol, the UDP header lies in the
  buffer behind the data pointer and not too far, its length field stays in the buffer, and
  the payload is a message.
\<close>

definition udp_payload :: "packet \<Rightarrow> bytes" where
  "udp_payload skb =
     (let t = pk_transport_header skb in take (be16 (t + 4) (pk_buf skb) - 8) (drop (t + 8) (pk_buf skb)))"

definition well_formed :: "env \<Rightarrow> packet \<Rightarrow> bool" where
  "well_formed env skb \<longleftrightarrow>
     (let t = pk_transport_header skb; n = be16 (t + 4) (pk_buf skb)
      in wg_check_packet_protocol env skb \<and> pk_data skb \<le> t \<and> t \<le> pk_data skb + 65535 \<and>
         t + 8 \<le> length (pk_buf skb) \<and> 8 \<le> n \<and> t + n \<le> length (pk_buf skb) \<and> message_ok (udp_payload skb))"

text \<open>What decides on the delivery of packets: what was delivered, the table, and the replay counters.\<close>

definition rx_view :: "wg_device \<Rightarrow> (peer_id \<times> packet) list \<times> allowedips \<times> (addr \<Rightarrow> noise_replay_counter)" where
  "rx_view wg = (dv_delivered wg, dv_peer_allowedips wg, (\<lambda>k. kp_receiving_counter (keypair_at wg k)))"

text \<open>The peer that the table gives for the source address of a packet.\<close>

definition source_peer :: "wg_device \<Rightarrow> refcounts \<Rightarrow> packet \<Rightarrow> peer_id option" where
  "source_peer wg refs skb =
     (case wg_allowedips_lookup_src [(dv_peer_allowedips wg, refs)] refs (pk_view skb) of
        None \<Rightarrow> None
      | Some (p, _) \<Rightarrow> p)"

text \<open>
  Both ends of a session: the receiver decrypts with the key the sender encrypts with, and uses
  the same cipher. The law of AES-GCM is that decryption undoes encryption.
\<close>

definition keys_match :: "wg_device \<Rightarrow> noise_keypair \<Rightarrow> wg_device \<Rightarrow> noise_keypair \<Rightarrow> bool" where
  "keys_match wg kp wg' kp' \<longleftrightarrow>
     dv_is_chacha wg' = dv_is_chacha wg \<and>
     (if dv_is_chacha wg then sk_key (kp_receiving kp') = sk_key (kp_sending kp)
      else dv_aeads wg' (the (kp_aead_dec kp')) = dv_aeads wg (the (kp_aead_enc kp)))"

definition aes_correct :: "env \<Rightarrow> bool" where
  "aes_correct env \<longleftrightarrow>
     (\<forall>k n ad m c. aes_gcm_encrypt env k n ad m = Some c \<longrightarrow> aes_gcm_decrypt env k n ad c = Some m)"

text \<open>A keypair that still accepts packets.\<close>

definition receives :: "env \<Rightarrow> noise_keypair \<Rightarrow> bool" where
  "receives env kp \<longleftrightarrow>
     sk_is_valid (kp_receiving kp) \<and>
     \<not> wg_birthdate_has_expired env (sk_birthdate (kp_receiving kp)) (of_nat REJECT_AFTER_TIME) \<and>
     counter (kp_receiving_counter kp) < REJECT_AFTER_MESSAGES"

text \<open>A keepalive packet that was decrypted, in the queue of the peer.\<close>

definition demo_rx :: wg_device where
  "demo_rx = demo_tx\<lparr>dv_inflight := [500 \<mapsto> [zero_packet\<lparr>pk_addr := 500, cb_state := PACKET_STATE_CRYPTED,
     cb_keypair := Some 100, cb_nonce := 5\<rparr>]]\<rparr>"

section \<open>Headers\<close>

lemma load_le_eq:
  assumes "length bs = 4"
  shows "load_le bs = (w :: u32) \<longleftrightarrow> bs = store_le 4 w"
proof
  assume "load_le bs = w"
  then have w: "w = load_le bs" by simp
  show "bs = store_le 4 w"
  proof (rule nth_equalityI)
    show "length bs = length (store_le 4 w)" using assms by simp
    show "bs ! i = store_le 4 w ! i" if "i < length bs" for i
      by (rule bit_word_eqI) (use that assms in \<open>auto simp: w store_le_def bit_ucast_iff bit_drop_bit_eq bit_load_le\<close>)
  qed
qed simp

lemma header_len_ok:
  "validate_header_len skb \<noteq> 0 \<longleftrightarrow> message_ok (pk_bytes skb)"
  "validate_header_len skb \<le> pk_len skb"
proof -
  have l: "pk_len skb = length (pk_bytes skb)" by (simp add: pk_len_def pk_bytes_def)
  have s: "store_le 4 (1::u32) = [1, 0, 0, 0]" "store_le 4 (2::u32) = [2, 0, 0, 0]"
    "store_le 4 (3::u32) = [3, 0, 0, 0]" "store_le 4 (4::u32) = [4, 0, 0, 0]"
    by (simp_all add: store_le_def upt_rec)
  show "validate_header_len skb \<noteq> 0 \<longleftrightarrow> message_ok (pk_bytes skb)"
  proof (cases "length (pk_bytes skb) \<ge> 4")
    case True
    then have "load_le (take 4 (pk_bytes skb)) = w \<longleftrightarrow> take 4 (pk_bytes skb) = store_le 4 w" for w :: u32
      by (intro load_le_eq) simp
    then show ?thesis
      using True by (auto simp: validate_header_len_def SKB_TYPE_LE32_def l message_ok_def s MESSAGE_DATA_def
        MESSAGE_HANDSHAKE_INITIATION_def MESSAGE_HANDSHAKE_RESPONSE_def MESSAGE_HANDSHAKE_COOKIE_def
        MESSAGE_MINIMUM_LENGTH_def message_data_len_def sizeof_initiation_def sizeof_response_def sizeof_cookie_def sizeof_data_def)
  qed (auto simp: validate_header_len_def l message_ok_def)
  show "validate_header_len skb \<le> pk_len skb"
    by (simp add: validate_header_len_def MESSAGE_MINIMUM_LENGTH_def message_data_len_def)
qed


lemma pk_bytes_trim:
  assumes "pk_data skb + n + m \<le> length (pk_buf skb)"
  shows "pk_bytes (skb_pull n (pskb_trim (m + n) skb)) = take m (drop (pk_data skb + n) (pk_buf skb))"
    "pk_len (skb_pull n (pskb_trim (m + n) skb)) = m"
    "pk_buf (pskb_trim (m + n) skb) = take (pk_data skb + n + m) (pk_buf skb)"
proof -
  have "take (pk_data skb + (n + m)) xs = take (pk_data skb) xs @ take (n + m) (drop (pk_data skb) xs)" for xs :: bytes
    by (rule take_add)
  then have buf: "pk_buf (pskb_trim (m + n) skb) = take (pk_data skb + n + m) (pk_buf skb)"
    by (simp add: pskb_trim_def skb_set_bytes_def pk_bytes_def add.assoc add.commute [of m n])
  then show "pk_buf (pskb_trim (m + n) skb) = take (pk_data skb + n + m) (pk_buf skb)" .
  have "pk_data (pskb_trim (m + n) skb) = pk_data skb" by (simp add: pskb_trim_def skb_set_bytes_def)
  then show "pk_bytes (skb_pull n (pskb_trim (m + n) skb)) = take m (drop (pk_data skb + n) (pk_buf skb))"
    "pk_len (skb_pull n (pskb_trim (m + n) skb)) = m"
    using buf assms by (simp_all add: pk_bytes_def pk_len_def skb_pull_def drop_take)
qed

lemma prepare_rejects:
  fixes skb :: packet
  defines "t \<equiv> pk_transport_header skb" and "n \<equiv> be16 (pk_transport_header skb + 4) (pk_buf skb)"
  assumes "\<not> (wg_check_packet_protocol env skb \<and> pk_data skb \<le> t \<and> t \<le> pk_data skb + 65535 \<and>
      t + 8 \<le> length (pk_buf skb) \<and> 8 \<le> n \<and> t + n \<le> length (pk_buf skb))"
  shows "prepare_skb_header env skb = None"
proof -
  have "\<exists>X. prepare_skb_header env skb =
      (if \<not> wg_check_packet_protocol env skb \<or> t + sizeof_udphdr > length (pk_buf skb) then None
       else if t < pk_data skb \<or> t - pk_data skb > 65535 \<or> t - pk_data skb + sizeof_udphdr > pk_len skb then None
       else if n < sizeof_udphdr \<or> n > pk_len skb - (t - pk_data skb) then None else X)"
    unfolding prepare_skb_header_def Let_def t_def n_def by (rule exI, rule refl)
  then show ?thesis using assms(3) by (elim exE) (auto simp: pk_len_def)
qed

lemma prepare_accepts:
  fixes skb :: packet
  defines "t \<equiv> pk_transport_header skb" and "n \<equiv> be16 (pk_transport_header skb + 4) (pk_buf skb)"
  assumes True: "wg_check_packet_protocol env skb \<and> pk_data skb \<le> t \<and> t \<le> pk_data skb + 65535 \<and>
      t + 8 \<le> length (pk_buf skb) \<and> 8 \<le> n \<and> t + n \<le> length (pk_buf skb)"
  shows "prepare_skb_header env skb =
    (if message_ok (udp_payload skb) \<and> e_pull_ok env \<and> e_trim_ok env
     then Some (skb\<lparr>pk_buf := take (t + n) (pk_buf skb), pk_data := t + 8\<rparr>) else None)"
proof -
  define d where "d = t - pk_data skb + 8"
  define skb1 where "skb1 = skb_pull d (pskb_trim (n - 8 + d) skb)"
  have "pk_data skb + d + (n - 8) \<le> length (pk_buf skb)" using True by (simp add: d_def)
  note trim = pk_bytes_trim [OF this]
  then have b: "pk_bytes skb1 = udp_payload skb" "pk_len skb1 = n - 8"
    using True by (simp_all add: skb1_def udp_payload_def Let_def t_def [symmetric] n_def [symmetric, folded t_def] d_def)
  have h: "validate_header_len skb1 \<noteq> 0 \<longleftrightarrow> message_ok (udp_payload skb)" "validate_header_len skb1 \<le> n - 8"
    using header_len_ok [of skb1] b by simp_all
  have p: "skb_pull d (skb_push d skb1) = skb1" "pk_len (skb_push d skb1) = d + (n - 8)"
    using True by (auto simp: skb_pull_def skb_push_def skb1_def pskb_trim_def skb_set_bytes_def pk_len_def pk_bytes_def d_def min_def)
  have "length (pk_bytes skb1) = n - 8" using b(2) by (simp add: pk_len_def pk_bytes_def)
  then have four: "message_ok (udp_payload skb) \<Longrightarrow> d + 4 \<le> pk_len skb"
    using True by (auto simp: b(1) message_ok_def d_def pk_len_def)
  have c: "\<not> (\<not> wg_check_packet_protocol env skb \<or> t + sizeof_udphdr > length (pk_buf skb))"
    "\<not> (t < pk_data skb \<or> t - pk_data skb > 65535 \<or> t - pk_data skb + sizeof_udphdr > pk_len skb)"
    "\<not> (n < sizeof_udphdr \<or> n > pk_len skb - (t - pk_data skb))"
    using True by (auto simp: pk_len_def)
  have s: "skb1 = skb_pull (t - pk_data skb + sizeof_udphdr) (pskb_trim (n - sizeof_udphdr + (t - pk_data skb + sizeof_udphdr)) skb)"
    "d = t - pk_data skb + sizeof_udphdr" "n - 8 = n - sizeof_udphdr"
    by (simp_all add: skb1_def d_def)
  have "prepare_skb_header env skb =
      (if \<not> pskb_may_pull env (d + sizeof_header) skb \<or> \<not> e_trim_ok env then None
       else if pk_len skb1 \<noteq> n - 8 then None
       else if validate_header_len skb1 = 0 then None
       else if \<not> pskb_may_pull env (d + validate_header_len skb1) (skb_push d skb1) then None
       else Some (skb_pull d (skb_push d skb1)))"
    unfolding prepare_skb_header_def Let_def t_def [symmetric] n_def [symmetric, folded t_def] if_not_P [OF c(1)] if_not_P [OF c(2)]
      if_not_P [OF c(3)] s by (rule refl)
  also have "\<dots> = (if message_ok (udp_payload skb) \<and> e_pull_ok env \<and> e_trim_ok env then Some skb1 else None)"
    using h b(2) p four by (auto simp: pskb_may_pull_def)
  also have "skb1 = skb\<lparr>pk_buf := take (t + n) (pk_buf skb), pk_data := t + 8\<rparr>"
    using trim(3) True by (simp add: skb1_def skb_pull_def d_def pskb_trim_def skb_set_bytes_def)
  finally show ?thesis .
qed

section \<open>Delivery\<close>

lemma rx_view_simps [simp]:
  "rx_view (upd_peer p f wg) = rx_view wg"
  "rx_view (wg\<lparr>dv_refs := r\<rparr>) = rx_view wg"
  "rx_view (wg\<lparr>dv_index_hashtable := t\<rparr>) = rx_view wg"
  "rx_view (put_batch a xs wg) = rx_view wg"
  "rx_view (free_batch a wg) = rx_view wg"
  "rx_view (set_state a s wg) = rx_view wg"
  "rx_view (set_peer_queue d p q wg) = rx_view wg"
  "rx_view (set_device_queue d dq wg) = rx_view wg"
  "rx_view (get_peer_ref p wg) = rx_view wg"
  "rx_view (wg_peer_put x wg) = rx_view wg"
  "rx_view (upd_slots p g wg) = rx_view wg"
  by (simp_all add: rx_view_def keypair_at_def put_batch_def free_batch_def set_state_def set_peer_queue_def
      set_device_queue_def get_peer_ref_def split: direction.split)

lemma rx_view_keypair:
  "(\<And>kp. kp_receiving_counter (f kp) = kp_receiving_counter kp) \<Longrightarrow> rx_view (upd_keypair k f wg) = rx_view wg"
  by (auto simp: rx_view_def keypair_at_def)

lemma rx_view_keypair_put [simp]: "rx_view (wg_noise_keypair_put k now wg) = rx_view wg"
proof -
  have r: "rx_view (index_remove e w) = rx_view w" for e w
    by (simp add: index_remove_def)
  have "rx_view (keypair_free_kref j w) = rx_view w" for j w
    by (simp add: keypair_free_kref_def Let_def) (simp add: rx_view_def keypair_at_def index_remove_def)
  then show ?thesis
    by (simp add: wg_noise_keypair_put_def r rx_view_keypair Let_def split: option.split)
qed

lemma rx_view_keypair_get: "wg_noise_keypair_get k wg = (r, w) \<Longrightarrow> rx_view w = rx_view wg"
  by (auto simp: wg_noise_keypair_get_def rx_view_keypair split: option.splits if_splits)

lemma rx_view_enqueue:
  "rx_view (wg_queue_enqueue_per_peer_tx env a s wg) = rx_view wg"
  "wg_queue_enqueue_per_device_and_peer env d p a wg = (r, w) \<Longrightarrow> rx_view w = rx_view wg"
  by (auto simp: wg_queue_enqueue_per_peer_tx_def wg_queue_enqueue_per_device_and_peer_def Let_def
      split: prod.splits if_splits)

lemma rx_view_queued [simp]:
  "rx_view (wg_packet_send_queued_handshake_initiation env p r wg) = rx_view wg"
  "rx_view (keep_key_fresh_rx env p wg) = rx_view wg"
  by (simp_all add: wg_packet_send_queued_handshake_initiation_def keep_key_fresh_rx_def Let_def split: option.split)

lemma rx_view_out [simp]:
  "rx_view (out_nokey env p k packets wg) = rx_view wg"
  "rx_view (out_invalid env p j packets wg) = rx_view wg"
  by (simp_all add: out_invalid_def out_nokey_def Let_def rx_view_keypair)

lemma rx_view_staged [simp]: "rx_view (wg_packet_send_staged_packets env p wg) = rx_view wg"
proof -
  have "rx_view (wg_packet_create_data env p a w) = rx_view w" for a w
    by (auto simp: wg_packet_create_data_def Let_def rx_view_enqueue(1) dest: rx_view_enqueue(2) split: prod.split)
  moreover have "rx_view (snd (stage_batch env p wg)) = rx_view wg"
    by (auto simp: stage_batch_def Let_def rx_view_keypair dest!: rx_view_keypair_get split: prod.split option.split)
  ultimately show ?thesis
    by (auto simp: wg_packet_send_staged_packets_def split: prod.splits option.split)
qed

lemma rx_view_events [simp]:
  "rx_view (wg_timers_any_authenticated_packet_received p wg) = rx_view wg"
  "rx_view (wg_timers_any_authenticated_packet_traversal env p wg) = rx_view wg"
  "rx_view (wg_timers_data_received env p wg) = rx_view wg"
  "rx_view (wg_timers_handshake_complete env p wg) = rx_view wg"
  "rx_view (wg_socket_set_peer_endpoint p ep wg) = rx_view wg"
  "rx_view (update_rx_stats p n wg) = rx_view wg"
  by (simp_all add: wg_timers_any_authenticated_packet_received_def wg_timers_any_authenticated_packet_traversal_def
      wg_timers_data_received_def wg_timers_handshake_complete_def mod_peer_timer_def del_timer_def
      wg_socket_set_peer_endpoint_def update_rx_stats_def split: sockaddr.split)
    (simp add: rx_view_def keypair_at_def)

lemma rx_view_received:
  assumes "\<And>v. rx_view (between v) = rx_view v" "wg_noise_received_with_keypair between p k wg = (r, w)"
  shows "rx_view w = rx_view wg"
  using assms by (auto simp: wg_noise_received_with_keypair_def Let_def split: if_splits)

lemma deliver_cases:
  assumes "deliver env p skb wg = Some w"
  obtains (dropped) "rx_view w = rx_view wg"
    | (delivered) skb' where "rx_view w = (dv_delivered wg @ [(p, skb')], snd (rx_view wg))" 
      "source_peer wg (dv_refs wg) skb' = Some p"
proof (cases "inner_header env skb")
  case (Inl err)
  have "err \<in> {dishonest_packet_type, dishonest_packet_size}"
    using Inl by (auto simp: inner_header_def Let_def split: if_splits)
  then have "rx_view (err wg) = rx_view wg"
    by (auto simp: dishonest_packet_type_def dishonest_packet_size_def rx_view_def keypair_at_def)
  then show thesis using assms Inl dropped by (simp add: deliver_def)
next
  case (Inr x)
  obtain proto len where x: "x = (proto, len)" by fastforce
  define s1 where "s1 = skb_set_bytes (e_ecn_decap env (cb_ds (skb\<lparr>pk_csum_unnecessary := True, pk_protocol := proto\<rparr>))
      (pk_bytes (skb\<lparr>pk_csum_unnecessary := True, pk_protocol := proto\<rparr>)))
      (skb\<lparr>pk_csum_unnecessary := True, pk_protocol := proto\<rparr>)"
  define s2 where "s2 = pskb_trim len s1"
  note d = assms [unfolded deliver_def Inr x sum.case prod.case Let_def, folded s1_def, folded s2_def]
  show thesis
  proof (cases "len > pk_len s1 \<or> \<not> e_trim_ok env")
    case True
    then have "w = dishonest_packet_size wg \<or> w = wg" using d by (auto split: if_splits)
    then show thesis
      by (intro dropped) (auto simp: dishonest_packet_size_def rx_view_def keypair_at_def)
  next
    case False
    then obtain r refs where l: "wg_allowedips_lookup_src [(dv_peer_allowedips wg, dv_refs wg)] (dv_refs wg) (pk_view s2) = Some (r, refs)"
      using d by (auto split: option.splits)
    define v where "v = wg_peer_put r (wg\<lparr>dv_refs := refs\<rparr>)"
    have v: "rx_view v = rx_view wg" by (simp add: v_def)
    show thesis
    proof (cases "r = Some p")
      case True
      then have "w = update_rx_stats p (message_data_len (pk_len s1)) (v\<lparr>dv_delivered := dv_delivered v @ [(p, s2)]\<rparr>)"
        using d l False by (simp add: v_def)
      then have "rx_view w = (dv_delivered wg @ [(p, s2)], snd (rx_view wg))"
        using v by (simp add: rx_view_def keypair_at_def update_rx_stats_def)
      moreover have "source_peer wg (dv_refs wg) s2 = Some p" using l True by (simp add: source_peer_def)
      ultimately show thesis by (rule delivered)
    next
      case neq: False
      then have "w = dishonest_packet_peer v" using d l False by (simp add: v_def)
      then have "rx_view w = rx_view v" by (simp add: dishonest_packet_peer_def rx_view_def keypair_at_def)
      then show thesis using v dropped by simp
    qed
  qed
qed

lemma consume_done_cases:
  assumes "wg_packet_consume_data_done env between p skb ep wg = Some w" "\<And>v. rx_view (between v) = rx_view v"
  obtains (dropped) "rx_view w = rx_view wg"
    | (delivered) skb' refs where "rx_view w = (dv_delivered wg @ [(p, skb')], snd (rx_view wg))"
      "source_peer wg refs skb' = Some p"
proof -
  obtain c v where r: "wg_noise_received_with_keypair between p (the (cb_keypair skb)) (wg_socket_set_peer_endpoint p ep wg) = (c, v)"
    by fastforce
  define u where "u = wg_timers_any_authenticated_packet_traversal env p (wg_timers_any_authenticated_packet_received p
      (keep_key_fresh_rx env p (if c then wg_packet_send_staged_packets env p (wg_timers_handshake_complete env p v) else v)))"
  have u: "rx_view u = rx_view wg" using rx_view_received [OF assms(2) r] by (simp add: u_def)
  have w: "if pk_len skb = 0 then w = update_rx_stats p (message_data_len 0) u
      else deliver env p skb (wg_timers_data_received env p u) = Some w"
    using assms(1) r by (simp add: wg_packet_consume_data_done_def Let_def u_def split: if_splits)
  show thesis
  proof (cases "pk_len skb = 0")
    case True
    then show thesis using w u dropped by simp
  next
    case False
    define t where "t = wg_timers_data_received env p u"
    have t: "rx_view t = rx_view wg" using u by (simp add: t_def)
    have "deliver env p skb t = Some w" using w False by (simp add: t_def)
    then show thesis
    proof (cases rule: deliver_cases)
      case dropped
      then show thesis using t \<open>rx_view w = rx_view wg \<Longrightarrow> thesis\<close> by simp
    next
      case (delivered skb')
      have "source_peer wg (dv_refs t) skb' = Some p" "dv_delivered t = dv_delivered wg"
        using delivered(2) t by (simp_all add: source_peer_def rx_view_def)
      then show thesis using delivered(1) t that(2) [of skb' "dv_refs t"] by simp
    qed
  qed
qed

lemma rx_packet_cases:
  assumes "rx_packet env between p skb v = Some u" "cb_state skb = PACKET_STATE_CRYPTED"
    "counter_validate (kp_receiving_counter (keypair_at v k)) (cb_nonce skb) = (fresh, c)" "the (cb_keypair skb) = k"
    "\<And>v. rx_view (between v) = rx_view v"
  defines "x \<equiv> upd_keypair k (\<lambda>kp. kp\<lparr>kp_receiving_counter := c\<rparr>) v"
  shows "rx_view u = rx_view x \<or>
    fresh \<and> (\<exists>skb' refs. rx_view u = (dv_delivered x @ [(p, skb')], snd (rx_view x)) \<and> source_peer x refs skb' = Some p)"
proof (cases "fresh \<and> wg_socket_endpoint_from_skb env skb \<noteq> None")
  case True
  then obtain ep where "wg_packet_consume_data_done env between p (wg_reset_packet skb False) ep x = Some u"
    using assms by (auto simp: rx_packet_def Let_def)
  then show ?thesis
    by (rule consume_done_cases [OF _ assms(5)]) (use True in auto)
next
  case False
  then have "u = x" using assms by (auto simp: rx_packet_def Let_def split: if_splits)
  then show ?thesis by simp
qed

section \<open>From end to end\<close>

lemma unseal_seal:
  assumes "seal env wg kp n m = Some c" "keys_match wg kp wg' kp'" "aead_correct env" "aes_correct env"
    "crypto.truncate env' = crypto.truncate env"
  shows "unseal env' wg' kp' n c = Some m"
proof -
  have "chacha20poly1305_decrypt env' = chacha20poly1305_decrypt env" "aes_gcm_decrypt env' = aes_gcm_decrypt env"
    using assms(5) by (simp_all add: crypto.truncate_def)
  then show ?thesis
    using assms(1-4) by (auto simp: seal_def unseal_def keys_match_def aead_correct_def aes_correct_def split: if_splits)
qed

lemma decode_encode_data: "decode_data (encode_data m @ xs) = m"
  by (simp add: decode_data_def encode_data_def field_def)

lemma encrypted_bytes:
  assumes "encrypt_packet env wg kp skb = Some out" "\<not> pk_csum_partial skb" "pk_data skb \<le> length (pk_buf skb)"
  obtains cipher where
    "seal env wg kp (cb_nonce skb) (pk_bytes skb @ replicate (unat (calculate_skb_padding (of_nat (pk_len skb)) (cb_mtu skb))) 0) = Some cipher"
    "pk_bytes out = encode_data \<lparr>md_type = MESSAGE_DATA, md_key_idx = kp_remote_index kp, md_counter = cb_nonce skb\<rparr> @ cipher"
proof -
  define n where "n = DATA_PACKET_HEAD_ROOM (e_NET_SKB_PAD env)"
  define s where "s = skb_cow_head n (skb_get_hash env skb)"
  define pad where "pad = unat (calculate_skb_padding (of_nat (pk_len skb)) (cb_mtu skb))"
  define hdr where "hdr = encode_data \<lparr>md_type = MESSAGE_DATA, md_key_idx = kp_remote_index kp, md_counter = cb_nonce skb\<rparr>"
  have h: "pk_len (skb_get_hash env skb) = pk_len skb" "cb_mtu (skb_get_hash env skb) = cb_mtu skb"
    by (simp_all add: skb_get_hash_def pk_bytes_def pk_len_def)
  have s: "pk_bytes s = pk_bytes skb" "cb_nonce s = cb_nonce skb" "\<not> pk_csum_partial s" "pk_data s \<le> length (pk_buf s)"
    using assms(2,3) by (simp_all add: s_def skb_get_hash_def skb_cow_head_def pk_bytes_def Let_def)
  obtain cipher where c: "seal env wg kp (cb_nonce skb) (pk_bytes skb @ replicate pad 0) = Some cipher"
    "out = skb_set_bytes (hdr @ cipher) (skb_push sizeof_data s)"
    using assms(1) s by (auto simp: encrypt_packet_def Let_def n_def [symmetric] s_def [symmetric] h pad_def hdr_def
        split: if_splits option.splits)
  have "pk_bytes out = hdr @ cipher"
    using s(4) by (simp add: c(2) pk_bytes_def skb_set_bytes_def skb_push_def)
  then show thesis using c(1) that by (simp add: pad_def hdr_def)
qed

section \<open>Properties\<close>

text \<open>
  C35. The receive path accepts a packet exactly when it is well formed and the buffer could be
  pulled and trimmed. The accepted packet is the UDP payload: the data pointer is behind
  the UDP header and the buffer ends where the UDP length says, so that every later read of
  a message member stays inside the buffer.
\<close>

theorem header_validation:
  "prepare_skb_header env skb =
     (if well_formed env skb \<and> e_pull_ok env \<and> e_trim_ok env
      then Some (skb\<lparr>pk_buf := take (pk_transport_header skb + be16 (pk_transport_header skb + 4) (pk_buf skb)) (pk_buf skb),
                     pk_data := pk_transport_header skb + 8\<rparr>)
      else None)"
proof (cases "wg_check_packet_protocol env skb \<and> pk_data skb \<le> pk_transport_header skb \<and>
    pk_transport_header skb \<le> pk_data skb + 65535 \<and> pk_transport_header skb + 8 \<le> length (pk_buf skb) \<and>
    8 \<le> be16 (pk_transport_header skb + 4) (pk_buf skb) \<and>
    pk_transport_header skb + be16 (pk_transport_header skb + 4) (pk_buf skb) \<le> length (pk_buf skb)")
  case True
  then have "well_formed env skb \<longleftrightarrow> message_ok (udp_payload skb)" by (simp add: well_formed_def Let_def)
  then show ?thesis using prepare_accepts [OF True] by simp
next
  case False
  then have "\<not> well_formed env skb" unfolding well_formed_def Let_def by blast
  then show ?thesis using prepare_rejects [OF False] by simp
qed


text \<open>
  C36. A packet reaches the network stack only if it was decrypted, its nonce had not been
  received before and was not too old, and the table of allowed addresses gives its inner
  source address to the peer whose key decrypted it. Every round delivers at most one
  packet, and the replay counter afterwards tracks the nonces received so far.
\<close>

theorem delivered_packets:
  assumes "rx_round env between p a wg = Some w" "packet_keypair wg a = Some k"
    "tracks (kp_receiving_counter (keypair_at wg k)) S" "\<And>v. rx_view (between v) = rx_view v"
  shows "tracks (kp_receiving_counter (keypair_at w k))
      (if packet_state_of wg a = PACKET_STATE_CRYPTED \<and> replay_accepts S (unat (cb_nonce (hd (batch wg a))))
       then insert (unat (cb_nonce (hd (batch wg a)))) S else S) \<and>
    (dv_delivered w = dv_delivered wg \<or>
     packet_state_of wg a = PACKET_STATE_CRYPTED \<and> replay_accepts S (unat (cb_nonce (hd (batch wg a)))) \<and>
     (\<exists>skb' refs. dv_delivered w = dv_delivered wg @ [(p, skb')] \<and> source_peer wg refs skb' = Some p))"
proof -
  define skb where "skb = hd (batch wg a)"
  define v where "v = free_batch a (upd_peer p (\<lambda>q. q\<lparr>pe_rx_queue := wg_prev_queue_drop_peeked (pe_rx_queue q)\<rparr>) wg)"
  obtain u where u: "rx_packet env between p skb v = Some u" "rx_view w = rx_view u"
    using assms(1) by (auto simp: rx_round_def Let_def skb_def v_def split: bind_splits)
  have v: "rx_view v = rx_view wg" by (simp add: v_def)
  have k: "the (cb_keypair skb) = k" using assms(2) by (simp add: packet_keypair_def skb_def)
  obtain fresh c where c: "counter_validate (kp_receiving_counter (keypair_at v k)) (cb_nonce skb) = (fresh, c)"
    by fastforce
  define x where "x = upd_keypair k (\<lambda>kp. kp\<lparr>kp_receiving_counter := c\<rparr>) v"
  have x: "rx_view x = (dv_delivered wg, dv_peer_allowedips wg, (\<lambda>j. kp_receiving_counter (keypair_at wg j))(k := c))"
    using v by (auto simp: x_def rx_view_def keypair_at_def fun_eq_iff)
  have cw: "kp_receiving_counter (keypair_at v k) = kp_receiving_counter (keypair_at wg k)"
    using v by (simp add: rx_view_def fun_eq_iff)
  have f: "fresh = replay_accepts S (unat (cb_nonce skb))" "tracks c (if fresh then insert (unat (cb_nonce skb)) S else S)"
    using counter_validate_tracks [OF assms(3), of "cb_nonce skb"] c unfolding cw by auto
  show ?thesis
  proof (cases "cb_state skb = PACKET_STATE_CRYPTED")
    case False
    then have "rx_view w = rx_view wg" using u v by (simp add: rx_packet_def)
    then show ?thesis
      using False assms(3) by (simp add: rx_view_def fun_eq_iff packet_state_of_def skb_def)
  next
    case True
    note r = rx_packet_cases [OF u(1) True c k assms(4), folded x_def]
    then show ?thesis
      using True f x u(2)
      by (elim disjE exE conjE) (auto simp: rx_view_def fun_eq_iff packet_state_of_def skb_def source_peer_def)
  qed
qed


text \<open>
  C37. What the sender encrypts, the receiver decrypts, with AES-GCM as well as with ChaCha20-Poly1305:
  if both ends have the same session key, a packet with the bytes of the encrypted packet is
  decrypted to the original bytes followed by the zero padding, under the original nonce.
  Trimming it to the original length, as the receiver does with the length in the inner
  header, gives back the original packet. The message names the receiver's keypair.
\<close>

theorem data_roundtrip:
  assumes "encrypt_packet env wg kp skb = Some out" "\<not> pk_csum_partial skb" "pk_data skb \<le> length (pk_buf skb)"
    "keys_match wg kp wg' (keypair_at wg' k)" "receives env' (keypair_at wg' k)"
    "aead_correct env" "aes_correct env" "crypto.truncate env' = crypto.truncate env"
    "pk_bytes inp = pk_bytes out" "e_cow_ok env' (pk_addr inp)" "e_trim_ok env'"
  shows "\<exists>dec. decrypt_packet env' inp (Some k) wg' = (Some dec, wg') \<and>
    pk_bytes dec = pk_bytes skb @ replicate (unat (calculate_skb_padding (of_nat (pk_len skb)) (cb_mtu skb))) 0 \<and>
    cb_nonce dec = cb_nonce skb \<and> pk_bytes (pskb_trim (pk_len skb) dec) = pk_bytes skb \<and>
    SKB_TYPE_LE32 inp = MESSAGE_DATA \<and> md_key_idx (decode_data (pk_bytes inp)) = kp_remote_index kp"
proof -
  define pad where "pad = unat (calculate_skb_padding (of_nat (pk_len skb)) (cb_mtu skb))"
  define m where "m = \<lparr>md_type = MESSAGE_DATA, md_key_idx = kp_remote_index kp, md_counter = cb_nonce skb\<rparr>"
  obtain cipher where c: "seal env wg kp (cb_nonce skb) (pk_bytes skb @ replicate pad 0) = Some cipher"
    "pk_bytes inp = encode_data m @ cipher"
    using encrypted_bytes [OF assms(1-3)] assms(9) unfolding pad_def m_def by metis
  have u: "unseal env' wg' (keypair_at wg' k) (cb_nonce skb) cipher = Some (pk_bytes skb @ replicate pad 0)"
    by (rule unseal_seal [OF c(1) assms(4,6,7,8)])
  have hdr: "decode_data (pk_bytes inp) = m" "length (encode_data m) = 16" "take 4 (encode_data m) = store_le 4 MESSAGE_DATA"
    using c(2) by (simp_all add: decode_encode_data) (simp_all add: encode_data_def m_def)
  define s where "s = skb_pull sizeof_data (inp\<lparr>cb_nonce := cb_nonce skb\<rparr>)"
  have "drop 16 (pk_bytes inp) = cipher" using c(2) hdr(2) by simp
  then have s: "pk_bytes s = cipher" "pk_addr s = pk_addr inp" "cb_nonce s = cb_nonce skb"
    by (simp_all add: s_def skb_pull_def pk_bytes_def sizeof_data_def add.commute)
  have "length (pk_bytes inp) \<ge> 16" using c(2) hdr(2) by simp
  then have room: "pk_data s \<le> length (pk_buf s)" by (simp add: s_def skb_pull_def pk_bytes_def sizeof_data_def)
  define dec where "dec = skb_set_bytes (pk_bytes skb @ replicate pad 0) s"
  have dec: "pk_bytes dec = pk_bytes skb @ replicate pad 0" "cb_nonce dec = cb_nonce skb" "pk_data dec \<le> length (pk_buf dec)"
    using room s(3) by (simp_all add: dec_def pk_bytes_def skb_set_bytes_def)
  have "decrypt_packet env' inp (Some k) wg' = (Some dec, wg')"
    using assms(5,10,11) u s hdr(1)
    by (simp add: decrypt_packet_def receives_def Let_def m_def s_def [symmetric] dec_def not_le [symmetric])
  moreover have "pk_bytes (pskb_trim (pk_len skb) dec) = pk_bytes skb"
    using dec by (simp add: pskb_trim_def skb_set_bytes_def pk_bytes_def pk_len_def)
  moreover have "SKB_TYPE_LE32 inp = MESSAGE_DATA"
    using hdr(2,3) c(2) by (simp add: SKB_TYPE_LE32_def)
  ultimately show ?thesis using dec(1,2) hdr(1) by (intro exI [of _ dec]) (simp add: pad_def m_def)
qed


section \<open>Witnesses\<close>

lemma keepalive_processed:
  assumes "pk_len skb = 0"
  shows "\<exists>w. rx_packet env between p skb v = Some w"
proof -
  have "pk_len (wg_reset_packet skb False) = 0" using assms by (simp add: wg_reset_packet_def pk_len_def)
  then show ?thesis
    by (simp add: rx_packet_def wg_packet_consume_data_done_def Let_def split: prod.split option.split)
qed

lemma keepalive_round:
  assumes "pk_len (hd (batch v a)) = 0"
  shows "\<exists>w. rx_round env between p a v = Some w"
proof -
  obtain u where "rx_packet env between p (hd (batch v a))
      (free_batch a (upd_peer p (\<lambda>q. q\<lparr>pe_rx_queue := wg_prev_queue_drop_peeked (pe_rx_queue q)\<rparr>) v)) = Some u"
    using keepalive_processed [OF assms] by blast
  then show ?thesis by (simp add: rx_round_def Let_def)
qed

theorem delivered_packets_witness:
  "\<exists>w. rx_round demo_env id 1 500 demo_rx = Some w \<and> packet_keypair demo_rx 500 = Some 100 \<and>
     tracks (kp_receiving_counter (keypair_at demo_rx 100)) {} \<and> tracks (kp_receiving_counter (keypair_at w 100)) {5}"
proof -
  have b: "hd (batch demo_rx 500) = zero_packet\<lparr>pk_addr := 500, cb_state := PACKET_STATE_CRYPTED,
     cb_keypair := Some 100, cb_nonce := 5\<rparr>"
    by (simp add: batch_def demo_rx_def)
  have k: "packet_keypair demo_rx 500 = Some 100" by (simp add: packet_keypair_def b)
  have t: "tracks (kp_receiving_counter (keypair_at demo_rx 100)) {}"
    by (simp add: demo_rx_def demo_tx_defs keypair_at_def tracks_init)
  obtain w where w: "rx_round demo_env id 1 500 demo_rx = Some w"
    using keepalive_round [of demo_rx 500 demo_env id 1] by (auto simp: b pk_len_def zero_packet_def)
  have "packet_state_of demo_rx 500 = PACKET_STATE_CRYPTED" "replay_accepts {} (unat (cb_nonce (hd (batch demo_rx 500))))"
    by (simp_all add: packet_state_of_def b replay_accepts_def window_top_def)
  then show ?thesis
    using delivered_packets [OF w k t] w k t by (auto simp: b)
qed

lemma encrypt_succeeds:
  assumes "\<And>a. e_cow_ok env a" "\<And>a. e_head_ok env a" "\<not> pk_csum_partial skb" "\<And>n m. seal env wg kp n m \<noteq> None"
  shows "\<exists>out. encrypt_packet env wg kp skb = Some out"
proof -
  have "\<not> pk_csum_partial (skb_cow_head n (skb_get_hash env skb))" for n
    using assms(3) by (simp add: skb_cow_head_def skb_get_hash_def Let_def)
  then show ?thesis using assms(1,2,4) by (auto simp: encrypt_packet_def Let_def split: option.split)
qed

lemma demo_aes_correct: "aes_correct demo_env"
  by (simp add: aes_correct_def demo_env_def)

theorem data_roundtrip_witness:
  "\<exists>out dec. encrypt_packet demo_env demo_tx demo_keypair (demo_skb 500) = Some out \<and>
     decrypt_packet demo_env out (Some 100) demo_tx = (Some dec, demo_tx) \<and>
     pk_bytes (pskb_trim 1000 dec) = replicate 1000 1"
proof -
  define p where "p = demo_skb 500"
  have p: "\<not> pk_csum_partial p" "pk_data p \<le> length (pk_buf p)" "pk_len p = 1000" "pk_bytes p = replicate 1000 1"
    by (simp_all add: p_def demo_skb_def zero_packet_def pk_len_def pk_bytes_def)
  have e: "e_cow_ok demo_env a" "e_head_ok demo_env a" "e_trim_ok demo_env" for a by (simp_all add: demo_env_def)
  have tx: "\<not> dv_is_chacha demo_tx" "keypair_at demo_tx 100 = demo_keypair"
    by (simp_all add: demo_tx_def demo_with_peer_def demo_device_def Let_def keypair_at_def)
  have "seal demo_env demo_tx demo_keypair n m \<noteq> None" for n m
    by (simp add: seal_def tx) (simp add: demo_tx_defs)
  then obtain out where out: "encrypt_packet demo_env demo_tx demo_keypair p = Some out"
    using encrypt_succeeds [OF e(1,2) p(1)] by blast
  have match: "keys_match demo_tx demo_keypair demo_tx (keypair_at demo_tx 100)"
    by (simp add: keys_match_def tx) (simp add: demo_tx_defs)
  have recv: "receives demo_env (keypair_at demo_tx 100)"
    by (simp add: receives_def tx)
      (simp add: demo_keypair_def zero_keypair_def replay_counter_init_def wg_birthdate_has_expired_def
        REJECT_AFTER_MESSAGES_eq NSEC_PER_SEC_def demo_env_def word_less_nat_alt)
  show ?thesis
    using data_roundtrip [OF out p(1,2) match recv _ demo_aes_correct refl refl e(1,3)] out p(3,4)
    unfolding p_def by auto
qed

end
