(* ===== verification/WG_Xmit.thy ===== *)
theory WG_Xmit
  imports WG_Receive
begin

unbundle bit_operations_syntax

text \<open>
  Packets from the network core, \<^verbatim>\<open>wg_xmit\<close> of \<^verbatim>\<open>device.c\<close>: the peer of the destination address, the
  errors that are reported by ICMP, and the bounded queue of staged packets.
\<close>

section \<open>Transmission\<close>

text \<open>
  What the stack says about a packet: the MTU of its route, if it has one; the segments or the
  error when it is a GSO packet; and which buffers could be made private.
\<close>

record xmit_env =
  x_dst_mtu :: "u32 option"
  x_gso :: "(errno + packet list) option"
  x_share_ok :: "addr \<Rightarrow> bool"

datatype icmp = NoIcmp | IcmpHostUnreach | Icmpv6AddrUnreach

definition icmp_for :: "packet \<Rightarrow> icmp" where
  "icmp_for skb =
     (if pk_protocol skb = htons ETH_P_IP then IcmpHostUnreach
      else if pk_protocol skb = htons ETH_P_IPV6 then Icmpv6AddrUnreach else NoIcmp)"

definition xmit_err :: "errno \<Rightarrow> icmp \<Rightarrow> wg_device \<Rightarrow> errno option \<times> icmp \<times> wg_device" where
  "xmit_err ret icmp wg = (Some ret, icmp, wg\<lparr>dv_tx_errors := dv_tx_errors wg + 1\<rparr>)"

fun drop_oldest :: "packet list \<Rightarrow> nat \<times> packet list" where
  "drop_oldest [] = (0, [])"
| "drop_oldest (skb # queue) =
     (if length (skb # queue) > MAX_STAGED_PACKETS
      then let (n, queue) = drop_oldest queue in (n + 1, queue) else (0, skb # queue))"

definition stage :: "peer_id \<Rightarrow> packet list \<Rightarrow> wg_device \<Rightarrow> wg_device" where
  "stage p packets wg =
     (let (n, queue) = drop_oldest (pe_staged_packet_queue (dv_peers wg p));
          wg = wg\<lparr>dv_tx_dropped := dv_tx_dropped wg + n\<rparr>
      in upd_peer p (\<lambda>q. q\<lparr>pe_staged_packet_queue := queue @ packets\<rparr>) wg)"

definition wg_xmit :: "env \<Rightarrow> xmit_env \<Rightarrow> packet \<Rightarrow> wg_device \<Rightarrow> (errno option \<times> icmp \<times> wg_device) option" where
  "wg_xmit env x skb wg =
     (if \<not> wg_check_packet_protocol env skb then Some (xmit_err EPROTONOSUPPORT NoIcmp wg)
      else
        case wg_allowedips_lookup_dst [(dv_peer_allowedips wg, dv_refs wg)] (dv_refs wg) (pk_view skb) of
          None \<Rightarrow> None
        | Some (None, refs) \<Rightarrow> Some (xmit_err ENOKEY (icmp_for skb) (wg\<lparr>dv_refs := refs\<rparr>))
        | Some (Some p, refs) \<Rightarrow>
            let wg = wg\<lparr>dv_refs := refs\<rparr> in
            if ep_addr (pe_endpoint (dv_peers wg p)) = AddrNone then
              Some (xmit_err EDESTADDRREQ (icmp_for skb) (wg_peer_put (Some p) wg))
            else
              let mtu = (case x_dst_mtu x of Some m \<Rightarrow> m | None \<Rightarrow> dv_mtu wg) in
              case (case x_gso x of None \<Rightarrow> Inr [skb] | Some r \<Rightarrow> r) of
                Inl err \<Rightarrow> Some (xmit_err err (icmp_for skb) (wg_peer_put (Some p) wg))
              | Inr segs \<Rightarrow>
                  let packets = map (\<lambda>s. s\<lparr>cb_mtu := mtu\<rparr>) (filter (\<lambda>s. x_share_ok x (pk_addr s)) segs);
                      wg = stage p packets wg;
                      wg = wg_packet_send_staged_packets env p wg
                  in Some (None, NoIcmp, wg_peer_put (Some p) wg))"

end
