(* ===== verification/WG_AllowedIPs_Rep.thy ===== *)
theory WG_AllowedIPs_Rep
  imports WG_AllowedIPs
begin

unbundle bit_operations_syntax

text \<open>
  The pointer structure of \<^verbatim>\<open>WG_AllowedIPs\<close> represents the trees of \<^verbatim>\<open>WG_Trie\<close>: the
  predicate \<open>rep\<close> says that the nodes reachable from a pointer form a given tree, and
  each operation of the code is shown to do on the represented tree what the tree
  function of the same purpose does.
\<close>

section \<open>Definitions\<close>

text \<open>A node record stores the prefix \<open>q\<close> for addresses of \<open>N\<close> bits.\<close>

definition node_ok :: "nat \<Rightarrow> allowedips_node \<Rightarrow> bool list \<Rightarrow> peer_id option \<Rightarrow> bool" where
  "node_ok N n q pr \<longleftrightarrow>
     peer n = pr \<and> unat (cidr n) = length q \<and> length q \<le> N \<and>
     bit_at_a n = (cidr n div 8) XOR ((of_nat N div 8 - 1) mod 8) \<and>
     bit_at_b n = 7 - cidr n mod 8 \<and>
     bitlen n = of_nat N \<and> length (bits n) = 16 \<and>
     q = take (length q) (key_bits N (bits n))"

fun rep :: "(addr \<rightharpoonup> allowedips_node) \<Rightarrow> nat \<Rightarrow> slot \<times> nat \<Rightarrow> addr option \<Rightarrow> ptrie \<Rightarrow> bool" where
  "rep h N sb ptr PLf \<longleftrightarrow> ptr = None"
| "rep h N sb ptr (PNd a q pr l r) \<longleftrightarrow>
     ptr = Some a \<and>
     (case h a of
        None \<Rightarrow> False
      | Some n \<Rightarrow>
          node_ok N n q pr \<and> parent_bit_packed n = sb \<and>
          rep h N (BitSlot a False, 0) (bit0 n) l \<and> rep h N (BitSlot a True, 1) (bit1 n) r)"

text \<open>A path of nodes from a pointer \<open>ptr\<close> to the slot \<open>hs\<close>, which holds \<open>hp\<close>.\<close>

fun ctx :: "(addr \<rightharpoonup> allowedips_node) \<Rightarrow> nat \<Rightarrow> slot \<times> nat \<Rightarrow> addr option \<Rightarrow> frame list \<Rightarrow>
    slot \<times> nat \<Rightarrow> addr option \<Rightarrow> bool" where
  "ctx h N sb ptr [] hs hp \<longleftrightarrow> sb = hs \<and> ptr = hp"
| "ctx h N sb ptr ((a, q, pr, d, sib) # fs) hs hp \<longleftrightarrow>
     ptr = Some a \<and>
     (case h a of
        None \<Rightarrow> False
      | Some n \<Rightarrow>
          node_ok N n q pr \<and> parent_bit_packed n = sb \<and>
          rep h N (BitSlot a (\<not> d), of_bool (\<not> d)) (node_bit n (\<not> d)) sib \<and>
          ctx h N (BitSlot a d, of_bool d) (node_bit n d) fs hs hp)"

text \<open>The slot at the end of a path, and storing a pointer there.\<close>

definition frame_addr :: "frame \<Rightarrow> addr" where
  "frame_addr f = fst f"

definition frame_dir :: "frame \<Rightarrow> bool" where
  "frame_dir f = fst (snd (snd (snd f)))"

fun slot_upd :: "(addr \<rightharpoonup> allowedips_node) \<Rightarrow> slot \<Rightarrow> addr option \<Rightarrow> (addr \<rightharpoonup> allowedips_node)" where
  "slot_upd h (RootSlot v6) p = h"
| "slot_upd h (BitSlot a d) p = h(a \<mapsto> set_node_bit (the (h a)) d p)"

fun slot_addrs :: "slot \<Rightarrow> addr set" where
  "slot_addrs (RootSlot v6) = {}"
| "slot_addrs (BitSlot a d) = {a}"

text \<open>What \<^verbatim>\<open>node_placement\<close> returns for the place of a prefix.\<close>

definition last_addr :: "addr option \<Rightarrow> frame list \<Rightarrow> addr option" where
  "last_addr parent fs = (if fs = [] then parent else Some (frame_addr (last fs)))"

fun exact_at :: "bool list \<Rightarrow> ptrie \<Rightarrow> addr option" where
  "exact_at k PLf = None"
| "exact_at k (PNd a q pr l r) = (if q = k then Some a else None)"

section \<open>Bytes and bits of a node\<close>

lemma unat_of_nat_u8: "N = 32 \<or> N = 128 \<Longrightarrow> unat (of_nat N :: u8) = N"
  by auto

lemma u8_128_32: "(128 :: u8) \<noteq> 32"
  by code_simp

lemma common_bits_128:
  "common_bits n key 128 = 128 - of_nat (fls128
     (load_le (take 8 (bits n)) XOR load_le (take 8 key))
     (load_le (take 8 (drop 8 (bits n))) XOR load_le (take 8 (drop 8 key))))"
  unfolding common_bits_def by (simp only: u8_128_32 if_False if_True refl)

lemma common_bits_lcp:
  assumes "N = 32 \<or> N = 128" "N div 8 \<le> length key" "length (bits n) = 16"
  shows "unat (common_bits n key (of_nat N)) =
    length (longest_common_prefix (key_bits N (bits n)) (key_bits N key))"
proof -
  let ?l = "length (longest_common_prefix (key_bits N (bits n)) (key_bits N key))"
  have "?l \<le> N" by (metis length_key_bits longest_common_prefix_prefix1 prefix_length_le)
  moreover have "common_bits n key (of_nat N) = of_nat ?l"
  proof (cases "N = 32")
    case True
    let ?x = "load_le (take 4 (bits n)) XOR load_le (take 4 key) :: u32"
    have "32 - fls ?x = ?l"
      using True assms fls_xor [of "load_le (take 4 (bits n)) :: u32" "load_le (take 4 key)"]
      by (simp add: key_bits_32)
    moreover have "fls ?x \<le> 32" using fls_le [of ?x] by simp
    ultimately have "?l + fls ?x = 32" by linarith
    then have "(of_nat (?l + fls ?x) :: u8) = of_nat 32" by (rule arg_cong)
    then show ?thesis using True by (simp add: common_bits_def algebra_simps)
  next
    case False
    then have N: "N = 128" using assms(1) by simp
    let ?f = "fls128 (load_le (take 8 (bits n)) XOR load_le (take 8 key))
          (load_le (take 8 (drop 8 (bits n))) XOR load_le (take 8 (drop 8 key)))"
    have "128 - ?f = ?l"
      using N assms by (simp add: key_bits_128 fls128_xor)
    moreover have "?f \<le> 128"
      using fls_le [of "load_le (take 8 (bits n)) XOR load_le (take 8 key) :: u64"]
        fls_le [of "load_le (take 8 (drop 8 (bits n))) XOR load_le (take 8 (drop 8 key)) :: u64"]
      by (simp add: fls128_def)
    ultimately have "?l + ?f = 128" by linarith
    then have "(of_nat (?l + ?f) :: u8) = of_nat 128" by (rule arg_cong)
    then show ?thesis using N by (simp add: common_bits_128 algebra_simps)
  qed
  ultimately show ?thesis using assms(1) by (auto simp: unat_of_nat take_bit_eq_mod)
qed

lemma node_ok_N: "node_ok N n q pr \<Longrightarrow> length (bits n) = 16 \<and> length q \<le> N"
  by (simp add: node_ok_def)

lemma prefix_matches_prefix:
  assumes "N = 32 \<or> N = 128" "N div 8 \<le> length key" "node_ok N n q pr"
  shows "prefix_matches n key (of_nat N) \<longleftrightarrow> prefix q (key_bits N key)"
proof -
  have n: "length (bits n) = 16" "length q \<le> N" "unat (cidr n) = length q"
    "q = take (length q) (key_bits N (bits n))" using assms(3) by (simp_all add: node_ok_def)
  have "prefix_matches n key (of_nat N) \<longleftrightarrow>
      length q \<le> length (longest_common_prefix (key_bits N (bits n)) (key_bits N key))"
    using common_bits_lcp [OF assms(1,2) n(1)] n(3) by (simp add: prefix_matches_def word_le_nat_alt)
  also have "\<dots> \<longleftrightarrow> take (length q) (key_bits N (bits n)) = take (length q) (key_bits N key)"
    using n(2) by (simp add: take_lcp)
  also have "\<dots> \<longleftrightarrow> prefix q (key_bits N key)"
    using n(4) by (metis take_is_prefix take_prefix)
  finally show ?thesis .
qed

lemma choose_bit_nth:
  assumes "N = 32 \<or> N = 128" "node_ok N n q pr" "length q < N"
  shows "choose_bit n key = key_bits N key ! length q"
proof -
  have n: "unat (cidr n) = length q" "bit_at_a n = (cidr n div 8) XOR ((of_nat N div 8 - 1) mod 8)"
    "bit_at_b n = 7 - cidr n mod 8" using assms(2) by (simp_all add: node_ok_def)
  have "unat (cidr n mod 8) = length q mod 8" using n(1) by (simp add: unat_mod)
  moreover have "length q mod 8 \<le> 7" by (simp add: less_Suc_eq_le [symmetric])
  ultimately have b: "unat (bit_at_b n) = 7 - length q mod 8"
    by (simp add: n(3) unat_sub word_le_nat_alt)
  have c: "unat (cidr n div 8) = length q div 8" using n(1) by (simp add: unat_div)
  have "unat ((of_nat N div 8 - 1) mod 8 :: u8) = (N div 8 - 1) mod 8" using assms(1) by auto
  then have "unat (bit_at_a n) = key_byte N (length q)"
    by (simp add: n(2) unsigned_xor_eq c key_byte_def)
  then show ?thesis
    using assms(3) b by (simp add: choose_bit_def and_one_eq bit_iff_odd drop_bit_eq_div odd_iff_mod_2_eq_one)
qed

lemma key_bits_cong:
  "N = 32 \<or> N = 128 \<Longrightarrow> take (N div 8) xs = take (N div 8) ys \<Longrightarrow>
   N div 8 \<le> length xs \<Longrightarrow> N div 8 \<le> length ys \<Longrightarrow> key_bits N xs = key_bits N ys"
proof (rule nth_equalityI)
  fix i assume N: "N = 32 \<or> N = 128" and eq: "take (N div 8) xs = take (N div 8) ys"
    and i: "i < length (key_bits N xs)"
  have "xs ! key_byte N i = ys ! key_byte N i"
    using key_byte_less [OF N] i eq by (metis length_key_bits nth_take)
  then show "key_bits N xs ! i = key_bits N ys ! i" using i by simp
qed simp

lemma node_ok_assign:
  assumes "N = 32 \<or> N = 128" "N div 8 \<le> length key" "unat c \<le> N"
    and "length (bits node) = 16" "peer node = pr"
  shows "node_ok N (copy_and_assign_cidr node key c (of_nat N)) (take (unat c) (key_bits N key)) pr"
    and "key_bits N (bits (copy_and_assign_cidr node key c (of_nat N))) = key_bits N key"
proof -
  let ?n = "copy_and_assign_cidr node key c (of_nat N)"
  have u: "unat (of_nat N div 8 :: u8) = N div 8" using assms(1) by (auto simp: unat_div)
  show kb: "key_bits N (bits ?n) = key_bits N key"
    using assms(1,2,4) by (intro key_bits_cong) (auto simp: copy_and_assign_cidr_def u)
  have "length (bits ?n) = 16" using assms(1,2,4) by (auto simp: copy_and_assign_cidr_def u)
  then show "node_ok N ?n (take (unat c) (key_bits N key)) pr"
    using assms(3,5) kb by (simp add: node_ok_def) (simp add: copy_and_assign_cidr_def)
qed

section \<open>Represented trees\<close>

lemma node_bit_simps [simp]: "node_bit n True = bit1 n" "node_bit n False = bit0 n"
  by (simp_all add: node_bit_def)

lemma node_ok_upd [simp]:
  "node_ok N (n\<lparr>parent_bit_packed := x\<rparr>) q pr = node_ok N n q pr"
  "node_ok N (set_node_bit n d y) q pr = node_ok N n q pr"
  "parent_bit_packed (set_node_bit n d y) = parent_bit_packed n"
  "node_bit (set_node_bit n d y) e = (if e = d then y else node_bit n e)"
  "bit0 (set_node_bit n d y) = (if d then bit0 n else y)"
  "bit1 (set_node_bit n d y) = (if d then y else bit1 n)"
  by (auto simp: node_ok_def set_node_bit_def node_bit_def)

lemma rep_frame: "(\<And>a. a \<in> set (addrs t) \<Longrightarrow> h' a = h a) \<Longrightarrow> rep h' N sb ptr t = rep h N sb ptr t"
  by (induction t arbitrary: sb ptr) (auto split: option.splits)

lemma ctx_frame:
  "(\<And>a. a \<in> set (frames_addrs fs) \<Longrightarrow> h' a = h a) \<Longrightarrow>
     ctx h' N sb ptr fs hs hp = ctx h N sb ptr fs hs hp"
proof (induction fs arbitrary: sb ptr rule: frames_addrs.induct)
  case (2 a q pr d sib fs)
  have "rep h' N x y sib = rep h N x y sib" for x y using "2.prems" by (intro rep_frame) auto
  then show ?case using 2 by (auto split: option.splits)
qed simp

lemma rep_plug:
  "rep h N sb ptr (plug fs u) \<longleftrightarrow> (\<exists>hs hp. ctx h N sb ptr fs hs hp \<and> rep h N hs hp u)"
proof (induction fs arbitrary: sb ptr rule: frames_addrs.induct)
  case (2 a q pr d sib fs)
  then show ?case by (cases d) (auto split: option.splits)
qed simp

lemma rep_addrs_some: "rep h N sb ptr t \<Longrightarrow> a \<in> set (addrs t) \<Longrightarrow> h a \<noteq> None"
  by (induction t arbitrary: sb ptr) (auto split: option.splits)

lemma rep_PLf_iff: "rep h N sb ptr t \<Longrightarrow> (t = PLf) = (ptr = None)"
  by (cases t) auto

lemma rep_set_parent:
  assumes "rep h N sb (Some a) u" "distinct (addrs u)"
  shows "rep (h(a \<mapsto> (the (h a))\<lparr>parent_bit_packed := sb'\<rparr>)) N sb' (Some a) u"
proof (cases u)
  case (PNd b q pr l r)
  let ?h = "h(a \<mapsto> (the (h a))\<lparr>parent_bit_packed := sb'\<rparr>)"
  have "rep ?h N x y l = rep h N x y l" "rep ?h N x y r = rep h N x y r" for x y
    using assms PNd by (auto intro!: rep_frame)
  then show ?thesis using assms PNd by (auto split: option.splits simp del: fun_upd_apply simp: fun_upd_same)
qed (use assms in simp)

lemma slot_upd_other: "a \<notin> slot_addrs s \<Longrightarrow> slot_upd h s p a = h a"
  by (cases s) auto

lemma ctx_slot:
  "ctx h N sb ptr fs (s, b) hp \<Longrightarrow> fs \<noteq> [] \<Longrightarrow>
     s = BitSlot (frame_addr (last fs)) (frame_dir (last fs)) \<and>
     b = of_bool (frame_dir (last fs)) \<and> slot_addrs s \<subseteq> set (frames_addrs fs)"
proof (induction fs arbitrary: sb ptr rule: frames_addrs.induct)
  case (2 a q pr d sib fs)
  then obtain n where c: "ctx h N (BitSlot a d, of_bool d) (node_bit n d) fs (s, b) hp"
    by (auto split: option.splits)
  show ?case
  proof (cases "fs = []")
    case True
    then show ?thesis using c by (simp add: frame_addr_def frame_dir_def) auto
  next
    case False
    then show ?thesis using "2.IH" [OF c False] by auto
  qed
qed simp

lemma ctx_upd:
  "ctx h N sb ptr fs (s, b) hp \<Longrightarrow> fs \<noteq> [] \<Longrightarrow> distinct (frames_addrs fs) \<Longrightarrow>
     ctx (slot_upd h s p) N sb ptr fs (s, b) p"
proof (induction fs arbitrary: sb ptr rule: frames_addrs.induct)
  case (2 a q pr d sib fs)
  then obtain n where n: "h a = Some n" "node_ok N n q pr" "parent_bit_packed n = sb" "ptr = Some a"
    "rep h N (BitSlot a (\<not> d), of_bool (\<not> d)) (node_bit n (\<not> d)) sib"
    "ctx h N (BitSlot a d, of_bool d) (node_bit n d) fs (s, b) hp"
    by (auto split: option.splits)
  have sib: "slot_addrs s \<inter> set (addrs sib) = {}"
  proof (cases "fs = []")
    case True
    then show ?thesis using n(6) "2.prems"(3) by auto
  next
    case False
    then show ?thesis using ctx_slot [OF n(6)] "2.prems"(3) by auto
  qed
  have sib_rep: "rep (slot_upd h s p) N x y sib = rep h N x y sib" for x y
    using sib by (intro rep_frame slot_upd_other) auto
  show ?case
  proof (cases "fs = []")
    case True
    then have s: "s = BitSlot a d" "b = of_bool d" using n(6) by auto
    show ?thesis
      using n sib_rep True s by (cases d) (simp_all del: fun_upd_apply add: fun_upd_same)
  next
    case False
    then have "a \<notin> slot_addrs s" using ctx_slot [OF n(6)] "2.prems"(3) by auto
    then show ?thesis
      using n sib_rep
        "2.IH" [OF n(6) False] "2.prems"(3) by (simp add: slot_upd_other)
  qed
qed simp

lemma nodes_slot_set [simp]: "nodes (slot_set tb s p) = slot_upd (nodes tb) s p"
  by (cases s) (auto simp: node_at_def)

lemma root_of_slot_set:
  "root_of (slot_set tb s p) v = (if s = RootSlot v then p else root_of tb v)"
  by (cases s) (auto simp: root_of_def)

lemma slot_set_rest [simp]:
  "seq (slot_set tb s p) = seq tb" "peer_lists (slot_set tb s p) = peer_lists tb"
  by (cases s; simp)+

lemma nodes_connect:
  "nodes (connect_node tb s b a) =
     slot_upd ((nodes tb)(a \<mapsto> (the (nodes tb a))\<lparr>parent_bit_packed := (s, b)\<rparr>)) s (Some a)"
  by (simp add: connect_node_def node_at_def)

lemma connect_node_rest [simp]:
  "seq (connect_node tb s b a) = seq tb" "peer_lists (connect_node tb s b a) = peer_lists tb"
  by (simp_all add: connect_node_def Let_def)

lemma root_of_connect:
  "root_of (connect_node tb s b a) v = (if s = RootSlot v then Some a else root_of tb v)"
  by (simp add: connect_node_def root_of_slot_set) (simp add: root_of_def)

lemma nodes_connect_other:
  "x \<noteq> a \<Longrightarrow> x \<notin> slot_addrs s \<Longrightarrow> nodes (connect_node tb s b a) x = nodes tb x"
  by (simp add: nodes_connect slot_upd_other)

text \<open>Connecting the tree at \<open>a\<close> to the slot at the end of a path fills the hole with it.\<close>

lemma connect_rep:
  assumes c: "ctx (nodes tb) N sb ptr fs (s, b) hp" and r: "rep (nodes tb) N sb' (Some a) u"
    and d: "distinct (addrs (plug fs u))" and fs: "fs \<noteq> []"
  shows "rep (nodes (connect_node tb s b a)) N sb ptr (plug fs u)"
proof -
  let ?h = "(nodes tb)(a \<mapsto> (the (nodes tb a))\<lparr>parent_bit_packed := (s, b)\<rparr>)"
  have dd: "distinct (frames_addrs fs)" "distinct (addrs u)" "set (frames_addrs fs) \<inter> set (addrs u) = {}"
    using d by (simp_all add: distinct_addrs_plug)
  have au: "a \<in> set (addrs u)" using r by (cases u) auto
  have "ctx ?h N sb ptr fs (s, b) hp" using c au dd by (subst ctx_frame) auto
  then have 1: "ctx (nodes (connect_node tb s b a)) N sb ptr fs (s, b) (Some a)"
    unfolding nodes_connect using fs dd by (intro ctx_upd)
  have "rep ?h N (s, b) (Some a) u" using rep_set_parent [OF r dd(2)] .
  moreover have "slot_addrs s \<inter> set (addrs u) = {}" using ctx_slot [OF c fs] dd by auto
  ultimately have "rep (nodes (connect_node tb s b a)) N (s, b) (Some a) u"
    unfolding nodes_connect
    by (subst rep_frame [of _ _ ?h]) (blast intro: slot_upd_other, assumption)
  with 1 show ?thesis unfolding rep_plug by blast
qed

lemma connect_rep_root:
  assumes "rep (nodes tb) N sb' (Some a) u" "distinct (addrs u)"
  shows "rep (nodes (connect_node tb (RootSlot v6) b a)) N (RootSlot v6, b) (Some a) u"
  using rep_set_parent [OF assms] by (simp add: nodes_connect)

section \<open>Lookup and placement\<close>

lemma find_node_rep:
  assumes N: "N = 32 \<or> N = 128" "N div 8 \<le> length key"
  shows "wft N b t \<Longrightarrow> rep (nodes tb) N sb ptr t \<Longrightarrow>
     find_node_loop tb (of_nat N) key ptr found = Some (tfind t (key_bits N key) found)"
proof (induction t arbitrary: b sb ptr found)
  case PLf
  then show ?case by (simp add: find_node_loop.simps)
next
  case (PNd a q pr l r)
  then obtain n where n: "nodes tb a = Some n" "node_ok N n q pr" "ptr = Some a"
    "rep (nodes tb) N (BitSlot a False, 0) (bit0 n) l" "rep (nodes tb) N (BitSlot a True, 1) (bit1 n) r"
    by (auto split: option.splits)
  have c: "cidr n = of_nat N \<longleftrightarrow> length q = N"
    using n(2) unat_of_nat_u8 [OF N(1)] by (metis node_ok_def word_unat_eq_iff)
  have "length q \<le> N" using n(2) by (simp add: node_ok_def)
  then have ch: "length q \<noteq> N \<Longrightarrow> choose_bit n key = key_bits N key ! length q"
    using choose_bit_nth [OF N(1) n(2)] by simp
  have pr: "peer n = pr" using n(2) by (simp add: node_ok_def)
  have IH: "find_node_loop tb (of_nat N) key (bit0 n) f = Some (tfind l (key_bits N key) f)"
    "find_node_loop tb (of_nat N) key (bit1 n) f = Some (tfind r (key_bits N key) f)" for f
    using PNd.IH(1) [OF _ n(4)] PNd.IH(2) [OF _ n(5)] PNd.prems(1) by auto
  have "find_node_loop tb (of_nat N) key (node_bit n (key_bits N key ! length q)) f =
     Some (tfind (if key_bits N key ! length q then r else l) (key_bits N key) f)" for f
    using IH by (simp add: node_bit_def)
  then show ?case
    using n(1,3) c ch pr prefix_matches_prefix [OF N n(2)]
    by (subst find_node_loop.simps) (simp add: node_at_def Let_def)
qed

lemma prefix_take_key:
  assumes "length q \<le> c"
  shows "prefix q (take c key) \<longleftrightarrow> prefix q key"
proof
  assume "prefix q (take c key)"
  then show "prefix q key" using take_is_prefix prefix_order.trans by blast
next
  assume "prefix q key"
  then have "take c q = q" "prefix q key" using assms by simp_all
  then show "prefix q (take c key)" by (auto simp: prefix_def)
qed

lemma node_placement_rep:
  assumes N: "N = 32 \<or> N = 128" "N div 8 \<le> length key" and c: "unat c \<le> N"
  defines "k \<equiv> take (unat c) (key_bits N key)"
  shows "wft N b t \<Longrightarrow> rep (nodes tb) N sb ptr t \<Longrightarrow> tplace k t = (fs, u) \<Longrightarrow>
     node_placement_loop tb key c (of_nat N) ptr parent =
       Some (case exact_at k u of Some a \<Rightarrow> (True, Some a) | None \<Rightarrow> (False, last_addr parent fs))"
proof (induction t arbitrary: b sb ptr parent fs u)
  case PLf
  then show ?case by (simp add: node_placement_loop.simps last_addr_def)
next
  case (PNd a q pr l r)
  then obtain n where n: "nodes tb a = Some n" "node_ok N n q pr" "ptr = Some a"
    "rep (nodes tb) N (BitSlot a False, 0) (bit0 n) l" "rep (nodes tb) N (BitSlot a True, 1) (bit1 n) r"
    by (auto split: option.splits)
  have lk: "length k = unat c" using c by (simp add: k_def)
  have le: "cidr n \<le> c \<longleftrightarrow> length q \<le> length k" and eq: "cidr n = c \<longleftrightarrow> length q = length k"
    using n(2) lk by (auto simp: node_ok_def word_le_nat_alt word_unat_eq_iff)
  have pm: "cidr n \<le> c \<and> prefix_matches n key (of_nat N) \<longleftrightarrow> prefix q k"
    unfolding le prefix_matches_prefix [OF N n(2)] lk
    using prefix_take_key [of q "unat c" "key_bits N key"] prefix_length_le [of q k] lk
    by (auto simp: k_def)
  have qk: "prefix q k \<Longrightarrow> cidr n = c \<longleftrightarrow> q = k"
    unfolding eq by (metis take_all take_prefix order_refl)
  show ?case
  proof (cases "prefix q k \<and> q \<noteq> k")
    case False
    then show ?thesis
      using n(1,3) pm qk PNd.prems(3)
      by (subst node_placement_loop.simps) (auto simp: node_at_def last_addr_def)
  next
    case True
    then have lq: "length q < length k" by (metis prefix_length_less strict_prefix_def)
    then have ch: "choose_bit n key = k ! length q"
      using choose_bit_nth [OF N(1) n(2), of key] c lk by (simp add: k_def)
    have step: "node_placement_loop tb key c (of_nat N) ptr parent =
        node_placement_loop tb key c (of_nat N) (node_bit n (k ! length q)) (Some a)"
      using n(1,3) pm qk True ch by (subst node_placement_loop.simps) (simp add: node_at_def Let_def)
    obtain fs' where fs': "tplace k (if k ! length q then r else l) = (fs', u)"
      "fs = (a, q, pr, k ! length q, if k ! length q then l else r) # fs'"
      using PNd.prems(3) True by (auto split: prod.splits if_splits)
    have "node_placement_loop tb key c (of_nat N) (node_bit n (k ! length q)) (Some a) =
       Some (case exact_at k u of Some a \<Rightarrow> (True, Some a) | None \<Rightarrow> (False, last_addr (Some a) fs'))"
      using PNd.IH(1) [OF _ n(4)] PNd.IH(2) [OF _ n(5)] PNd.prems(1) fs'(1)
      by (cases "k ! length q") auto
    moreover have "last_addr (Some a) fs' = last_addr parent fs"
      using fs'(2) by (simp add: last_addr_def frame_addr_def)
    ultimately show ?thesis using step by (simp split: option.splits)
  qed
qed

end
