(* ===== verification/WG_AllowedIPs_Insert.thy ===== *)
theory WG_AllowedIPs_Insert
  imports WG_AllowedIPs_Rep
begin

text \<open>
  Insertion into the allowed-IPs tables: the invariant of a table, and that \<^verbatim>\<open>add\<close> inserts
  the prefix into the represented tree, or fails and leaves the table as it was.
\<close>

section \<open>Definitions\<close>

definition width :: "bool \<Rightarrow> nat" where
  "width v6 = (if v6 then 128 else 32)"

text \<open>
  The invariant of a table: both roots represent well-formed trees \<open>T False\<close> (IPv4) and
  \<open>T True\<close> (IPv6), the nodes of the table are those of the trees, and the list of every
  peer has exactly the nodes with that peer.
\<close>

definition tb_rep :: "allowedips \<Rightarrow> (bool \<Rightarrow> ptrie) \<Rightarrow> bool" where
  "tb_rep tb T \<longleftrightarrow>
     (\<forall>v. rep (nodes tb) (width v) (RootSlot v, 2) (root_of tb v) (T v) \<and>
          wft (width v) [] (T v) \<and> distinct (addrs (T v))) \<and>
     set (addrs (T False)) \<inter> set (addrs (T True)) = {} \<and>
     dom (nodes tb) = set (addrs (T False)) \<union> set (addrs (T True)) \<and>
     (\<forall>p. distinct (peer_lists tb p) \<and>
          set (peer_lists tb p) = {a. \<exists>v q. (q, p, a) \<in> ents (T v)})"

text \<open>\<open>tb'\<close> differs from \<open>tb\<close> at most in the nodes \<open>A\<close> and the root of \<open>v6\<close>.\<close>

definition touch :: "allowedips \<Rightarrow> allowedips \<Rightarrow> addr set \<Rightarrow> bool \<Rightarrow> bool" where
  "touch tb tb' A v6 \<longleftrightarrow>
     (\<forall>x. x \<notin> A \<longrightarrow> nodes tb' x = nodes tb x) \<and>
     root_of tb' (\<not> v6) = root_of tb (\<not> v6) \<and> peer_lists tb' = peer_lists tb"

definition frame_prefix :: "frame \<Rightarrow> bool list" where
  "frame_prefix f = fst (snd f)"

text \<open>
  The situation after \<^verbatim>\<open>node_placement\<close> when a new node is needed: the path \<open>fs\<close> ends in
  the slot \<open>s\<close>, where the tree \<open>u\<close> hangs, and the new node \<open>new\<close> is not linked yet.
\<close>

definition ins_point where
  "ins_point tb v6 N key c p new n1 fs s b hp u \<longleftrightarrow>
     (N = 32 \<or> N = 128) \<and> N div 8 \<le> length key \<and> unat c \<le> N \<and>
     ctx (nodes tb) N (RootSlot v6, 2) (root_of tb v6) fs (s, b) hp \<and>
     rep (nodes tb) N (s, b) hp u \<and> distinct (addrs (plug fs u)) \<and>
     new \<notin> set (addrs (plug fs u)) \<and> nodes tb new = Some n1 \<and>
     node_ok N n1 (take (unat c) (key_bits N key)) (Some p) \<and> bit0 n1 = None \<and> bit1 n1 = None \<and>
     key_bits N (bits n1) = key_bits N key \<and>
     prefix (hole_bound [] fs) (take (unat c) (key_bits N key))"

text \<open>The tree \<open>t\<close> is in place of the old one; its nodes are old ones or from \<open>F\<close>.\<close>

definition ins_done where
  "ins_done tb tb' v6 N t told F \<longleftrightarrow>
     rep (nodes tb') N (RootSlot v6, 2) (root_of tb' v6) t \<and> touch tb tb' (set (addrs t)) v6 \<and>
     distinct (addrs t) \<and> set (addrs t) \<subseteq> F \<union> set (addrs told)"

section \<open>Steps\<close>

lemma width_cases: "width v = 32 \<or> width v = 128"
  by (simp add: width_def)

lemma touch_refl: "touch tb tb A v6"
  by (simp add: touch_def)

lemma touch_trans: "touch tb tb1 A v6 \<Longrightarrow> touch tb1 tb2 B v6 \<Longrightarrow> touch tb tb2 (A \<union> B) v6"
  by (simp add: touch_def)

lemma touch_mono: "touch tb tb' A v6 \<Longrightarrow> A \<subseteq> B \<Longrightarrow> touch tb tb' B v6"
  by (auto simp: touch_def)

lemma touch_connect:
  "s \<noteq> RootSlot (\<not> v6) \<Longrightarrow> touch tb (connect_node tb s b a) ({a} \<union> slot_addrs s) v6"
  by (auto simp: touch_def nodes_connect_other root_of_connect)

lemma bits_connect [simp]: "bits (node_at (connect_node tb s b a) x) = bits (node_at tb x)"
proof -
  have "bits (set_node_bit n d y) = bits n" for n d y by (simp add: set_node_bit_def)
  then show ?thesis by (cases s) (auto simp: node_at_def nodes_connect)
qed

lemma choose_and_connect_rest [simp]:
  "bits (node_at (choose_and_connect_node tb a x) y) = bits (node_at tb y)"
  "root_of (choose_and_connect_node tb a x) v = root_of tb v"
  by (simp_all add: choose_and_connect_node_def Let_def root_of_connect)

lemma touch_rep:
  "touch tb tb' A v6 \<Longrightarrow> A \<inter> set (addrs t) = {} \<Longrightarrow>
     rep (nodes tb') N sb ptr t = rep (nodes tb) N sb ptr t"
  by (rule rep_frame) (auto simp: touch_def)

lemma touch_ctx:
  "touch tb tb' A v6 \<Longrightarrow> A \<inter> set (frames_addrs fs) = {} \<Longrightarrow>
     ctx (nodes tb') N sb ptr fs hs hp = ctx (nodes tb) N sb ptr fs hs hp"
  by (rule ctx_frame) (auto simp: touch_def)

lemma hole_bound_last:
  "fs \<noteq> [] \<Longrightarrow> hole_bound b fs = frame_prefix (last fs) @ [frame_dir (last fs)]"
  by (induction b fs rule: hole_bound.induct) (auto simp: frame_prefix_def frame_dir_def)

lemma ctx_last:
  "ctx h N sb ptr fs hs hp \<Longrightarrow> fs \<noteq> [] \<Longrightarrow>
     \<exists>n. h (frame_addr (last fs)) = Some n \<and>
         node_ok N n (frame_prefix (last fs)) (frame_peer (last fs)) \<and>
         node_bit n (frame_dir (last fs)) = hp"
proof (induction fs arbitrary: sb ptr rule: frames_addrs.induct)
  case (2 a q pr d sib fs)
  then obtain n where n: "h a = Some n" "node_ok N n q pr"
    and c: "ctx h N (BitSlot a d, of_bool d) (node_bit n d) fs hs hp"
    by (auto split: option.splits)
  show ?case
  proof (cases "fs = []")
    case True
    then show ?thesis
      using c n by (simp add: frame_addr_def frame_dir_def frame_prefix_def frame_peer_def)
  next
    case False
    then show ?thesis using "2.IH" [OF c False] by simp
  qed
qed simp

text \<open>Towards a key below the hole, the last node of the path chooses the slot of the hole.\<close>

lemma ctx_choose:
  assumes N: "N = 32 \<or> N = 128" and c: "ctx h N sb ptr fs hs hp" "fs \<noteq> []"
    and k: "prefix (hole_bound b fs) (key_bits N key)"
  obtains n where "h (frame_addr (last fs)) = Some n" "choose_bit n key = frame_dir (last fs)"
    "node_bit n (frame_dir (last fs)) = hp"
proof -
  obtain n where n: "h (frame_addr (last fs)) = Some n" "node_bit n (frame_dir (last fs)) = hp"
    and ok: "node_ok N n (frame_prefix (last fs)) (frame_peer (last fs))"
    using ctx_last [OF c] by blast
  have "prefix (frame_prefix (last fs) @ [frame_dir (last fs)]) (key_bits N key)"
    using k hole_bound_last [OF c(2)] by simp
  then have "length (frame_prefix (last fs)) < N"
    "key_bits N key ! length (frame_prefix (last fs)) = frame_dir (last fs)"
    unfolding prefix_snoc_iff by simp_all
  then show ?thesis using choose_bit_nth [OF N ok] n that by metis
qed

lemma ctx_slot_cases:
  assumes "ctx h N (RootSlot v6, 2) ptr fs (s, b) hp"
  shows "s \<noteq> RootSlot (\<not> v6)" and "slot_addrs s \<subseteq> set (frames_addrs fs)"
  using ctx_slot [OF assms] assms by (cases "fs = []"; auto)+

lemma connect_trie:
  assumes "ctx (nodes tb) N (RootSlot v6, 2) (root_of tb v6) fs (s, b) hp"
    and "rep (nodes tb) N sb' (Some a) u" "distinct (addrs (plug fs u))"
  shows "rep (nodes (connect_node tb s b a)) N (RootSlot v6, 2)
           (root_of (connect_node tb s b a) v6) (plug fs u)"
proof (cases "fs = []")
  case True
  then show ?thesis using connect_rep_root [OF assms(2)] assms(1,3) by (auto simp: root_of_connect)
next
  case False
  then have "s \<noteq> RootSlot v6" using ctx_slot [OF assms(1)] by auto
  then show ?thesis using connect_rep [OF assms False] by (simp add: root_of_connect)
qed

text \<open>The code that links a node below the parent found by \<^verbatim>\<open>node_placement\<close>, or at the root.\<close>

lemma connect_parent:
  assumes "N = 32 \<or> N = 128" "ctx (nodes tb) N (RootSlot v6, 2) ptr fs (s, b) hp"
    and "prefix (hole_bound [] fs) (key_bits N (bits (node_at tb a)))"
  shows "(case last_addr None fs of
            None \<Rightarrow> connect_node tb (RootSlot v6) 2 a
          | Some pa \<Rightarrow> choose_and_connect_node tb pa a) = connect_node tb s b a"
proof (cases "fs = []")
  case True
  then show ?thesis using assms(2) by (auto simp: last_addr_def)
next
  case False
  obtain n where "nodes tb (frame_addr (last fs)) = Some n"
    "choose_bit n (bits (node_at tb a)) = frame_dir (last fs)"
    using ctx_choose [OF assms(1,2) False assms(3)] by metis
  then show ?thesis
    using ctx_slot [OF assms(2) False] False
    by (simp add: last_addr_def choose_and_connect_node_def node_at_def)
qed

lemma new_node_rep:
  "nodes tb a = Some n \<Longrightarrow> node_ok N n q pr \<Longrightarrow> bit0 n = None \<Longrightarrow> bit1 n = None \<Longrightarrow>
     rep (nodes tb) N (parent_bit_packed n) (Some a) (PNd a q pr PLf PLf)"
  by simp

text \<open>Hanging a tree below a node whose slot on that side is empty.\<close>

lemma hang_below:
  assumes N: "N = 32 \<or> N = 128"
    and r: "rep (nodes tb) N sb (Some a) (plug [(a, q, pr, d, sib)] PLf)"
    and u: "rep (nodes tb) N sb' (Some x) u"
    and dist: "distinct (addrs (plug [(a, q, pr, d, sib)] u))"
    and ch: "prefix (q @ [d]) (key_bits N (bits (node_at tb x)))"
  shows "rep (nodes (choose_and_connect_node tb a x)) N sb (Some a) (plug [(a, q, pr, d, sib)] u)"
    and "touch tb (choose_and_connect_node tb a x) {a, x} v6"
proof -
  obtain hs hp where c: "ctx (nodes tb) N sb (Some a) [(a, q, pr, d, sib)] hs hp"
    using r unfolding rep_plug by blast
  then have hs: "hs = (BitSlot a d, of_bool d)" by (auto split: option.splits)
  obtain n where "nodes tb a = Some n" "choose_bit n (bits (node_at tb x)) = d"
    using ctx_choose [OF N c, of "[]"] ch by (simp add: frame_addr_def frame_dir_def) metis
  then have eq: "choose_and_connect_node tb a x = connect_node tb (BitSlot a d) (of_bool d) x"
    by (simp add: choose_and_connect_node_def node_at_def)
  show "rep (nodes (choose_and_connect_node tb a x)) N sb (Some a) (plug [(a, q, pr, d, sib)] u)"
    using connect_rep [OF c [unfolded hs] u dist] by (simp add: eq)
  show "touch tb (choose_and_connect_node tb a x) {a, x} v6"
    unfolding eq by (rule touch_mono [OF touch_connect]) auto
qed

section \<open>Insertion\<close>

text \<open>The common prefix of the new prefix and the one below it, as the code computes it.\<close>

lemma split_length:
  assumes N: "N = 32 \<or> N = 128" "N div 8 \<le> length key" "unat c \<le> N"
    and n: "node_ok N n q pr" and k: "k = take (unat c) (key_bits N key)" and np: "\<not> prefix q k"
  shows "unat (min c (common_bits n key (of_nat N))) = length (longest_common_prefix k q)"
proof -
  let ?m = "length (longest_common_prefix (key_bits N (bits n)) (key_bits N key))"
  let ?c = "min (unat c) ?m"
  have cb: "unat (min c (common_bits n key (of_nat N))) = ?c"
    using common_bits_lcp [OF N(1,2)] n by (simp add: node_ok_def min_def word_le_nat_alt)
  have q: "q = take (length q) (key_bits N (bits n))" "length q \<le> N" using n by (simp_all add: node_ok_def)
  have lk: "length k = unat c" using N(3) by (simp add: k)
  have iff: "j \<le> ?c \<longleftrightarrow> j \<le> length (longest_common_prefix k q)" if "j \<le> length q" for j
  proof -
    have "take j q = take j (key_bits N (bits n))" using q(1) that by (metis min.absorb1 take_take)
    moreover have "j \<le> unat c \<Longrightarrow> take j k = take j (key_bits N key)" by (simp add: k min_def)
    ultimately show ?thesis using that q(2) lk by (auto simp: take_lcp)
  qed
  have "?c < length q"
  proof (rule ccontr)
    assume "\<not> ?c < length q"
    then have "length q \<le> length (longest_common_prefix k q)" using iff [of "length q"] by linarith
    then have "take (length q) k = q" by (simp add: take_lcp)
    then show False using np by (metis take_is_prefix)
  qed
  moreover have "length (longest_common_prefix k q) \<le> length q"
    by (metis longest_common_prefix_prefix2 prefix_length_le)
  ultimately show ?thesis unfolding cb using iff by (metis le_antisym less_imp_le order_refl)
qed

lemma prefix_take_nth: "i < length xs \<Longrightarrow> prefix (take i xs @ [xs ! i]) xs"
  by (metis take_Suc_conv_app_nth take_is_prefix)

lemma node_ok_prefix: "node_ok N n q pr \<Longrightarrow> prefix q (key_bits N (bits n))"
  by (metis node_ok_def take_is_prefix)

lemma ins_point_facts:
  assumes "ins_point tb v6 N key c p new n1 fs s b hp u"
  shows "length (take (unat c) (key_bits N key)) = unat c"
    and "prefix (hole_bound [] fs) (key_bits N key)"
    and "rep (nodes tb) N (parent_bit_packed n1) (Some new)
           (PNd new (take (unat c) (key_bits N key)) (Some p) PLf PLf)"
  using assms take_is_prefix prefix_order.trans unfolding ins_point_def
  by (simp, blast, simp)

text \<open>Linking a finished subtree \<open>w\<close>, made in the table \<open>tb'\<close>, into the hole.\<close>

lemma ins_point_link:
  assumes ip: "ins_point tb v6 N key c p new n1 fs s b hp u"
    and t: "touch tb tb' A v6" "A \<inter> set (frames_addrs fs) = {}" "root_of tb' v6 = root_of tb v6"
    and w: "rep (nodes tb') N sb' (Some a) w" "distinct (addrs (plug fs w))"
    and kb: "key_bits N (bits (node_at tb' a)) = key_bits N key"
  defines "tb2 \<equiv> case last_addr None fs of
            None \<Rightarrow> connect_node tb' (RootSlot v6) 2 a
          | Some pa \<Rightarrow> choose_and_connect_node tb' pa a"
  shows "rep (nodes tb2) N (RootSlot v6, 2) (root_of tb2 v6) (plug fs w)"
    and "touch tb tb2 (A \<union> {a} \<union> set (frames_addrs fs)) v6"
proof -
  have c: "ctx (nodes tb') N (RootSlot v6, 2) (root_of tb' v6) fs (s, b) hp"
    using ip touch_ctx [OF t(1,2)] t(3) by (simp add: ins_point_def)
  have N: "N = 32 \<or> N = 128" using ip by (simp add: ins_point_def)
  have eq: "tb2 = connect_node tb' s b a"
    unfolding tb2_def using connect_parent [OF N c] ins_point_facts(2) [OF ip] kb by simp
  show "rep (nodes tb2) N (RootSlot v6, 2) (root_of tb2 v6) (plug fs w)"
    using connect_trie [OF c w] eq by simp
  show "touch tb tb2 (A \<union> {a} \<union> set (frames_addrs fs)) v6"
    unfolding eq
    by (rule touch_mono [OF touch_trans [OF t(1) touch_connect [OF ctx_slot_cases(1) [OF c]]]])
      (use ctx_slot_cases(2) [OF c] in auto)
qed

text \<open>The new node directly above the tree in the hole.\<close>

lemma add_above_direct:
  assumes ip: "ins_point tb v6 N key c p new n1 fs s b hp u" and u: "u = PNd a q pr l r"
  defines "k \<equiv> take (unat c) (key_bits N key)"
  assumes np: "q \<noteq> k" "\<not> prefix q k" and len: "length (longest_common_prefix k q) = length k"
  shows "\<exists>tb'. add_above tb v6 (of_nat N) key c new (last_addr None fs) a mem = (None, tb') \<and>
     ins_done tb tb' v6 N (plug fs (graft k p new split u)) (plug fs u) {new}"
proof -
  note f = ip [unfolded ins_point_def, folded k_def]
  have N: "N = 32 \<or> N = 128" "N div 8 \<le> length key" "unat c \<le> N" using f by auto
  have na: "hp = Some a" and nd: "node_ok N (node_at tb a) q pr"
    using f u by (auto simp: node_at_def split: option.splits)
  have n1: "node_at tb new = n1" "cidr n1 = c"
    using f ins_point_facts(1) [OF ip, folded k_def] by (auto simp: node_at_def node_ok_def word_unat_eq_iff)
  note ls = lcp_strict [OF np, unfolded len]
  let ?d = "q ! length k"
  have pq: "prefix (k @ [?d]) (key_bits N (bits (node_at tb a)))"
  proof -
    have "prefix (take (length k) q @ [?d]) q" using ls(1) by (rule prefix_take_nth)
    then show ?thesis using ls(2) node_ok_prefix [OF nd] by (metis prefix_order.trans take_all order_refl)
  qed
  let ?g = "plug [(new, k, Some p, ?d, PLf)] u"
  have g: "graft k p new split u = ?g" using u np(1) len by (simp add: graft_def)
  have dg: "distinct (addrs ?g)" "distinct (addrs (plug fs ?g))"
    using f by (auto simp: distinct_addrs_plug set_addrs_plug)
  have leaf: "rep (nodes tb) N (parent_bit_packed n1) (Some new) (plug [(new, k, Some p, ?d, PLf)] PLf)"
    using ins_point_facts(3) [OF ip, folded k_def] by simp
  let ?tb1 = "choose_and_connect_node tb new a"
  note h = hang_below [OF N(1) leaf, of "(s, b)" a u, OF _ dg(1) pq]
  have ru: "rep (nodes tb) N (s, b) (Some a) u" using f na by simp
  have t1: "touch tb ?tb1 {new, a} v6" by (rule h(2) [OF ru])
  have "{new, a} \<inter> set (frames_addrs fs) = {}"
    using f u by (auto simp: distinct_addrs_plug set_addrs_plug)
  moreover have "root_of ?tb1 v6 = root_of tb v6" "key_bits N (bits (node_at ?tb1 new)) = key_bits N key"
    using f by (simp_all add: n1)
  ultimately have fin:
    "rep (nodes tb2) N (RootSlot v6, 2) (root_of tb2 v6) (plug fs ?g)"
    "touch tb tb2 ({new, a} \<union> {new} \<union> set (frames_addrs fs)) v6"
    if "tb2 = (case last_addr None fs of None \<Rightarrow> connect_node ?tb1 (RootSlot v6) 2 new
          | Some pa \<Rightarrow> choose_and_connect_node ?tb1 pa new)" for tb2
    using ins_point_link [OF ip t1 _ _ h(1) [OF ru] dg(2)] that by blast+
  have "unat (min c (common_bits (node_at tb a) key (of_nat N))) = unat c"
    using split_length [OF N nd k_def [THEN meta_eq_to_obj_eq] np(2)] len
      ins_point_facts(1) [OF ip, folded k_def] by simp
  then have "cidr n1 = min c (common_bits (node_at tb a) key (of_nat N))"
    using n1(2) by (simp add: word_unat_eq_iff)
  then have res: "add_above tb v6 (of_nat N) key c new (last_addr None fs) a mem =
     (None, case last_addr None fs of None \<Rightarrow> connect_node ?tb1 (RootSlot v6) 2 new
          | Some pa \<Rightarrow> choose_and_connect_node ?tb1 pa new)"
    by (simp add: add_above_def n1(1) Let_def)
  have sub: "{new, a} \<union> {new} \<union> set (frames_addrs fs) \<subseteq> set (addrs (plug fs ?g))"
    using u by (auto simp: set_addrs_plug)
  have fsub: "set (addrs (plug fs ?g)) \<subseteq> {new} \<union> set (addrs (plug fs u))"
    by (auto simp: set_addrs_plug)
  show ?thesis
    unfolding g ins_done_def
    by (intro exI conjI, rule res, rule fin(1) [OF refl],
        rule touch_mono [OF fin(2) [OF refl] sub], rule dg(2), rule fsub)
qed

text \<open>The node for the first \<open>m\<close> bits of the new prefix.\<close>

lemma split_node_ok:
  fixes m :: u8
  assumes ip: "ins_point tb v6 N key c p new n1 fs s b hp u"
  defines "n2 \<equiv> copy_and_assign_cidr zero_node (bits n1) m (of_nat N)"
  shows "unat m < unat c \<Longrightarrow> node_ok N n2 (take (unat m) (take (unat c) (key_bits N key))) None"
    and "unat m < unat c \<Longrightarrow> key_bits N (bits n2) = key_bits N key"
    and "bit0 n2 = None" "bit1 n2 = None"
proof -
  note f = ip [unfolded ins_point_def]
  have N: "N = 32 \<or> N = 128" "N div 8 \<le> length (bits n1)" using f by (auto simp: node_ok_def)
  have zn: "length (bits zero_node) = 16" "peer zero_node = None" by (simp_all add: zero_node_def)
  assume m: "unat m < unat c"
  then have mN: "unat m \<le> N" using f by linarith
  show "node_ok N n2 (take (unat m) (take (unat c) (key_bits N key))) None"
    and "key_bits N (bits n2) = key_bits N key"
    using node_ok_assign [OF N mN zn] f m by (simp_all add: n2_def min_def)
qed (simp_all add: n2_def copy_and_assign_cidr_def zero_node_def)

text \<open>The new node and the tree in the hole below a node for their common prefix.\<close>

lemma add_above_split:
  assumes ip: "ins_point tb v6 N key c p new n1 fs s b hp u" and u: "u = PNd a q pr l r"
  defines "k \<equiv> take (unat c) (key_bits N key)"
  assumes np: "q \<noteq> k" "\<not> prefix q k" and len: "length (longest_common_prefix k q) \<noteq> length k"
    and fr: "split \<noteq> new" "split \<notin> set (addrs (plug fs u))"
  shows "\<exists>tb'. add_above tb v6 (of_nat N) key c new (last_addr None fs) a (Some split) = (None, tb') \<and>
     ins_done tb tb' v6 N (plug fs (graft k p new split u)) (plug fs u) {new, split}"
proof -
  note f = ip [unfolded ins_point_def, folded k_def]
  have N: "N = 32 \<or> N = 128" "N div 8 \<le> length key" "unat c \<le> N" using f by auto
  have na: "hp = Some a" and nd: "node_ok N (node_at tb a) q pr"
    using f u by (auto simp: node_at_def split: option.splits)
  have n1: "node_at tb new = n1" "cidr n1 = c" "length (bits n1) = 16"
    using f ins_point_facts(1) [OF ip, folded k_def] by (auto simp: node_at_def node_ok_def word_unat_eq_iff)
  define j where "j = length (longest_common_prefix k q)"
  define m where "m = min c (common_bits (node_at tb a) key (of_nat N))"
  have mj: "unat m = j"
    using split_length [OF N nd k_def [THEN meta_eq_to_obj_eq] np(2)] by (simp add: m_def j_def)
  note ls = lcp_strict [OF np, folded j_def]
  have kj: "j < length k" "k ! j \<noteq> q ! j" using ls(3) len by (auto simp: j_def)
  define n2 where "n2 = copy_and_assign_cidr zero_node (bits n1) m (of_nat N)"
  have mc: "unat m < unat c" using mj kj ins_point_facts(1) [OF ip, folded k_def] by simp
  note n2 = split_node_ok [OF ip, of m, folded k_def n2_def]
  note n2 = n2(1) [OF mc, unfolded mj] n2(2) [OF mc] n2(3,4)
  let ?tb0 = "tb\<lparr>nodes := (nodes tb)(split \<mapsto> n2)\<rparr>"
  have t0: "touch tb ?tb0 {split} v6" by (simp add: touch_def root_of_def)
  have leaf: "rep (nodes ?tb0) N (parent_bit_packed n2) (Some split)
       (plug [(split, take j k, None, q ! j, PLf)] PLf)"
    using n2 by simp
  let ?g1 = "plug [(split, take j k, None, q ! j, PLf)] u"
  let ?tb1 = "choose_and_connect_node ?tb0 split a"
  have b0: "node_at ?tb0 a = node_at tb a" "node_at ?tb0 new = n1" "node_at ?tb0 split = n2"
    using fr u n1 by (auto simp: node_at_def set_addrs_plug)
  have pq: "prefix (take j k @ [q ! j]) (key_bits N (bits (node_at ?tb0 a)))"
    using prefix_take_nth [OF ls(1)] ls(2) node_ok_prefix [OF nd] b0(1)
    by (metis prefix_order.trans)
  have ru: "rep (nodes ?tb0) N (s, b) (Some a) u"
    using f na touch_rep [OF t0, of u] fr by (simp add: set_addrs_plug)
  have dg1: "distinct (addrs ?g1)" using f fr by (auto simp: distinct_addrs_plug set_addrs_plug)
  note h1 = hang_below [OF N(1) leaf ru dg1 pq]
  have t1: "touch tb ?tb1 ({split} \<union> {split, a}) v6" by (rule touch_trans [OF t0 h1(2)])
  let ?leaf = "PNd new k (Some p) PLf PLf"
  let ?d = "k ! j" and ?tb2 = "choose_and_connect_node ?tb1 split new"
  let ?g = "plug [(split, take j k, None, ?d, u)] ?leaf"
  have qd: "q ! j = (\<not> ?d)" using kj(2) by auto
  have r1: "rep (nodes ?tb1) N (parent_bit_packed n2) (Some split) (plug [(split, take j k, None, ?d, u)] PLf)"
    using h1(1) by (simp add: qd split: if_splits)
  have rl: "rep (nodes ?tb1) N (parent_bit_packed n1) (Some new) ?leaf"
  proof (subst touch_rep [OF t1])
    show "({split} \<union> {split, a}) \<inter> set (addrs ?leaf) = {}"
      using fr f u by (auto simp: set_addrs_plug)
  qed (rule ins_point_facts(3) [OF ip, folded k_def])
  have dg: "distinct (addrs ?g)" "distinct (addrs (plug fs ?g))"
    using f fr by (auto simp: distinct_addrs_plug set_addrs_plug)
  have pk: "prefix (take j k @ [?d]) (key_bits N (bits (node_at ?tb1 new)))"
    using prefix_take_nth [OF kj(1)] f b0(2) by (simp add: k_def) (metis prefix_order.trans take_is_prefix)
  note h2 = hang_below [OF N(1) r1 rl dg(1) pk]
  have t2: "touch tb ?tb2 ({split} \<union> {split, a} \<union> {split, new}) v6" by (rule touch_trans [OF t1 h2(2)])
  have "({split} \<union> {split, a} \<union> {split, new}) \<inter> set (frames_addrs fs) = {}"
    using f u fr by (auto simp: distinct_addrs_plug set_addrs_plug)
  moreover have "root_of ?tb2 v6 = root_of tb v6"
    by simp (simp add: root_of_def)
  moreover have "key_bits N (bits (node_at ?tb2 split)) = key_bits N key" using n2 b0 by simp
  ultimately have fin:
    "rep (nodes tb3) N (RootSlot v6, 2) (root_of tb3 v6) (plug fs ?g)"
    "touch tb tb3 ({split} \<union> {split, a} \<union> {split, new} \<union> {split} \<union> set (frames_addrs fs)) v6"
    if "tb3 = (case last_addr None fs of None \<Rightarrow> connect_node ?tb2 (RootSlot v6) 2 split
          | Some pa \<Rightarrow> choose_and_connect_node ?tb2 pa split)" for tb3
    using ins_point_link [OF ip t2 _ _ h2(1) dg(2)] that by blast+
  have "cidr n1 \<noteq> m" using kj mj n1 ins_point_facts(1) [OF ip, folded k_def] by auto
  then have res: "add_above tb v6 (of_nat N) key c new (last_addr None fs) a (Some split) =
     (None, case last_addr None fs of None \<Rightarrow> connect_node ?tb2 (RootSlot v6) 2 split
          | Some pa \<Rightarrow> choose_and_connect_node ?tb2 pa split)"
    by (simp add: add_above_def n1(1) Let_def m_def [symmetric] n2_def [symmetric])
  have sub: "{split} \<union> {split, a} \<union> {split, new} \<union> {split} \<union> set (frames_addrs fs) \<subseteq> set (addrs (plug fs ?g))"
    using u by (auto simp: set_addrs_plug)
  have g: "graft k p new split u = ?g" using u np(1) len by (simp add: graft_def j_def)
  have fsub: "set (addrs (plug fs ?g)) \<subseteq> {new, split} \<union> set (addrs (plug fs u))"
    by (auto simp: set_addrs_plug)
  show ?thesis
    unfolding g ins_done_def
    by (intro exI conjI, rule res, rule fin(1) [OF refl],
        rule touch_mono [OF fin(2) [OF refl] sub], rule dg(2), rule fsub)
qed

text \<open>The entries and the nodes of a tree after an insertion.\<close>

lemma graft_addrs:
  assumes "exact_at k u = None"
  shows "set (addrs (graft k p new split u)) \<subseteq> {new, split} \<union> set (addrs u)"
    and "insert new (set (addrs u)) \<subseteq> set (addrs (graft k p new split u))"
  using assms by (auto simp: graft_def Let_def split: ptrie.splits)

lemma tinsert_ents:
  assumes "wft N b t" "tplace k t = (fs, u)"
  shows "(q, p', a) \<in> ents (tinsert k p new split t) \<longleftrightarrow>
     (if q = k then p' = p \<and> a = (case exact_at k u of Some a \<Rightarrow> a | None \<Rightarrow> new)
      else (q, p', a) \<in> ents t)"
proof -
  have t: "plug fs u = t" using tplace_plug [OF assms(2)] .
  have "wft N (hole_bound b fs) u" using assms t wft_hole by metis
  note g = graft_ents [OF tplace_stops [OF assms(2)] this, of _ _ _ p new split]
  have "(case u of PNd a' q' _ _ _ \<Rightarrow> if q' = k then a' else new | PLf \<Rightarrow> new) =
      (case exact_at k u of Some a \<Rightarrow> a | None \<Rightarrow> new)" by (cases u) auto
  moreover have "(k, p', a) \<notin> frames_ents fs" for p' a
    using tplace_frames_ents [OF assms(2,1)] .
  moreover have "tinsert k p new split t = plug fs (graft k p new split u)"
    "ents t = frames_ents fs \<union> ents u"
    using ents_plug [of fs u] by (simp_all add: tinsert_def assms(2) t)
  ultimately show ?thesis using g by (simp add: ents_plug)
qed

lemma exact_at_Some: "exact_at k u = Some a \<longleftrightarrow> (\<exists>pr l r. u = PNd a k pr l r)"
  by (cases u) auto

lemma ents_at:
  assumes "distinct (addrs (plug fs (PNd a q pr l r)))" "(q', p, a) \<in> ents (plug fs (PNd a q pr l r))"
  shows "q' = q \<and> pr = Some p"
  using assms frames_ents_addrs [of q' p a fs] ents_addrs [of q' p a]
  by (auto simp: distinct_addrs_plug ents_plug split: option.splits)

lemma set_peer_rep:
  assumes "rep h N sb ptr (plug fs (PNd a q pr l r))" "distinct (addrs (plug fs (PNd a q pr l r)))"
  shows "rep (h(a \<mapsto> (the (h a))\<lparr>peer := pr'\<rparr>)) N sb ptr (plug fs (PNd a q pr' l r))"
proof -
  let ?h = "h(a \<mapsto> (the (h a))\<lparr>peer := pr'\<rparr>)"
  obtain hs hp where c: "ctx h N sb ptr fs hs hp" and r: "rep h N hs hp (PNd a q pr l r)"
    using assms(1) unfolding rep_plug by blast
  have "ctx ?h N sb ptr fs hs hp"
    using c assms(2) by (subst ctx_frame) (auto simp: distinct_addrs_plug)
  moreover have "rep ?h N x y l = rep h N x y l" "rep ?h N x y r = rep h N x y r" for x y
    using assms(2) by (auto intro!: rep_frame simp: distinct_addrs_plug)
  then have "rep ?h N hs hp (PNd a q pr' l r)"
    using r by (auto split: option.splits simp: node_ok_def simp del: fun_upd_apply simp: fun_upd_same)
  ultimately show ?thesis unfolding rep_plug by blast
qed

text \<open>Keeping the table invariant when the tree of \<open>v6\<close> changes.\<close>

lemma bool_all_split: "(\<forall>v. P v) \<longleftrightarrow> P v6 \<and> P (\<not> v6)" for v6 :: bool
  by (cases v6) (auto simp: all_bool_eq)

lemma tb_rep_change:
  assumes tr: "tb_rep tb T"
    and r: "rep (nodes tb') (width v6) (RootSlot v6, 2) (root_of tb' v6) t"
    and w: "wft (width v6) [] t" "distinct (addrs t)" "set (addrs t) \<inter> set (addrs (T (\<not> v6))) = {}"
    and same: "\<And>a. a \<in> set (addrs (T (\<not> v6))) \<Longrightarrow> nodes tb' a = nodes tb a"
      "root_of tb' (\<not> v6) = root_of tb (\<not> v6)"
    and dom: "dom (nodes tb') \<subseteq> set (addrs t) \<union> set (addrs (T (\<not> v6)))"
    and lists: "\<And>p. distinct (peer_lists tb' p)"
      "\<And>p. set (peer_lists tb' p) = {a. \<exists>q. (q, p, a) \<in> ents t \<union> ents (T (\<not> v6))}"
  shows "tb_rep tb' (T(v6 := t))"
proof -
  have o: "rep (nodes tb) (width (\<not> v6)) (RootSlot (\<not> v6), 2) (root_of tb (\<not> v6)) (T (\<not> v6))"
    "wft (width (\<not> v6)) [] (T (\<not> v6))" "distinct (addrs (T (\<not> v6)))"
    using tr by (simp_all add: tb_rep_def)
  have o': "rep (nodes tb') (width (\<not> v6)) (RootSlot (\<not> v6), 2) (root_of tb' (\<not> v6)) (T (\<not> v6))"
    using o(1) same(2) by (simp add: rep_frame [OF same(1)])
  have dom': "dom (nodes tb') = set (addrs t) \<union> set (addrs (T (\<not> v6)))"
    using dom rep_addrs_some [OF r] rep_addrs_some [OF o'] by blast
  have "set (addrs ((T(v6 := t)) False)) \<inter> set (addrs ((T(v6 := t)) True)) = {}"
    "dom (nodes tb') = set (addrs ((T(v6 := t)) False)) \<union> set (addrs ((T(v6 := t)) True))"
    using w(3) dom' by (cases v6; auto)+
  moreover have "{a. \<exists>v q. (q, p, a) \<in> ents ((T(v6 := t)) v)} =
      {a. \<exists>q. (q, p, a) \<in> ents t \<union> ents (T (\<not> v6))}" for p
    by (cases v6) (auto simp: ex_bool_eq)
  ultimately show ?thesis
    unfolding tb_rep_def bool_all_split [of _ v6] using r w o o' lists by simp
qed

text \<open>The table with a new, unlinked node.\<close>

lemma new_peer_node_simps:
  "nodes (new_peer_node tb a p key c bs) =
     (nodes tb)(a \<mapsto> copy_and_assign_cidr (zero_node\<lparr>peer := Some p\<rparr>) key c bs)"
  "root_of (new_peer_node tb a p key c bs) v = root_of tb v"
  "peer_lists (new_peer_node tb a p key c bs) = (peer_lists tb)(p := peer_lists tb p @ [a])"
  by (simp_all add: new_peer_node_def list_add_tail_def root_of_def)

lemma add_ins_point:
  fixes p :: peer_id
  assumes tr: "tb_rep tb T" and key: "width v6 div 8 \<le> length key" "unat c \<le> width v6"
    and fr: "new \<notin> dom (nodes tb)" and pl: "tplace (take (unat c) (key_bits (width v6) key)) (T v6) = (fs, u)"
  defines "tb1 \<equiv> new_peer_node tb new p key c (of_nat (width v6))"
  obtains s b hp where "ins_point tb1 v6 (width v6) key c p new (node_at tb1 new) fs s b hp u"
    "ctx (nodes tb) (width v6) (RootSlot v6, 2) (root_of tb v6) fs (s, b) hp"
proof -
  let ?N = "width v6"
  have tp: "plug fs u = T v6" using tplace_plug [OF pl] .
  have "rep (nodes tb) ?N (RootSlot v6, 2) (root_of tb v6) (plug fs u)"
    using tr tp by (simp add: tb_rep_def)
  then obtain s b hp where c: "ctx (nodes tb) ?N (RootSlot v6, 2) (root_of tb v6) fs (s, b) hp"
    and u: "rep (nodes tb) ?N (s, b) hp u" unfolding rep_plug by force
  have nw: "new \<notin> set (addrs (plug fs u))"
    using tr fr tp unfolding tb_rep_def by (cases v6) auto
  have c1: "ctx (nodes tb1) ?N (RootSlot v6, 2) (root_of tb1 v6) fs (s, b) hp"
    using c nw unfolding tb1_def new_peer_node_simps by (subst ctx_frame) (auto simp: set_addrs_plug)
  have u1: "rep (nodes tb1) ?N (s, b) hp u"
    using u nw unfolding tb1_def new_peer_node_simps by (subst rep_frame) (auto simp: set_addrs_plug)
  let ?z = "zero_node\<lparr>peer := Some p\<rparr>"
  have z: "length (bits ?z) = 16" "peer ?z = Some p" by (simp_all add: zero_node_def)
  have n1: "node_at tb1 new = copy_and_assign_cidr ?z key c (of_nat ?N)"
    by (simp add: tb1_def node_at_def new_peer_node_simps)
  note ok = node_ok_assign [OF width_cases key z]
  have "bit0 (node_at tb1 new) = None" "bit1 (node_at tb1 new) = None"
    by (simp_all add: n1 copy_and_assign_cidr_def zero_node_def)
  moreover have "nodes tb1 new = Some (node_at tb1 new)" by (simp add: tb1_def node_at_def new_peer_node_simps)
  moreover have "distinct (addrs (plug fs u))" using tr tp by (simp add: tb_rep_def)
  moreover have "prefix (hole_bound [] fs) (take (unat c) (key_bits ?N key))"
    by (rule tplace_hole_bound [OF pl]) simp
  ultimately have "ins_point tb1 v6 ?N key c p new (node_at tb1 new) fs s b hp u"
    unfolding ins_point_def using width_cases key c1 u1 nw ok n1 by simp
  then show ?thesis using that c by blast
qed

lemma wft_no_exact:
  "wft N b t \<Longrightarrow> tplace k t = (fs, u) \<Longrightarrow> exact_at k u = None \<Longrightarrow> (k, p, a) \<notin> ents t"
proof
  assume w: "wft N b t" and pl: "tplace k t = (fs, u)" and ex: "exact_at k u = None"
    and k: "(k, p, a) \<in> ents t"
  have t: "plug fs u = t" using tplace_plug [OF pl] .
  then have "(k, p, a) \<in> ents u" using k tplace_frames_ents [OF pl w] ents_plug [of fs u] by auto
  then obtain a' q pr l r where u: "u = PNd a' q pr l r" by (cases u) auto
  have "wft N q u" using wft_hole [of N b fs u] w t u by auto
  then have "prefix q k" using wft_ents_prefix \<open>(k, p, a) \<in> ents u\<close> by blast
  then show False using tplace_stop [OF pl [unfolded u]] ex u by auto
qed

text \<open>A finished insertion of a new node gives the table of the tree with the prefix.\<close>

lemma ins_done_tb_rep:
  assumes tr: "tb_rep tb T" and c: "unat c \<le> width v6" and fr: "(insert new F) \<inter> dom (nodes tb) = {}"
    and pl: "tplace k (T v6) = (fs, u)" and k: "k = take (unat c) (key_bits (width v6) key)"
    and ex: "exact_at k u = None"
    and d: "ins_done (new_peer_node tb new p key c (of_nat (width v6))) tb' v6 (width v6)
              (plug fs (graft k p new split u)) (plug fs u) (insert new F)"
  shows "tb_rep tb' (T(v6 := tinsert k p new split (T v6)))"
proof -
  let ?t = "plug fs (graft k p new split u)"
  have t: "tinsert k p new split (T v6) = ?t" by (simp add: tinsert_def pl)
  have tp: "plug fs u = T v6" using tplace_plug [OF pl] .
  have w: "wft (width v6) [] (T v6)" using tr by (simp add: tb_rep_def)
  have disj: "set (addrs (T v6)) \<inter> set (addrs (T (\<not> v6))) = {}"
    and dm: "dom (nodes tb) = set (addrs (T v6)) \<union> set (addrs (T (\<not> v6)))"
    and ls: "\<And>p. set (peer_lists tb p) = {a. \<exists>q. (q, p, a) \<in> ents (T v6) \<union> ents (T (\<not> v6))}"
    "\<And>p. distinct (peer_lists tb p)"
    using tr unfolding tb_rep_def by (cases v6; auto simp: ex_bool_eq)+
  note dd = d [unfolded ins_done_def touch_def new_peer_node_simps tp]
  have sub: "insert new (set (addrs (T v6))) \<subseteq> set (addrs ?t)"
    using graft_addrs(2) [OF ex] by (auto simp: set_addrs_plug tp [symmetric])
  have "(q, p', a) \<in> ents ?t \<longleftrightarrow> (q, p', a) \<in> insert (k, p, new) (ents (T v6))" for q p' a
    using tinsert_ents [OF w pl, of q p' a p new split] ex wft_no_exact [OF w pl ex, of p' a]
    by (auto simp: t split: if_splits)
  then have e: "ents ?t = insert (k, p, new) (ents (T v6))" by (simp add: set_eq_iff split_paired_all)
  have new: "new \<notin> set (addrs (T v6))" "new \<notin> set (addrs (T (\<not> v6)))" using fr dm by auto
  have old: "(q, p', new) \<notin> ents (T v)" for q p' v
    using new ents_addrs by (cases "v = v6") auto
  have pls: "peer_lists tb' = (peer_lists tb)(p := peer_lists tb p @ [new])" using dd by simp
  show ?thesis
    unfolding t
  proof (rule tb_rep_change [OF tr])
    show "rep (nodes tb') (width v6) (RootSlot v6, 2) (root_of tb' v6) ?t" "distinct (addrs ?t)"
      using dd by auto
    show "wft (width v6) [] ?t"
      unfolding t [symmetric] by (rule tinsert_wft [OF w]) (simp_all add: k)
    show dj: "set (addrs ?t) \<inter> set (addrs (T (\<not> v6))) = {}" using dd disj fr dm by auto
    show "nodes tb' a = nodes tb a" if "a \<in> set (addrs (T (\<not> v6)))" for a
    proof -
      have "a \<notin> set (addrs ?t)" "a \<noteq> new" using that dj new by auto
      then show ?thesis using dd by (auto simp: fun_upd_def)
    qed
    show "root_of tb' (\<not> v6) = root_of tb (\<not> v6)" using dd by simp
    show "dom (nodes tb') \<subseteq> set (addrs ?t) \<union> set (addrs (T (\<not> v6)))"
    proof
      fix x assume x: "x \<in> dom (nodes tb')"
      show "x \<in> set (addrs ?t) \<union> set (addrs (T (\<not> v6)))"
      proof (cases "x \<in> set (addrs ?t)")
        case False
        then have "x \<noteq> new" using sub by auto
        then have "nodes tb' x = nodes tb x" using dd False by auto
        then show ?thesis using x dm sub by (auto simp: dom_def)
      qed simp
    qed
    fix p'
    show "distinct (peer_lists tb' p')"
      using ls old by (simp add: pls)
    show "set (peer_lists tb' p') = {a. \<exists>q. (q, p', a) \<in> ents ?t \<union> ents (T (\<not> v6))}"
      by (auto simp: pls ls(1) e)
  qed
qed

lemma at_exact:
  assumes "wft N b t" "tplace k t = (fs, u)" "exact_at k u = Some a" "(k, p, x) \<in> ents t"
  shows "x = a"
proof -
  obtain pr l r where u: "u = PNd a k pr l r" using assms(3) by (auto simp: exact_at_Some)
  have t: "plug fs u = t" using tplace_plug [OF assms(2)] .
  have "wft N (hole_bound b fs) u" using wft_hole assms(1) t by metis
  then have "wft N (k @ [False]) l" "wft N (k @ [True]) r" by (simp_all add: u)
  then have "(k, p, x) \<notin> ents l" "(k, p, x) \<notin> ents r"
    by (auto dest: wft_ents_prefix)
  moreover have "(k, p, x) \<notin> frames_ents fs" using tplace_frames_ents [OF assms(2,1)] .
  ultimately show ?thesis
    using assms(4) ents_plug [of fs u] t u by (auto split: option.splits)
qed

text \<open>Facts of a table, seen from the tree of \<open>v6\<close>.\<close>

lemma tb_rep_view:
  assumes "tb_rep tb T"
  shows "rep (nodes tb) (width v6) (RootSlot v6, 2) (root_of tb v6) (T v6)" "wft (width v6) [] (T v6)"
    "distinct (addrs (T v6))" "set (addrs (T v6)) \<inter> set (addrs (T (\<not> v6))) = {}"
    "dom (nodes tb) = set (addrs (T v6)) \<union> set (addrs (T (\<not> v6)))"
    "\<And>p. set (peer_lists tb p) = {a. \<exists>q. (q, p, a) \<in> ents (T v6) \<union> ents (T (\<not> v6))}"
  using assms unfolding tb_rep_def by (cases v6; auto simp: ex_bool_eq)+

lemma tb_rep_distinct: "tb_rep tb T \<Longrightarrow> distinct (peer_lists tb p)"
  by (simp add: tb_rep_def)

text \<open>The prefix is there already: only the peer of its node changes.\<close>

lemma add_exact_tb_rep:
  assumes tr: "tb_rep tb T" and c: "length k \<le> width v6"
    and pl: "tplace k (T v6) = (fs, u)" and ex: "exact_at k u = Some a"
  shows "tb_rep (list_move_tail a p (tb\<lparr>nodes := (nodes tb)(a \<mapsto> (node_at tb a)\<lparr>peer := Some p\<rparr>)\<rparr>))
           (T(v6 := tinsert k p new split (T v6)))"
proof -
  let ?tb' = "list_move_tail a p (tb\<lparr>nodes := (nodes tb)(a \<mapsto> (node_at tb a)\<lparr>peer := Some p\<rparr>)\<rparr>)"
  obtain pr l r where u: "u = PNd a k pr l r" using ex by (auto simp: exact_at_Some)
  let ?t = "plug fs (PNd a k (Some p) l r)"
  have t: "tinsert k p new split (T v6) = ?t" by (simp add: tinsert_def pl u graft_def)
  have tp: "plug fs (PNd a k pr l r) = T v6" using tplace_plug [OF pl] u by simp
  note v = tb_rep_view [OF tr, where ?v6.0 = v6]
  have ad: "set (addrs ?t) = set (addrs (T v6))" "distinct (addrs ?t)" "a \<in> set (addrs (T v6))"
    using v(3) by (auto simp: tp [symmetric] set_addrs_plug distinct_addrs_plug)
  have sel: "nodes ?tb' = (nodes tb)(a \<mapsto> (the (nodes tb a))\<lparr>peer := Some p\<rparr>)"
    "root_of ?tb' w = root_of tb w"
    "peer_lists ?tb' q = removeAll a (peer_lists tb q) @ (if q = p then [a] else [])" for w q
    by (simp_all add: list_move_tail_def list_add_tail_def list_del_def node_at_def root_of_def)
  have at: "(q, p', a) \<in> ents (T v6) \<Longrightarrow> q = k" for q p'
    using ents_at [of fs a k pr l r q p'] v(3) tp by simp
  have e: "(q, p', x) \<in> ents ?t \<longleftrightarrow> (q, p', x) = (k, p, a) \<or> (q, p', x) \<in> ents (T v6) \<and> x \<noteq> a" for q p' x
  proof (cases "q = k")
    case True
    then show ?thesis
      using tinsert_ents [OF v(2) pl, of k p' x p new split] ex at_exact [OF v(2) pl ex, of p' x]
      by (auto simp: t)
  next
    case False
    then have "(q, p', x) \<in> ents ?t \<longleftrightarrow> (q, p', x) \<in> ents (T v6)"
      using tinsert_ents [OF v(2) pl, of q p' x p new split] by (simp add: t)
    then show ?thesis using False at [of q p'] by auto
  qed
  have no: "(q, p', a) \<notin> ents (T (\<not> v6))" for q p' using ents_addrs ad(3) v(4) by blast
  show ?thesis
    unfolding t
  proof (rule tb_rep_change [OF tr])
    show "rep (nodes ?tb') (width v6) (RootSlot v6, 2) (root_of ?tb' v6) ?t"
      unfolding sel using set_peer_rep v(1,3) tp by metis
    show "wft (width v6) [] ?t" unfolding t [symmetric] by (rule tinsert_wft [OF v(2) _ c]) simp
    show "dom (nodes ?tb') \<subseteq> set (addrs ?t) \<union> set (addrs (T (\<not> v6)))"
      unfolding sel using v(5) ad by auto
    fix p'
    show "distinct (peer_lists ?tb' p')" using tb_rep_distinct [OF tr] by (simp add: sel distinct_removeAll)
    show "set (peer_lists ?tb' p') = {x. \<exists>q. (q, p', x) \<in> ents ?t \<union> ents (T (\<not> v6))}"
      using no by (auto simp: sel v(6) e)
  qed (use ad v(4) sel in auto)
qed

lemma add_above_oom:
  assumes ip: "ins_point (new_peer_node tb new p key c (of_nat N)) v6 N key c p new n1 fs s b hp u"
    and u: "u = PNd a q pr l r" and fr: "new \<notin> dom (nodes tb)" "\<And>p. new \<notin> set (peer_lists tb p)"
  defines "k \<equiv> take (unat c) (key_bits N key)"
  assumes np: "q \<noteq> k" "\<not> prefix q k" and len: "length (longest_common_prefix k q) \<noteq> length k"
  shows "add_above (new_peer_node tb new p key c (of_nat N)) v6 (of_nat N) key c new (last_addr None fs) a None =
    (Some ENOMEM, tb)"
proof -
  let ?tb = "new_peer_node tb new p key c (of_nat N)"
  note f = ip [unfolded ins_point_def, folded k_def]
  have N: "N = 32 \<or> N = 128" "N div 8 \<le> length key" "unat c \<le> N" using f by auto
  have nd: "node_ok N (node_at ?tb a) q pr"
    using f u by (auto simp: node_at_def split: option.splits)
  have n1: "node_at ?tb new = n1" "cidr n1 = c"
    using f ins_point_facts(1) [OF ip, folded k_def] by (auto simp: node_at_def node_ok_def word_unat_eq_iff)
  have "unat (min c (common_bits (node_at ?tb a) key (of_nat N))) \<noteq> unat c"
    using split_length [OF N nd k_def [THEN meta_eq_to_obj_eq] np(2)] len
      ins_point_facts(1) [OF ip, folded k_def] by simp
  then have "cidr n1 \<noteq> min c (common_bits (node_at ?tb a) key (of_nat N))"
    using n1(2) by auto
  then have "add_above ?tb v6 (of_nat N) key c new (last_addr None fs) a None =
    (Some ENOMEM, (list_del new ?tb)\<lparr>nodes := (nodes ?tb)(new := None)\<rparr>)"
    by (simp add: add_above_def n1(1) Let_def)
  moreover have "(nodes ?tb)(new := None) = nodes tb"
    using fr(1) by (auto simp: new_peer_node_simps)
  moreover have "peer_lists (list_del new ?tb) = peer_lists tb"
    using fr(2) by (auto simp: list_del_def new_peer_node_simps)
  ultimately show ?thesis by (simp add: list_del_def new_peer_node_def list_add_tail_def)
qed

text \<open>The part of \<^verbatim>\<open>add\<close> after the allocation of the new node.\<close>

lemma add_new_node:
  fixes p :: peer_id
  assumes tr: "tb_rep tb T" and key: "width v6 div 8 \<le> length key" "unat c \<le> width v6"
    and fr: "new \<notin> dom (nodes tb)" "\<And>m. mem = Some m \<Longrightarrow> m \<notin> dom (nodes tb) \<and> m \<noteq> new"
  defines "k \<equiv> take (unat c) (key_bits (width v6) key)"
    and "tb1 \<equiv> new_peer_node tb new p key c (of_nat (width v6))"
  assumes pl: "tplace k (T v6) = (fs, u)" and ex: "exact_at k u = None" and u: "u = PNd a q pr l r"
  shows "\<exists>e tb'. add_above tb1 v6 (of_nat (width v6)) key c new (last_addr None fs) a mem = (e, tb') \<and>
     (e = None \<and> tb_rep tb' (T(v6 := tinsert k p new (the mem) (T v6))) \<or>
      e = Some ENOMEM \<and> mem = None \<and> tb' = tb)"
proof -
  let ?N = "width v6"
  obtain s b hp where ip: "ins_point tb1 v6 ?N key c p new (node_at tb1 new) fs s b hp u"
    using add_ins_point [OF tr key fr(1) pl [unfolded k_def], of p, folded tb1_def] by blast
  have q: "q \<noteq> k" "\<not> prefix q k" using ex u tplace_stop [OF pl [unfolded u]] by auto
  note fin = ins_done_tb_rep [OF tr key(2) _ pl k_def [THEN meta_eq_to_obj_eq] ex, folded tb1_def]
  have tp: "plug fs u = T v6" using tplace_plug [OF pl] .
  show ?thesis
  proof (cases "length (longest_common_prefix k q) = length k")
    case True
    then obtain tb' where "add_above tb1 v6 (of_nat ?N) key c new (last_addr None fs) a mem = (None, tb')"
      "ins_done tb1 tb' v6 ?N (plug fs (graft k p new (the mem) u)) (plug fs u) {new}"
      using add_above_direct [OF ip u, folded k_def, OF q] by blast
    then show ?thesis using fin [of new "{}" p tb' "the mem"] fr(1) by (auto simp: tb1_def)
  next
    case False
    show ?thesis
    proof (cases mem)
      case None
      have "new \<notin> set (peer_lists tb p)" for p
        using tb_rep_view(6) [OF tr, of p v6] tb_rep_view(5) [OF tr, of v6] fr(1) ents_addrs by blast
      then show ?thesis
        using add_above_oom [OF ip [unfolded tb1_def] u fr(1), folded k_def, OF _ q False] None
        by (simp add: tb1_def)
    next
      case (Some split)
      then have "split \<noteq> new" "split \<notin> set (addrs (plug fs u))"
        using fr(2) tb_rep_view(5) [OF tr, of v6] by (auto simp: tp)
      then obtain tb' where "add_above tb1 v6 (of_nat ?N) key c new (last_addr None fs) a mem = (None, tb')"
        "ins_done tb1 tb' v6 ?N (plug fs (graft k p new split u)) (plug fs u) {new, split}"
        using add_above_split [OF ip u, folded k_def, OF q False] Some by blast
      then show ?thesis using fin [of new "{split}" p tb' split] fr Some by (auto simp: tb1_def)
    qed
  qed
qed

text \<open>
  Without a tree in the hole the new node becomes a leaf there: at the empty root or at a
  node that has no child on that side.
\<close>

lemma add_new_leaf:
  fixes p :: peer_id
  assumes tr: "tb_rep tb T" and key: "width v6 div 8 \<le> length key" "unat c \<le> width v6"
    and fr: "new \<notin> dom (nodes tb)"
  defines "k \<equiv> take (unat c) (key_bits (width v6) key)"
    and "tb1 \<equiv> new_peer_node tb new p key c (of_nat (width v6))"
  assumes pl: "tplace k (T v6) = (fs, PLf)"
    and c: "ctx (nodes tb) (width v6) (RootSlot v6, 2) (root_of tb v6) fs (s, b) hp"
  shows "tb_rep (connect_node tb1 s b new) (T(v6 := tinsert k p new split (T v6)))"
proof -
  let ?N = "width v6" and ?g = "PNd new k (Some p) PLf PLf"
  obtain s' b' hp' where ip: "ins_point tb1 v6 ?N key c p new (node_at tb1 new) fs s' b' hp' PLf"
    and c': "ctx (nodes tb) ?N (RootSlot v6, 2) (root_of tb v6) fs (s', b') hp'"
    using add_ins_point [OF tr key fr pl [unfolded k_def], of p, folded tb1_def] by blast
  have sb: "s' = s" "b' = b"
    using c c' ctx_slot [OF c] ctx_slot [OF c'] by (cases "fs = []"; auto)+
  note f = ip [unfolded ins_point_def sb, folded k_def]
  have c1: "ctx (nodes tb1) ?N (RootSlot v6, 2) (root_of tb1 v6) fs (s, b) hp'" using f by blast
  have d: "distinct (addrs (plug fs ?g))" using f by (auto simp: distinct_addrs_plug set_addrs_plug)
  have r: "rep (nodes tb1) ?N (parent_bit_packed (node_at tb1 new)) (Some new) ?g"
    using ins_point_facts(3) [OF ip, folded k_def] .
  have tc: "touch tb1 (connect_node tb1 s b new) (set (addrs (plug fs ?g))) v6"
    by (rule touch_mono [OF touch_connect [OF ctx_slot_cases(1) [OF c1]]])
      (use ctx_slot_cases(2) [OF c1] in \<open>auto simp: set_addrs_plug\<close>)
  have "ins_done tb1 (connect_node tb1 s b new) v6 ?N (plug fs (graft k p new split PLf)) (plug fs PLf) {new}"
    unfolding ins_done_def using connect_trie [OF c1 r d] d tc
    by (auto simp: graft_def set_addrs_plug)
  then show ?thesis
    using ins_done_tb_rep [OF tr key(2) _ pl k_def [THEN meta_eq_to_obj_eq], of new "{}" p _ split, folded tb1_def] fr
    by (auto simp: tb1_def)
qed

lemma add_unfold:
  assumes tr: "tb_rep tb T" and key: "width v6 div 8 \<le> length key" "unat c \<le> width v6"
    and c: "ctx (nodes tb) (width v6) (RootSlot v6, 2) (root_of tb v6) fs (s, b) hp"
    and ru: "rep (nodes tb) (width v6) (s, b) hp u"
    and root: "root_of tb v6 = Some root" and fr: "new \<notin> dom (nodes tb)"
    and pl: "tplace (take (unat c) (key_bits (width v6) key)) (T v6) = (fs, u)"
    and place: "node_placement tb (Some root) key c (of_nat (width v6)) = Some (False, last_addr None fs)"
  shows "add tb v6 (of_nat (width v6)) key c (Some p) (Some new) mem2 =
          (let tb1 = new_peer_node tb new p key c (of_nat (width v6))
           in case u of
              PLf \<Rightarrow> Some (None, connect_node tb1 s b new)
            | PNd a q pr l r \<Rightarrow>
                Some (add_above tb1 v6 (of_nat (width v6)) key c new (last_addr None fs) a mem2))"
proof -
  let ?N = "width v6"
  let ?tb1 = "new_peer_node tb new p key c (of_nat ?N)"
  have le: "\<not> c > of_nat ?N"
    using key(2) unat_of_nat_u8 [OF width_cases, of v6] by (simp add: word_less_nat_alt)
  show ?thesis
  proof (cases "fs = []")
    case True
    then have "hp = Some root" using c root by simp
    then obtain q pr l r where "u = PNd root q pr l r" using ru by (cases u) auto
    then show ?thesis using True root place le by (simp add: add_def last_addr_def)
  next
    case False
    have pre: "prefix (hole_bound [] fs) (key_bits ?N key)"
      by (rule prefix_order.trans [OF tplace_hole_bound [OF pl] take_is_prefix]) simp
    obtain n where n: "nodes tb (frame_addr (last fs)) = Some n" "choose_bit n key = frame_dir (last fs)"
      "node_bit n (frame_dir (last fs)) = hp"
      using ctx_choose [OF width_cases c False pre] .
    then have n1: "node_at ?tb1 (frame_addr (last fs)) = n"
      using fr by (auto simp: node_at_def new_peer_node_simps)
    have sb: "s = BitSlot (frame_addr (last fs)) (frame_dir (last fs))" "b = of_bool (frame_dir (last fs))"
      using ctx_slot [OF c False] by auto
    show ?thesis
    proof (cases u)
      case PLf
      then show ?thesis using ru n n1 False root place le sb by (simp add: add_def last_addr_def)
    next
      case (PNd a q pr l r)
      then have "hp = Some a" using ru by simp
      then show ?thesis using PNd n n1 False root place le by (simp add: add_def last_addr_def)
    qed
  qed
qed

lemma add_rep:
  assumes tr: "tb_rep tb T" and key: "width v6 div 8 \<le> length key" "unat c \<le> width v6"
    and fr: "\<And>m. mem1 = Some m \<Longrightarrow> m \<notin> dom (nodes tb)"
      "\<And>m. mem2 = Some m \<Longrightarrow> m \<notin> dom (nodes tb) \<and> mem1 \<noteq> Some m"
  defines "k \<equiv> take (unat c) (key_bits (width v6) key)"
  shows "\<exists>e tb'. add tb v6 (of_nat (width v6)) key c (Some p) mem1 mem2 = Some (e, tb') \<and>
     (e = None \<and> tb_rep tb' (T(v6 := tinsert k p (the mem1) (the mem2) (T v6))) \<or>
      e = Some ENOMEM \<and> (mem1 = None \<or> mem2 = None) \<and> tb' = tb)"
proof -
  let ?N = "width v6"
  note v = tb_rep_view [OF tr, where ?v6.0 = v6]
  obtain fs u where pl: "tplace k (T v6) = (fs, u)" by force
  have tp: "plug fs u = T v6" using tplace_plug [OF pl] .
  obtain s b hp where c: "ctx (nodes tb) ?N (RootSlot v6, 2) (root_of tb v6) fs (s, b) hp"
    and ru: "rep (nodes tb) ?N (s, b) hp u" using v(1) unfolding tp [symmetric] rep_plug by force
  have le: "\<not> c > of_nat ?N"
    using key(2) unat_of_nat_u8 [OF width_cases, of v6] by (simp add: word_less_nat_alt)
  show ?thesis
  proof (cases "root_of tb v6")
    case None
    then have "T v6 = PLf" using rep_PLf_iff [OF v(1)] by simp
    then have e: "fs = []" "u = PLf" using pl by auto
    then have sb: "s = RootSlot v6" "b = 2" using c by auto
    show ?thesis
    proof (cases mem1)
      case (Some new)
      show ?thesis
        using add_new_leaf [OF tr key, folded k_def, of new fs s b hp p "the mem2"] pl c e sb fr Some None le
        by (simp add: add_def)
    qed (use None le in \<open>simp add: add_def\<close>)
  next
    case root: (Some root)
    have place: "node_placement tb (root_of tb v6) key c (of_nat ?N) =
        Some (case exact_at k u of Some a \<Rightarrow> (True, Some a) | None \<Rightarrow> (False, last_addr None fs))"
      unfolding node_placement_def
      by (rule node_placement_rep [OF width_cases key v(2) v(1), folded k_def, OF pl])
    show ?thesis
    proof (cases "exact_at k u")
      case (Some a)
      show ?thesis
        using add_exact_tb_rep [OF tr _ pl Some, of p "the mem1" "the mem2"] place Some root le
        by (simp add: add_def k_def)
    next
      case ex: None
      show ?thesis
      proof (cases mem1)
        case None
        then show ?thesis using place ex root le by (simp add: add_def)
      next
        case (Some new)
        have "add tb v6 (of_nat ?N) key c (Some p) mem1 mem2 =
          (let tb1 = new_peer_node tb new p key c (of_nat ?N)
           in case u of
              PLf \<Rightarrow> Some (None, connect_node tb1 s b new)
            | PNd a q pr l r \<Rightarrow>
                Some (add_above tb1 v6 (of_nat ?N) key c new (last_addr None fs) a mem2))"
          using add_unfold [OF tr key c ru root _ pl [unfolded k_def], of new p mem2]
            root place ex Some fr(1) by simp
        then show ?thesis
          using add_new_leaf [OF tr key, folded k_def, of new fs s b hp p "the mem2"]
            add_new_node [OF tr key, folded k_def, of new mem2 fs u _ _ _ _ _ p] pl c ex fr Some
          by (cases u) (auto simp: Let_def)
      qed
    qed
  qed
qed

end
