(* ===== verification/WG_AllowedIPs_Remove.thy ===== *)
theory WG_AllowedIPs_Remove
  imports WG_AllowedIPs_Insert
begin

text \<open>
  Removal of a peer's entries and freeing of whole tables.
\<close>

section \<open>Definitions\<close>

text \<open>The node in its tree, before the removal.\<close>

definition rem_point where
  "rem_point tb v6 N a fs q pr l r s b n \<longleftrightarrow>
     ctx (nodes tb) N (RootSlot v6, 2) (root_of tb v6) fs (s, b) (Some a) \<and>
     nodes tb a = Some n \<and> node_ok N n q pr \<and> parent_bit_packed n = (s, b) \<and>
     rep (nodes tb) N (BitSlot a False, 0) (bit0 n) l \<and> rep (nodes tb) N (BitSlot a True, 1) (bit1 n) r \<and>
     distinct (addrs (plug fs (PNd a q pr l r)))"

text \<open>
  The stack of a traversal stands for a list of trees, and leaves room for what they will
  push: below a tree of height \<open>h\<close> there are at most \<open>MAX_ALLOWEDIPS_DEPTH - h\<close> others.
\<close>

fun stack_room :: "ptrie list \<Rightarrow> bool" where
  "stack_room [] \<longleftrightarrow> True"
| "stack_room (t # ts) \<longleftrightarrow> length ts + theight t \<le> MAX_ALLOWEDIPS_DEPTH \<and> stack_room ts"

definition rooted :: "(addr \<rightharpoonup> allowedips_node) \<Rightarrow> nat \<Rightarrow> addr \<Rightarrow> ptrie \<Rightarrow> bool" where
  "rooted h N a t \<longleftrightarrow> (\<exists>sb. rep h N sb (Some a) t)"

definition stack_rep :: "(addr \<rightharpoonup> allowedips_node) \<Rightarrow> nat \<Rightarrow> addr list \<Rightarrow> ptrie list \<Rightarrow> bool" where
  "stack_rep h N stack ts \<longleftrightarrow>
     list_all2 (rooted h N) stack ts \<and>
     distinct (concat (map addrs ts)) \<and> stack_room ts"

definition children :: "ptrie \<Rightarrow> ptrie \<Rightarrow> ptrie list" where
  "children l r = filter (\<lambda>t. t \<noteq> PLf) [r, l]"

definition peered :: "ptrie list \<Rightarrow> addr set" where
  "peered ts = {a. \<exists>q p. (q, p, a) \<in> (\<Union>t \<in> set ts. ents t)}"

section \<open>Replacing the tree in a hole\<close>

lemma set_parent_bit_sel [simp]:
  "root_of (set_parent_bit tb c x) v = root_of tb v"
  "peer_lists (set_parent_bit tb c x) = peer_lists tb"
  "seq (set_parent_bit tb c x) = seq tb"
  by (auto simp: set_parent_bit_def root_of_def split: option.splits)

lemma free_node_sel [simp]:
  "root_of (free_node tb a) v = root_of tb v" "peer_lists (free_node tb a) = peer_lists tb"
  "nodes (free_node tb a) = (nodes tb)(a := None)" "seq (free_node tb a) = seq tb"
  by (auto simp: free_node_def root_of_def)

lemma replace_trie:
  assumes c: "ctx (nodes tb) N (RootSlot v6, 2) (root_of tb v6) fs (s, b) hp"
    and w: "rep (nodes tb) N sb' hp' w" and d: "distinct (addrs (plug fs w))"
  defines "tb2 \<equiv> replace_child tb (s, b) hp'"
  shows "rep (nodes tb2) N (RootSlot v6, 2) (root_of tb2 v6) (plug fs w)"
    and "touch tb tb2 (set (addrs w) \<union> set (frames_addrs fs)) v6"
proof -
  have ss: "s \<noteq> RootSlot (\<not> v6)" "slot_addrs s \<subseteq> set (frames_addrs fs)"
    using ctx_slot_cases [OF c] by auto
  show "rep (nodes tb2) N (RootSlot v6, 2) (root_of tb2 v6) (plug fs w)"
  proof (cases hp')
    case None
    then have w': "w = PLf" using rep_PLf_iff [OF w] by simp
    have eq: "tb2 = slot_set tb s None" by (simp add: tb2_def None set_parent_bit_def replace_child_def)
    show ?thesis
    proof (cases "fs = []")
      case True
      then show ?thesis using c w' by (auto simp: eq root_of_slot_set)
    next
      case False
      then have "s \<noteq> RootSlot v6" using ctx_slot [OF c] by auto
      moreover have "distinct (frames_addrs fs)" using d by (simp add: distinct_addrs_plug)
      ultimately show ?thesis
        using ctx_upd [OF c False, of None] w' by (auto simp: eq root_of_slot_set rep_plug)
    qed
  next
    case (Some a)
    then have "tb2 = connect_node tb s b a"
      by (simp add: tb2_def set_parent_bit_def connect_node_def replace_child_def)
    then show ?thesis using connect_trie [OF c w [unfolded Some] d] by simp
  qed
  have "nodes tb2 x = nodes tb x" if "x \<notin> set (addrs w)" "x \<notin> set (frames_addrs fs)" for x
  proof -
    have "nodes tb2 x = nodes (set_parent_bit tb hp' (s, b)) x"
      unfolding tb2_def using ss that by (auto simp: replace_child_def intro!: slot_upd_other)
    moreover have "hp' \<noteq> Some x" using w that by (cases w) auto
    ultimately show ?thesis by (auto simp: set_parent_bit_def split: option.splits)
  qed
  then show "touch tb tb2 (set (addrs w) \<union> set (frames_addrs fs)) v6"
    using ss by (auto simp: touch_def tb2_def root_of_slot_set replace_child_def)
qed

section \<open>Removal of one node\<close>

text \<open>What remains to be shown about a finished removal of the node \<open>a\<close>.\<close>

lemma remove_done:
  assumes tr: "tb_rep tb T" and a: "a \<in> set (addrs (T v6))"
    and r: "rep (nodes tb') (width v6) (RootSlot v6, 2) (root_of tb' v6) (tdel a (T v6))"
    and t: "distinct (addrs (tdel a (T v6)))" "set (addrs (tdel a (T v6))) \<subseteq> set (addrs (T v6))"
    and gone: "\<And>x. x \<in> set (addrs (T v6)) \<Longrightarrow> x \<notin> set (addrs (tdel a (T v6))) \<Longrightarrow> nodes tb' x = None"
    and same: "\<And>x. x \<notin> set (addrs (T v6)) \<Longrightarrow> nodes tb' x = nodes tb x"
      "root_of tb' (\<not> v6) = root_of tb (\<not> v6)"
    and lists: "peer_lists tb' = (\<lambda>p. removeAll a (peer_lists tb p))"
  shows "tb_rep tb' (T(v6 := tdel a (T v6)))"
proof -
  note v = tb_rep_view [OF tr, where ?v6.0 = v6]
  have no: "(q, p, a) \<notin> ents (T (\<not> v6))" for q p using ents_addrs a v(4) by blast
  show ?thesis
  proof (rule tb_rep_change [OF tr r])
    show "wft (width v6) [] (tdel a (T v6))" by (rule tdel_wft [OF v(2)])
    show "dom (nodes tb') \<subseteq> set (addrs (tdel a (T v6))) \<union> set (addrs (T (\<not> v6)))"
    proof
      fix x assume x: "x \<in> dom (nodes tb')"
      show "x \<in> set (addrs (tdel a (T v6))) \<union> set (addrs (T (\<not> v6)))"
      proof (cases "x \<in> set (addrs (T v6))")
        case True
        then show ?thesis using gone [of x] x by (cases "x \<in> set (addrs (tdel a (T v6)))") auto
      next
        case False
        then have "x \<in> dom (nodes tb)" using same(1) x by (auto simp: dom_def)
        then show ?thesis using v(5) False by auto
      qed
    qed
    fix p
    show "distinct (peer_lists tb' p)" using tb_rep_distinct [OF tr] by (simp add: lists distinct_removeAll)
    show "set (peer_lists tb' p) = {x. \<exists>q. (q, p, x) \<in> ents (tdel a (T v6)) \<union> ents (T (\<not> v6))}"
      using no by (auto simp: lists v(6) tdel_ents [OF v(3)])
  qed (use t v(4) same in auto)
qed

lemma unlink_sel:
  "nodes (unlink_peer tb a) = (nodes tb)(a \<mapsto> (node_at tb a)\<lparr>peer := None\<rparr>)"
  "root_of (unlink_peer tb a) v = root_of tb v"
  "peer_lists (unlink_peer tb a) = (\<lambda>p. removeAll a (peer_lists tb p))"
  by (simp_all add: unlink_peer_def list_del_def root_of_def)

lemma tb_rep_rem_point:
  assumes tr: "tb_rep tb T" and a: "a \<in> set (addrs (T v6))"
  obtains fs q pr l r s b n where "rem_point tb v6 (width v6) a fs q pr l r s b n"
    "T v6 = plug fs (PNd a q pr l r)" "tdel a (T v6) = tprune fs (PNd a q pr l r)"
proof -
  note v = tb_rep_view [OF tr, where ?v6.0 = v6]
  obtain fs u where loc: "tlocate a (T v6) = Some (fs, u)"
    using a tlocate_None [of a "T v6"] by (cases "tlocate a (T v6)") auto
  then obtain q pr l r where t: "plug fs u = T v6" "u = PNd a q pr l r"
    using tlocate_plug by blast
  obtain s b hp where "ctx (nodes tb) (width v6) (RootSlot v6, 2) (root_of tb v6) fs (s, b) hp"
    "rep (nodes tb) (width v6) (s, b) hp u"
    using v(1) unfolding t(1) [symmetric] rep_plug by force
  then have "rem_point tb v6 (width v6) a fs q pr l r s b (node_at tb a)"
    using v(3) t by (auto simp: rem_point_def node_at_def t(1) [symmetric] split: option.splits)
  then show ?thesis using that t loc by (simp add: tdel_def)
qed

lemma unlink_ctx:
  assumes "rem_point tb v6 N a fs q pr l r s b n"
  shows "ctx (nodes (unlink_peer tb a)) N (RootSlot v6, 2) (root_of (unlink_peer tb a) v6) fs (s, b) (Some a)"
    and "rep (nodes (unlink_peer tb a)) N (BitSlot a False, 0) (bit0 n) l"
    and "rep (nodes (unlink_peer tb a)) N (BitSlot a True, 1) (bit1 n) r"
  using assms unfolding rem_point_def unlink_sel
  by (subst ctx_frame rep_frame; auto simp: distinct_addrs_plug)+

text \<open>The loop body, when the node does not keep its place.\<close>

lemma remove_node_unfold:
  assumes rp: "rem_point tb v6 N a fs q pr l r s b n" and one: "l = PLf \<or> r = PLf"
  defines "w \<equiv> if l = PLf then r else l" and "hp \<equiv> if l = PLf then bit1 n else bit0 n"
  defines "tb2 \<equiv> replace_child (unlink_peer tb a) (s, b) hp"
  shows "rep (nodes (unlink_peer tb a)) N (if l = PLf then (BitSlot a True, 1) else (BitSlot a False, 0)) hp w"
    and "remove_node tb a =
       (case s of
          RootSlot _ \<Rightarrow> free_node tb2 a
        | BitSlot pa _ \<Rightarrow>
            if \<not> (w = PLf \<and> b \<le> 1 \<and> peer (node_at tb2 pa) = None) then free_node tb2 a
            else
              free_node (replace_child (free_node tb2 a)
                (parent_bit_packed (node_at (free_node tb2 a) pa)) (node_bit (node_at tb2 pa) (b = 0))) pa)"
proof -
  note f = rp [unfolded rem_point_def]
  have c0: "bit0 n = None \<longleftrightarrow> l = PLf" and c1: "bit1 n = None \<longleftrightarrow> r = PLf"
    using f rep_PLf_iff by blast+
  have nl: "node_at (unlink_peer tb a) a = n\<lparr>peer := None\<rparr>"
    using f by (simp add: node_at_def unlink_sel)
  have upd: "bit0 (n\<lparr>peer := None\<rparr>) = bit0 n" "bit1 (n\<lparr>peer := None\<rparr>) = bit1 n"
    "parent_bit_packed (n\<lparr>peer := None\<rparr>) = (s, b)" using f by simp_all
  show "rep (nodes (unlink_peer tb a)) N (if l = PLf then (BitSlot a True, 1) else (BitSlot a False, 0)) hp w"
    using unlink_ctx(2,3) [OF rp] by (simp add: w_def hp_def)
  have nb: "(bit0 n \<noteq> None \<and> bit1 n \<noteq> None) = False" using one c0 c1 by auto
  have nw: "(bit0 n = None \<and> bit1 n = None \<and> X) = (w = PLf \<and> X)" for X
    using one c0 c1 by (auto simp: w_def)
  have h: "(if bit0 n = None then bit1 n else bit0 n) = hp" by (simp add: hp_def c0)
  show "remove_node tb a =
       (case s of
          RootSlot _ \<Rightarrow> free_node tb2 a
        | BitSlot pa _ \<Rightarrow>
            if \<not> (w = PLf \<and> b \<le> 1 \<and> peer (node_at tb2 pa) = None) then free_node tb2 a
            else
              free_node (replace_child (free_node tb2 a)
                (parent_bit_packed (node_at (free_node tb2 a) pa)) (node_bit (node_at tb2 pa) (b = 0))) pa)"
    unfolding remove_node_def Let_def nl
    by (simp only: upd fst_conv snd_conv nb nw h tb2_def if_False)
qed

lemma remove_node_both:
  assumes rp: "rem_point tb v6 N a fs q pr l r s b n" and lr: "l \<noteq> PLf" "r \<noteq> PLf"
  shows "remove_node tb a = unlink_peer tb a"
proof -
  note f = rp [unfolded rem_point_def]
  have "bit0 n \<noteq> None" "bit1 n \<noteq> None" using f lr rep_PLf_iff by blast+
  moreover have "node_at (unlink_peer tb a) a = n\<lparr>peer := None\<rparr>"
    using f by (simp add: node_at_def unlink_sel)
  ultimately show ?thesis by (simp add: remove_node_def Let_def)
qed

text \<open>The first replacement: the node's only child, or nothing, takes its place.\<close>

lemma remove_replaced:
  assumes rp: "rem_point tb v6 N a fs q pr l r s b n" and one: "l = PLf \<or> r = PLf"
  defines "w \<equiv> if l = PLf then r else l" and "hp \<equiv> if l = PLf then bit1 n else bit0 n"
  defines "tb3 \<equiv> free_node (replace_child (unlink_peer tb a) (s, b) hp) a"
  shows "rep (nodes tb3) N (RootSlot v6, 2) (root_of tb3 v6) (plug fs w)"
    and "touch (unlink_peer tb a) tb3 (insert a (set (addrs w) \<union> set (frames_addrs fs))) v6"
    and "distinct (addrs (plug fs w))" "a \<notin> set (addrs (plug fs w))" "nodes tb3 a = None"
proof -
  note f = rp [unfolded rem_point_def]
  let ?tb2 = "replace_child (unlink_peer tb a) (s, b) hp"
  show d: "distinct (addrs (plug fs w))" and na: "a \<notin> set (addrs (plug fs w))"
    using f by (auto simp: distinct_addrs_plug set_addrs_plug w_def)
  note r = replace_trie [OF unlink_ctx(1) [OF rp]
      remove_node_unfold(1) [OF rp one, folded w_def hp_def] d]
  show "rep (nodes tb3) N (RootSlot v6, 2) (root_of tb3 v6) (plug fs w)"
    unfolding tb3_def free_node_sel using r(1) na by (subst rep_frame) auto
  show "touch (unlink_peer tb a) tb3 (insert a (set (addrs w) \<union> set (frames_addrs fs))) v6"
    using r(2) by (auto simp: touch_def tb3_def)
  show "nodes tb3 a = None" by (simp add: tb3_def)
qed

lemma rem_point_slot:
  assumes rp: "rem_point tb v6 N a fs q pr l r s b n"
  shows "fs = [] \<Longrightarrow> s = RootSlot v6"
    and "fs \<noteq> [] \<Longrightarrow> s = BitSlot (frame_addr (last fs)) (frame_dir (last fs))"
    and "fs \<noteq> [] \<Longrightarrow> b = of_bool (frame_dir (last fs))"
  using rp ctx_slot [of "nodes tb" N "(RootSlot v6, 2)" "root_of tb v6" fs s b "Some a"]
  by (auto simp: rem_point_def)

lemma remove_parent_peer:
  assumes rp: "rem_point tb v6 N a fs q pr l r s b n" and one: "l = PLf \<or> r = PLf" and fs: "fs \<noteq> []"
  defines "hp \<equiv> if l = PLf then bit1 n else bit0 n"
  defines "tb2 \<equiv> replace_child (unlink_peer tb a) (s, b) hp"
  shows "peer (node_at tb2 (frame_addr (last fs))) = frame_peer (last fs)"
    and "node_at (free_node tb2 a) (frame_addr (last fs)) = node_at tb2 (frame_addr (last fs))"
proof -
  note r = remove_replaced [OF rp one, folded hp_def, folded tb2_def]
  obtain hs hp' where "ctx (nodes (free_node tb2 a)) N (RootSlot v6, 2) (root_of (free_node tb2 a) v6) fs hs hp'"
    using r(1) unfolding rep_plug by blast
  from ctx_last [OF this fs] obtain n' where
    n': "nodes (free_node tb2 a) (frame_addr (last fs)) = Some n'"
      "node_ok N n' (frame_prefix (last fs)) (frame_peer (last fs))" by blast
  then have "frame_addr (last fs) \<noteq> a" by auto
  then show "node_at (free_node tb2 a) (frame_addr (last fs)) = node_at tb2 (frame_addr (last fs))"
    by (simp add: node_at_def)
  then show "peer (node_at tb2 (frame_addr (last fs))) = frame_peer (last fs)"
    using n' by (simp add: node_at_def node_ok_def)
qed

lemma remove_rep_one:
  assumes tr: "tb_rep tb T" and rp: "rem_point tb v6 (width v6) a fs q pr l r s b n"
    and t: "T v6 = plug fs (PNd a q pr l r)" "tdel a (T v6) = tprune fs (PNd a q pr l r)"
    and one: "l = PLf \<or> r = PLf"
    and keep: "\<not> (l = PLf \<and> r = PLf \<and> fs \<noteq> [] \<and> frame_peer (last fs) = None)"
  shows "tb_rep (remove_node tb a) (T(v6 := tdel a (T v6)))"
proof -
  let ?w = "if l = PLf then r else l" and ?hp = "if l = PLf then bit1 n else bit0 n"
  let ?tb3 = "free_node (replace_child (unlink_peer tb a) (s, b) ?hp) a"
  have w: "?w = PLf \<longleftrightarrow> l = PLf \<and> r = PLf" using one by auto
  have td: "tdel a (T v6) = plug fs ?w" using t(2) one keep by (auto simp: tprune_def Let_def)
  have eq: "remove_node tb a = ?tb3"
  proof (cases "fs = []")
    case True
    then show ?thesis using remove_node_unfold(2) [OF rp one] rem_point_slot(1) [OF rp] by simp
  next
    case False
    then show ?thesis
      using remove_node_unfold(2) [OF rp one] rem_point_slot(2) [OF rp False] keep w
        remove_parent_peer(1) [OF rp one False] by auto
  qed
  note r = remove_replaced [OF rp one]
  have sub: "insert a (set (addrs ?w) \<union> set (frames_addrs fs)) \<subseteq> set (addrs (T v6))"
    by (auto simp: t(1) set_addrs_plug)
  show ?thesis
    unfolding eq
  proof (rule remove_done [OF tr])
    show "a \<in> set (addrs (T v6))" by (simp add: t(1) set_addrs_plug)
    show "set (addrs (tdel a (T v6))) \<subseteq> set (addrs (T v6))"
      unfolding td by (auto simp: t(1) set_addrs_plug)
    show "nodes ?tb3 x = None" if "x \<in> set (addrs (T v6))" "x \<notin> set (addrs (tdel a (T v6)))" for x
    proof -
      have "x = a" using that one unfolding td by (auto simp: t(1) set_addrs_plug split: if_splits)
      then show ?thesis using r(5) by simp
    qed
    show "nodes ?tb3 x = nodes tb x" if "x \<notin> set (addrs (T v6))" for x
    proof -
      have "nodes ?tb3 x = nodes (unlink_peer tb a) x"
        using r(2) that sub unfolding touch_def by blast
      moreover have "x \<noteq> a" using that sub by auto
      ultimately show ?thesis by (simp add: unlink_sel)
    qed
  qed (use r td in \<open>auto simp: touch_def unlink_sel\<close>)
qed

text \<open>The second replacement: the parent without a peer gives way to its other child.\<close>

lemma remove_parent_replaced:
  assumes rep: "rep (nodes tb) N (RootSlot v6, 2) (root_of tb v6) (plug fs PLf)"
    and d: "distinct (addrs (plug fs PLf))" and fs: "fs \<noteq> []"
  defines "pa \<equiv> frame_addr (last fs)"
  defines "tb2 \<equiv> free_node (replace_child tb (parent_bit_packed (node_at tb pa))
             (node_bit (node_at tb pa) (\<not> frame_dir (last fs)))) pa"
  shows "rep (nodes tb2) N (RootSlot v6, 2) (root_of tb2 v6) (plug (butlast fs) (frame_sib (last fs)))"
    and "touch tb tb2 (set (addrs (plug fs PLf))) v6" "nodes tb2 pa = None"
    and "set (addrs (plug fs PLf)) = insert pa (set (addrs (plug (butlast fs) (frame_sib (last fs)))))"
    and "distinct (addrs (plug (butlast fs) (frame_sib (last fs))))"
proof -
  obtain q pr dir sib where f: "last fs = (pa, q, pr, dir, sib)"
    by (cases "last fs") (simp add: pa_def frame_addr_def)
  have pb: "plug fs PLf = plug (butlast fs) (plug [(pa, q, pr, dir, sib)] PLf)"
    using plug_butlast [OF fs] f by simp
  obtain s b hp where c: "ctx (nodes tb) N (RootSlot v6, 2) (root_of tb v6) (butlast fs) (s, b) hp"
    and r: "rep (nodes tb) N (s, b) hp (plug [(pa, q, pr, dir, sib)] PLf)"
    using rep unfolding pb rep_plug [where fs = "butlast fs"] by force
  have n: "parent_bit_packed (node_at tb pa) = (s, b)"
    "rep (nodes tb) N (BitSlot pa (\<not> dir), of_bool (\<not> dir)) (node_bit (node_at tb pa) (\<not> dir)) sib"
    using r by (cases dir; auto simp: node_at_def split: option.splits)+
  have sib: "frame_sib (last fs) = sib" "frame_dir (last fs) = dir"
    by (simp_all add: f frame_sib_def frame_dir_def)
  show ad: "set (addrs (plug fs PLf)) = insert pa (set (addrs (plug (butlast fs) (frame_sib (last fs)))))"
    unfolding pb sib by (auto simp: set_addrs_plug)
  have dd: "distinct (addrs (plug (butlast fs) sib))" "pa \<notin> set (addrs (plug (butlast fs) sib))"
    using d unfolding pb by (cases dir; auto simp: distinct_addrs_plug set_addrs_plug)+
  then show "distinct (addrs (plug (butlast fs) (frame_sib (last fs))))" by (simp add: sib)
  note rt = replace_trie [OF c n(2) dd(1)]
  have eq: "tb2 = free_node (replace_child tb (s, b) (node_bit (node_at tb pa) (\<not> dir))) pa"
    by (simp add: tb2_def n(1) sib)
  show "rep (nodes tb2) N (RootSlot v6, 2) (root_of tb2 v6) (plug (butlast fs) (frame_sib (last fs)))"
    unfolding eq free_node_sel sib using rt(1) dd(2) by (subst rep_frame) auto
  show "touch tb tb2 (set (addrs (plug fs PLf))) v6" "nodes tb2 pa = None"
    using rt(2) ad by (auto simp: touch_def eq sib set_addrs_plug)
qed

lemma remove_rep_parent:
  assumes tr: "tb_rep tb T" and rp: "rem_point tb v6 (width v6) a fs q pr l r s b n"
    and t: "T v6 = plug fs (PNd a q pr l r)" "tdel a (T v6) = tprune fs (PNd a q pr l r)"
    and lr: "l = PLf" "r = PLf" and fs: "fs \<noteq> []" and fp: "frame_peer (last fs) = None"
  shows "tb_rep (remove_node tb a) (T(v6 := tdel a (T v6)))"
proof -
  let ?pa = "frame_addr (last fs)"
  let ?tb2 = "replace_child (unlink_peer tb a) (s, b) (bit1 n)"
  let ?tb3 = "free_node ?tb2 a"
  have td: "tdel a (T v6) = plug (butlast fs) (frame_sib (last fs))"
    using t(2) lr fs fp by (simp add: tprune_def Let_def)
  have one: "l = PLf \<or> r = PLf" using lr by simp
  note r3 = remove_replaced [OF rp one, simplified lr refl if_True]
  note p3 = remove_parent_peer [OF rp one fs, simplified lr refl if_True]
  note r4 = remove_parent_replaced [OF r3(1,3) fs]
  let ?tb4 = "free_node (replace_child ?tb3 (parent_bit_packed (node_at ?tb3 ?pa))
             (node_bit (node_at ?tb3 ?pa) (\<not> frame_dir (last fs)))) ?pa"
  have "(b = 0) = (\<not> frame_dir (last fs))" "b \<le> 1" using rem_point_slot(3) [OF rp fs] by auto
  then have eq: "remove_node tb a = ?tb4"
    using remove_node_unfold(2) [OF rp one] rem_point_slot(2) [OF rp fs] p3 fp lr by simp
  have tch: "nodes ?tb4 x = nodes (unlink_peer tb a) x" if "x \<notin> set (addrs (T v6))" for x
  proof -
    have "x \<notin> set (addrs (plug fs PLf))" "x \<notin> insert a (set (addrs PLf) \<union> set (frames_addrs fs))"
      using that by (auto simp: t(1) set_addrs_plug)
    then show ?thesis using r3(2) r4(2) unfolding touch_def by metis
  qed
  show ?thesis
    unfolding eq
  proof (rule remove_done [OF tr])
    show "a \<in> set (addrs (T v6))" by (simp add: t(1) set_addrs_plug)
    have ad: "set (addrs (T v6)) = insert a (insert ?pa (set (addrs (tdel a (T v6)))))"
      using r4(4) unfolding td by (auto simp: t(1) set_addrs_plug lr)
    then show "set (addrs (tdel a (T v6))) \<subseteq> set (addrs (T v6))" by auto
    show "nodes ?tb4 x = None" if "x \<in> set (addrs (T v6))" "x \<notin> set (addrs (tdel a (T v6)))" for x
    proof -
      have "x = a \<or> x = ?pa" using that ad by auto
      moreover have "nodes ?tb4 a = nodes ?tb3 a" using r4(2) r3(4) unfolding touch_def by metis
      ultimately show ?thesis using r3(5) r4(3) by auto
    qed
    show "nodes ?tb4 x = nodes tb x" if "x \<notin> set (addrs (T v6))" for x
      using tch [OF that] that by (auto simp: unlink_sel t(1) set_addrs_plug)
  qed (use r3(2) r4 td in \<open>auto simp: touch_def unlink_sel\<close>)
qed

lemma remove_rep_both:
  assumes tr: "tb_rep tb T" and rp: "rem_point tb v6 (width v6) a fs q pr l r s b n"
    and t: "T v6 = plug fs (PNd a q pr l r)" "tdel a (T v6) = tprune fs (PNd a q pr l r)"
    and lr: "l \<noteq> PLf" "r \<noteq> PLf"
  shows "tb_rep (remove_node tb a) (T(v6 := tdel a (T v6)))"
proof -
  have td: "tdel a (T v6) = plug fs (PNd a q None l r)" using t(2) lr by (simp add: tprune_def)
  note v = tb_rep_view [OF tr, where ?v6.0 = v6]
  have ad: "set (addrs (tdel a (T v6))) = set (addrs (T v6))" "a \<in> set (addrs (T v6))"
    unfolding td by (auto simp: t(1) set_addrs_plug)
  show ?thesis
    unfolding remove_node_both [OF rp lr]
  proof (rule remove_done [OF tr ad(2)])
    show "rep (nodes (unlink_peer tb a)) (width v6) (RootSlot v6, 2) (root_of (unlink_peer tb a) v6) (tdel a (T v6))"
      unfolding td unlink_sel node_at_def by (rule set_peer_rep) (use v(1,3) t(1) in simp_all)
    show "distinct (addrs (tdel a (T v6)))"
      using v(3) unfolding td by (simp add: t(1) distinct_addrs_plug)
  qed (use ad in \<open>auto simp: unlink_sel\<close>)
qed

lemma remove_node_rep:
  assumes "tb_rep tb T" "a \<in> set (addrs (T v6))"
  shows "tb_rep (remove_node tb a) (T(v6 := tdel a (T v6)))"
proof -
  obtain fs q pr l r s b n where rp: "rem_point tb v6 (width v6) a fs q pr l r s b n"
    "T v6 = plug fs (PNd a q pr l r)" "tdel a (T v6) = tprune fs (PNd a q pr l r)"
    using tb_rep_rem_point [OF assms] .
  show ?thesis
    using remove_rep_both [OF assms(1) rp] remove_rep_one [OF assms(1) rp] remove_rep_parent [OF assms(1) rp]
    by metis
qed

section \<open>Removal of a peer\<close>

text \<open>The trees without the entries of a peer, in the order the code removes them.\<close>

lemma remove_by_peer_rep:
  assumes "tb_rep tb T" "distinct as" "set as \<subseteq> {a. \<exists>v q p. (q, p, a) \<in> ents (T v)}"
  shows "\<exists>T'. tb_rep (foldl remove_node tb as) T' \<and>
     (\<forall>v. ents (T' v) = {(q, p, a) \<in> ents (T v). a \<notin> set as})"
  using assms
proof (induction as arbitrary: tb T)
  case Nil
  then show ?case by auto
next
  case (Cons a as)
  then obtain v q p where e: "(q, p, a) \<in> ents (T v)" by auto
  let ?T = "T(v := tdel a (T v))"
  note view = tb_rep_view [OF Cons.prems(1), where ?v6.0 = v]
  have other: "(q', p', a) \<notin> ents (T (\<not> v))" for q' p'
    using ents_addrs [OF e] ents_addrs [of q' p' a] view(4) by auto
  have ents: "ents (?T w) = {(q, p, x) \<in> ents (T w). x \<noteq> a}" for w
    using tdel_ents [OF view(3), of a] other by (cases "w = v") auto
  have r: "tb_rep (remove_node tb a) ?T" using remove_node_rep [OF Cons.prems(1) ents_addrs [OF e]] .
  have sub: "set as \<subseteq> {x. \<exists>w q p. (q, p, x) \<in> ents (?T w)}"
  proof
    fix x assume x: "x \<in> set as"
    then have "x \<in> {a. \<exists>v q p. (q, p, a) \<in> ents (T v)}" "x \<noteq> a" using Cons.prems(2,3) by auto
    then obtain w q' p' where "(q', p', x) \<in> ents (T w)" "x \<noteq> a" by auto
    then show "x \<in> {x. \<exists>w q p. (q, p, x) \<in> ents (?T w)}" unfolding ents by blast
  qed
  have "distinct as" using Cons.prems(2) by simp
  from Cons.IH [OF r this sub] obtain T' where "tb_rep (foldl remove_node (remove_node tb a) as) T'"
    "\<forall>w. ents (T' w) = {(q, p, x) \<in> ents (?T w). x \<notin> set as}" by blast
  then show ?case unfolding ents by (intro exI [of _ T']) auto
qed

section \<open>Freeing a table\<close>

lemma rootedI: "rep h N sb (Some a) t \<Longrightarrow> rooted h N a t"
  unfolding rooted_def by blast

lemma rooted_not_PLf: "\<not> rooted h N a PLf"
  by (simp add: rooted_def)

lemma theight_pos: "t \<noteq> PLf \<Longrightarrow> 1 \<le> theight t"
  by (cases t) auto

lemma stack_rep_frame:
  assumes "stack_rep h N stack ts" "\<And>a. a \<in> set (concat (map addrs ts)) \<Longrightarrow> h' a = h a"
  shows "stack_rep h' N stack ts"
proof -
  have "rep h' N sb ptr t = rep h N sb ptr t" if "t \<in> set ts" for sb ptr t
    using that assms(2) by (intro rep_frame) auto
  then have "list_all2 (rooted h' N) stack ts"
    using assms(1) unfolding stack_rep_def
    by (auto simp: list_all2_conv_all_nth rooted_def)
  then show ?thesis using assms(1) by (simp add: stack_rep_def)
qed

lemma stack_rep_Cons:
  assumes "stack_rep h N stack (t # ts)"
  obtains a stack' a' q pr l r where "stack = a # stack'" "t = PNd a' q pr l r"
proof -
  obtain a stack' where "stack = a # stack'" "rooted h N a t"
    using assms by (auto simp: stack_rep_def list_all2_Cons2)
  then show ?thesis using that rooted_not_PLf by (cases t) auto
qed

text \<open>One iteration: the node on top is replaced by its children, within the stack.\<close>

lemma stack_step:
  assumes "stack_rep (nodes tb) N (a # stack) (PNd a' q pr l r # ts)"
  obtains stack1 stack2 where "push_rcu stack (bit0 (node_at tb a)) = Some stack1"
    "push_rcu stack1 (bit1 (node_at tb a)) = Some stack2"
    "stack_rep (nodes tb) N stack2 (children l r @ ts)" "a' = a" "peer (node_at tb a) = pr"
    "set (concat (map addrs (PNd a' q pr l r # ts))) = insert a (set (concat (map addrs (children l r @ ts))))"
    "a \<notin> set (concat (map addrs (children l r @ ts)))"
proof -
  obtain sb where "rep (nodes tb) N sb (Some a) (PNd a' q pr l r)"
    using assms unfolding stack_rep_def list_all2_Cons rooted_def by blast
  then obtain n where n: "nodes tb a = Some n" "a' = a" "peer n = pr"
    "rep (nodes tb) N (BitSlot a False, 0) (bit0 n) l" "rep (nodes tb) N (BitSlot a True, 1) (bit1 n) r"
    by (cases "nodes tb a") (simp_all add: node_ok_def)
  have room: "length ts + Suc (max (theight l) (theight r)) \<le> MAX_ALLOWEDIPS_DEPTH" "stack_room ts"
    and all: "list_all2 (rooted (nodes tb) N) stack ts"
    and d: "distinct (a # addrs l @ addrs r @ concat (map addrs ts))"
    using assms n(2) by (simp_all add: stack_rep_def del: rep.simps)
  have len: "length stack = length ts" using all by (rule list_all2_lengthD)
  define stack1 where "stack1 = (case bit0 n of None \<Rightarrow> stack | Some x \<Rightarrow> x # stack)"
  define stack2 where "stack2 = (case bit1 n of None \<Rightarrow> stack1 | Some x \<Rightarrow> x # stack1)"
  have p1: "push_rcu stack (bit0 n) = Some stack1"
    using rep_PLf_iff [OF n(4)] room len theight_pos [of l]
    by (auto simp: push_rcu_def stack1_def split: option.splits)
  have p2: "push_rcu stack1 (bit1 n) = Some stack2"
    using rep_PLf_iff [OF n(4)] rep_PLf_iff [OF n(5)] room len theight_pos [of l] theight_pos [of r]
    by (auto simp: push_rcu_def stack1_def stack2_def split: option.splits)
  have "list_all2 (rooted (nodes tb) N) stack2 (children l r @ ts)"
    using all n(4,5) rep_PLf_iff [OF n(4)] rep_PLf_iff [OF n(5)]
    by (auto simp: stack1_def stack2_def children_def intro: rootedI split: option.splits)
  moreover have "stack_room (children l r @ ts)"
    using room by (auto simp: children_def)
  moreover have "distinct (concat (map addrs (children l r @ ts)))"
    using d by (auto simp: children_def)
  ultimately have "stack_rep (nodes tb) N stack2 (children l r @ ts)" by (simp add: stack_rep_def)
  moreover have "set (concat (map addrs (PNd a' q pr l r # ts))) =
      insert a (set (concat (map addrs (children l r @ ts))))"
    "a \<notin> set (concat (map addrs (children l r @ ts)))"
    using d n(2) by (auto simp: children_def)
  ultimately show ?thesis using that p1 p2 n by (simp add: node_at_def)
qed

lemma children_size: "length (concat (map addrs (children l r @ ts))) < length (concat (map addrs (PNd a q pr l r # ts)))"
  by (simp add: children_def)

lemma children_ents:
  "(\<Union>t \<in> set (PNd a q pr l r # ts). ents t) =
     (case pr of None \<Rightarrow> {} | Some p \<Rightarrow> {(q, p, a)}) \<union> (\<Union>t \<in> set (children l r @ ts). ents t)"
  by (auto simp: children_def split: option.splits)

lemma root_free_loop_rep:
  "stack_rep (nodes tb) N stack ts \<Longrightarrow>
     root_free_loop tb stack = Some (tb\<lparr>nodes := nodes tb |` (- set (concat (map addrs ts)))\<rparr>)"
proof (induction "length (concat (map addrs ts))" arbitrary: tb stack ts rule: less_induct)
  case less
  show ?case
  proof (cases ts)
    case Nil
    then have "stack = []" using less.prems by (simp add: stack_rep_def)
    moreover have "nodes tb |` UNIV = nodes tb" by (simp add: restrict_map_def)
    ultimately show ?thesis using Nil by (simp add: root_free_loop.simps)
  next
    case (Cons t ts')
    then obtain a stack' a' q pr l r where st: "stack = a # stack'" and t: "t = PNd a' q pr l r"
      using stack_rep_Cons less.prems by metis
    obtain stack1 stack2 where step: "push_rcu stack' (bit0 (node_at tb a)) = Some stack1"
      "push_rcu stack1 (bit1 (node_at tb a)) = Some stack2"
      "stack_rep (nodes tb) N stack2 (children l r @ ts')"
      "set (concat (map addrs ts)) = insert a (set (concat (map addrs (children l r @ ts'))))"
      "a \<notin> set (concat (map addrs (children l r @ ts')))"
      using stack_step [OF less.prems [unfolded st Cons t]] unfolding Cons t by metis
    have "stack_rep (nodes (free_node tb a)) N stack2 (children l r @ ts')"
      using step(5) by (intro stack_rep_frame [OF step(3)]) auto
    moreover have "length (concat (map addrs (children l r @ ts'))) < length (concat (map addrs ts))"
      unfolding Cons t by (rule children_size)
    ultimately have "root_free_loop (free_node tb a) stack2 = Some ((free_node tb a)
        \<lparr>nodes := nodes (free_node tb a) |` (- set (concat (map addrs (children l r @ ts'))))\<rparr>)"
      using less.hyps by blast
    moreover have "nodes (free_node tb a) |` (- set (concat (map addrs (children l r @ ts')))) =
        nodes tb |` (- set (concat (map addrs ts)))"
      unfolding step(4) by (auto simp: restrict_map_def)
    ultimately show ?thesis
      using step(1,2) st by (subst root_free_loop.simps) (simp add: free_node_def)
  qed
qed

lemma peered_children:
  "peered (PNd a q pr l r # ts) = (if pr = None then {} else {a}) \<union> peered (children l r @ ts)"
  unfolding peered_def children_ents by (auto split: option.splits)

lemma filter_removeAll: "filter P (removeAll a xs) = filter (\<lambda>x. x \<noteq> a \<and> P x) xs"
  by (induction xs) auto

lemma root_remove_peer_lists_loop_rep:
  "stack_rep (nodes tb) N stack ts \<Longrightarrow>
     root_remove_peer_lists_loop tb stack =
       Some (tb\<lparr>peer_lists := (\<lambda>p. filter (\<lambda>a. a \<notin> peered ts) (peer_lists tb p))\<rparr>)"
proof (induction "length (concat (map addrs ts))" arbitrary: tb stack ts rule: less_induct)
  case less
  show ?case
  proof (cases ts)
    case Nil
    then have "stack = []" using less.prems by (simp add: stack_rep_def)
    then show ?thesis using Nil by (simp add: root_remove_peer_lists_loop.simps peered_def)
  next
    case (Cons t ts')
    then obtain a stack' a' q pr l r where st: "stack = a # stack'" and t: "t = PNd a' q pr l r"
      using stack_rep_Cons less.prems by metis
    obtain stack1 stack2 where step: "push_rcu stack' (bit0 (node_at tb a)) = Some stack1"
      "push_rcu stack1 (bit1 (node_at tb a)) = Some stack2"
      "stack_rep (nodes tb) N stack2 (children l r @ ts')" "a' = a" "peer (node_at tb a) = pr"
      using stack_step [OF less.prems [unfolded st Cons t]] unfolding Cons t by metis
    let ?tb = "if pr \<noteq> None then list_del a tb else tb"
    have "nodes ?tb = nodes tb" by (simp add: list_del_def)
    then have "stack_rep (nodes ?tb) N stack2 (children l r @ ts')" using step(3) by simp
    moreover have "length (concat (map addrs (children l r @ ts'))) < length (concat (map addrs ts))"
      unfolding Cons t by (rule children_size)
    ultimately have "root_remove_peer_lists_loop ?tb stack2 =
      Some (?tb\<lparr>peer_lists := (\<lambda>p. filter (\<lambda>a. a \<notin> peered (children l r @ ts')) (peer_lists ?tb p))\<rparr>)"
      using less.hyps by blast
    moreover have "\<dots> = Some (tb\<lparr>peer_lists := (\<lambda>p. filter (\<lambda>a. a \<notin> peered ts) (peer_lists tb p))\<rparr>)"
      unfolding Cons t peered_children
      by (cases pr) (simp_all add: list_del_def step(4) filter_removeAll)
    ultimately show ?thesis
      using step(1,2,5) st by (subst root_remove_peer_lists_loop.simps) simp
  qed
qed

lemma stack_rep_root:
  assumes "rep h N sb (Some a) t" "wft N [] t" "distinct (addrs t)" "N \<le> 128"
  shows "stack_rep h N [a] [t]"
proof -
  have "theight t \<le> 129" using wft_height [OF assms(2)] assms(4) by simp
  then show ?thesis
    using assms rootedI by (auto simp: stack_rep_def MAX_ALLOWEDIPS_DEPTH_def)
qed

lemma free_root_rep:
  assumes "rep (nodes tb) N sb old t" "wft N [] t" "distinct (addrs t)" "N \<le> 128"
  shows "free_root tb old = Some (tb
    \<lparr>nodes := nodes tb |` (- set (addrs t)),
     peer_lists := (\<lambda>p. filter (\<lambda>a. a \<notin> peered [t]) (peer_lists tb p))\<rparr>)"
proof (cases old)
  case None
  then have "t = PLf" using rep_PLf_iff [OF assms(1)] by simp
  then show ?thesis using None by (simp add: free_root_def restrict_map_def peered_def)
next
  case (Some a)
  have st: "stack_rep (nodes tb) N [a] [t]" using stack_rep_root assms Some by blast
  let ?tb = "tb\<lparr>peer_lists := (\<lambda>p. filter (\<lambda>a. a \<notin> peered [t]) (peer_lists tb p))\<rparr>"
  have "stack_rep (nodes ?tb) N [a] [t]" using st by simp
  from root_free_loop_rep [OF this] root_remove_peer_lists_loop_rep [OF st] show ?thesis
    using Some by (simp add: free_root_def root_remove_peer_lists_def root_free_rcu_def)
qed

lemma peered_view: "a \<in> peered [t] \<longleftrightarrow> (\<exists>q p. (q, p, a) \<in> ents t)"
  by (simp add: peered_def)

lemma free_rep:
  assumes tr: "tb_rep tb T"
  shows "\<exists>tb'. wg_allowedips_free tb = Some tb' \<and> tb_rep tb' (\<lambda>_. PLf) \<and> seq tb' = seq tb + 1 \<and>
     root4 tb' = None \<and> root6 tb' = None \<and> nodes tb' = Map.empty \<and> peer_lists tb' = (\<lambda>_. [])"
proof -
  note v = tb_rep_view [OF tr, where ?v6.0 = False, simplified width_def simp_thms if_False]
  note w = tb_rep_view [OF tr, where ?v6.0 = True, simplified width_def simp_thms if_True]
  let ?tb0 = "tb\<lparr>seq := seq tb + 1, root4 := None, root6 := None\<rparr>"
  have r4: "rep (nodes ?tb0) 32 (RootSlot False, 2) (root4 tb) (T False)"
    using v(1) by (simp add: root_of_def)
  have f4: "free_root ?tb0 (root4 tb) = Some (?tb0
    \<lparr>nodes := nodes tb |` (- set (addrs (T False))),
     peer_lists := (\<lambda>p. filter (\<lambda>a. a \<notin> peered [T False]) (peer_lists tb p))\<rparr>)" (is "_ = Some ?tb1")
    using free_root_rep [OF r4 v(2,3)] by simp
  have r6: "rep (nodes ?tb1) 128 (RootSlot True, 2) (root6 tb) (T True)"
    using w(1,4) by (subst rep_frame [of _ _ "nodes tb"]) (auto simp: root_of_def restrict_map_def)
  have f6: "free_root ?tb1 (root6 tb) = Some (?tb1
    \<lparr>nodes := nodes ?tb1 |` (- set (addrs (T True))),
     peer_lists := (\<lambda>p. filter (\<lambda>a. a \<notin> peered [T True]) (peer_lists ?tb1 p))\<rparr>)" (is "_ = Some ?tb2")
    using free_root_rep [OF r6 w(2,3)] by simp
  have "wg_allowedips_free tb = Some ?tb2"
    using f4 f6 by (simp add: wg_allowedips_free_def)
  moreover have n: "nodes ?tb2 = Map.empty"
  proof
    fix x
    show "nodes ?tb2 x = None" using v(5) by (auto simp: restrict_map_def)
  qed
  moreover have l: "peer_lists ?tb2 = (\<lambda>_. [])"
    using v(6) by (auto simp: fun_eq_iff filter_empty_conv peered_view)
  ultimately show ?thesis by (auto simp: tb_rep_def root_of_def)
qed

end
