(* ===== verification/WG_AllowedIPs_Spec.thy ===== *)
theory WG_AllowedIPs_Spec
  imports WG_AllowedIPs_Remove
begin

unbundle bit_operations_syntax

text \<open>
  What the allowed-IPs tables promise to the rest of the driver. The abstract state of a
  table is the set of its entries, a prefix and a peer each, read off its nodes; the
  interface \<open>routing_table\<close> says what lookup, insertion and removal do to that set.
\<close>

section \<open>Definitions\<close>

definition allowedips_ok :: "allowedips \<Rightarrow> bool" where
  "allowedips_ok tb \<longleftrightarrow> (\<exists>T. tb_rep tb T)"

definition allowed_entries :: "allowedips \<Rightarrow> bool \<Rightarrow> (bool list \<times> peer_id) set" where
  "allowed_entries tb v6 =
     {(q, p). \<exists>a n. nodes tb a = Some n \<and> peer n = Some p \<and> bitlen n = of_nat (width v6) \<and>
        q = take (unat (cidr n)) (key_bits (width v6) (bits n))}"

text \<open>\<open>p\<close> is the peer of the longest prefix of \<open>key\<close> among the entries, if there is one.\<close>

definition lpm :: "(bool list \<times> 'p) set \<Rightarrow> bool list \<Rightarrow> 'p option \<Rightarrow> bool" where
  "lpm E key res \<longleftrightarrow>
     (case res of
        None \<Rightarrow> \<forall>q p. (q, p) \<in> E \<longrightarrow> \<not> prefix q key
      | Some p \<Rightarrow> \<exists>q. (q, p) \<in> E \<and> prefix q key \<and>
          (\<forall>q' p'. (q', p') \<in> E \<longrightarrow> prefix q' key \<longrightarrow> length q' \<le> length q))"

text \<open>
  What one read of the table and of the reference counts answers: a view serves the
  result \<open>r\<close> (with a reference taken on the peer), or its longest match is a peer that is being removed.
\<close>

definition serves ::
    "allowedips \<times> refcounts \<Rightarrow> bool \<Rightarrow> bool list \<Rightarrow> peer_id option \<times> refcounts \<Rightarrow> bool" where
  "serves view v6 key r \<longleftrightarrow>
     lpm (allowed_entries (fst view) v6) key (fst r) \<and>
     (case fst r of None \<Rightarrow> snd r = snd view
      | Some p \<Rightarrow> 0 < snd view p \<and> snd r = kref_get (snd view) p)"

definition stale :: "allowedips \<times> refcounts \<Rightarrow> bool \<Rightarrow> bool list \<Rightarrow> bool" where
  "stale view v6 key \<longleftrightarrow> (\<exists>p. lpm (allowed_entries (fst view) v6) key (Some p) \<and> snd view p = 0)"

text \<open>Memory for an insertion: results of the allocator that are not in use.\<close>

definition fresh_mem :: "allowedips \<Rightarrow> addr option \<times> addr option \<Rightarrow> bool" where
  "fresh_mem tb mem \<longleftrightarrow>
     (\<forall>m. fst mem = Some m \<longrightarrow> nodes tb m = None) \<and>
     (\<forall>m. snd mem = Some m \<longrightarrow> nodes tb m = None \<and> fst mem \<noteq> Some m)"

text \<open>The operations of one address family, as the interface has them.\<close>

definition look_family :: "bool \<Rightarrow> allowedips \<Rightarrow> bytes \<Rightarrow> peer_id option option" where
  "look_family v6 tb ip = map_option fst (lookup [(tb, \<lambda>_. 1)] v6 (of_nat (width v6)) ip)"

definition insert_family ::
    "bool \<Rightarrow> allowedips \<Rightarrow> bytes \<Rightarrow> u8 \<Rightarrow> peer_id \<Rightarrow> addr option \<times> addr option \<Rightarrow>
     (errno option \<times> allowedips) option" where
  "insert_family v6 tb ip c p mem =
     (if v6 then wg_allowedips_insert_v6 tb ip c (Some p) (fst mem) (snd mem)
      else wg_allowedips_insert_v4 tb ip c (Some p) (fst mem) (snd mem))"

text \<open>An empty table.\<close>

definition empty_table :: allowedips where
  "empty_table = wg_allowedips_init
     \<lparr>nodes = Map.empty, root4 = None, root6 = None, seq = 0, peer_lists = (\<lambda>_. [])\<rparr>"

text \<open>A table with 10.0.0.0/8 for peer 1 and 10.1.0.0/16 for peer 2.\<close>

definition demo_table :: allowedips where
  "demo_table =
     snd (the (wg_allowedips_insert_v4
       (snd (the (wg_allowedips_insert_v4 empty_table [10, 0, 0, 0] 8 (Some 1) (Some 0) (Some 1))))
       [10, 1, 0, 0] 16 (Some 2) (Some 2) (Some 3)))"

section \<open>The interface\<close>

locale routing_table =
  fixes ok :: "'t \<Rightarrow> bool" and ents_of :: "'t \<Rightarrow> (bool list \<times> 'p) set"
    and look :: "'t \<Rightarrow> 'k \<Rightarrow> 'p option option"
    and ins :: "'t \<Rightarrow> 'k \<Rightarrow> 'c \<Rightarrow> 'p \<Rightarrow> 'm \<Rightarrow> ('e option \<times> 't) option"
    and rem :: "'t \<Rightarrow> 'p \<Rightarrow> 't"
    and keyb :: "'k \<Rightarrow> bool list" and valid :: "'k \<Rightarrow> bool"
    and plen :: "'c \<Rightarrow> nat" and fresh :: "'t \<Rightarrow> 'm \<Rightarrow> bool" and bits_of :: nat
  assumes unique: "ok t \<Longrightarrow> (q, p) \<in> ents_of t \<Longrightarrow> (q, p') \<in> ents_of t \<Longrightarrow> p = p'"
    and keyb_length: "valid k \<Longrightarrow> length (keyb k) = bits_of"
    and look_lpm: "ok t \<Longrightarrow> valid k \<Longrightarrow> \<exists>r. look t k = Some r \<and> lpm (ents_of t) (keyb k) r"
    and ins_entries: "ok t \<Longrightarrow> valid k \<Longrightarrow> plen c \<le> bits_of \<Longrightarrow> fresh t m \<Longrightarrow>
      \<exists>e t'. ins t k c p m = Some (e, t') \<and> ok t' \<and>
        ents_of t' = (if e = None
          then insert (take (plen c) (keyb k), p) {(q, p') \<in> ents_of t. q \<noteq> take (plen c) (keyb k)}
          else ents_of t)"
    and rem_entries: "ok t \<Longrightarrow> ok (rem t p) \<and> ents_of (rem t p) = {(q, p') \<in> ents_of t. p' \<noteq> p}"
begin

text \<open>The longest match is unique, so lookup is a function of the entries.\<close>

lemma lpm_unique:
  assumes "ok t" "lpm (ents_of t) key r" "lpm (ents_of t) key r'"
  shows "r = r'"
proof (cases r; cases r')
  fix p p' assume r: "r = Some p" "r' = Some p'"
  then obtain q q' where q: "(q, p) \<in> ents_of t" "prefix q key" "(q', p') \<in> ents_of t" "prefix q' key"
    "length q' \<le> length q" "length q \<le> length q'"
    using assms(2,3) unfolding lpm_def r option.case by blast
  then have "q = q'" by (metis prefix_length_prefix prefix_order.antisym)
  then show ?thesis using unique [OF assms(1)] q r by blast
qed (use assms(2,3) in \<open>auto simp: lpm_def\<close>)

lemma look_iff:
  assumes "ok t" "valid k"
  shows "look t k = Some r \<longleftrightarrow> lpm (ents_of t) (keyb k) r"
  using look_lpm [OF assms] lpm_unique [OF assms(1)] by auto

text \<open>A host route takes effect at once.\<close>

lemma ins_look_host:
  assumes "ok t" "valid k" "plen c = bits_of" "fresh t m" "ins t k c p m = Some (None, t')"
  shows "look t' k = Some (Some p)"
proof -
  have ok': "ok t'" and e: "ents_of t' = insert (keyb k, p) {(q, p') \<in> ents_of t. q \<noteq> keyb k}"
    using ins_entries [OF assms(1,2) _ assms(4), of c p] assms(3,5) keyb_length [OF assms(2)] by auto
  have "lpm (ents_of t') (keyb k) (Some p)"
    unfolding lpm_def e by (auto intro!: exI [of _ "keyb k"] dest: prefix_length_le)
  then show ?thesis using look_iff [OF ok' assms(2)] by blast
qed

text \<open>An entry does not change the lookup of addresses outside its prefix.\<close>

lemma ins_look_other:
  assumes "ok t" "valid k" "plen c \<le> bits_of" "fresh t m" "ins t k c p m = Some (e, t')"
    and "valid k'" "\<not> prefix (take (plen c) (keyb k)) (keyb k')"
  shows "look t' k' = look t k'"
proof -
  have ok': "ok t'" and en: "ents_of t' = (if e = None
      then insert (take (plen c) (keyb k), p) {(q, p') \<in> ents_of t. q \<noteq> take (plen c) (keyb k)}
      else ents_of t)"
    using ins_entries [OF assms(1-4), of p] assms(5) by auto
  obtain r where r: "look t k' = Some r" "lpm (ents_of t) (keyb k') r"
    using look_lpm [OF assms(1,6)] by blast
  have "(q, p') \<in> ents_of t' \<longleftrightarrow> (q, p') \<in> ents_of t" if "prefix q (keyb k')" for q p'
    using assms(7) that unfolding en by auto
  then have "lpm (ents_of t') (keyb k') r"
    using r(2) unfolding lpm_def by (cases r) (simp_all, blast+)
  then show ?thesis using look_iff [OF ok' assms(6)] r by simp
qed

text \<open>No address is routed to a removed peer, and other peers keep their entries.\<close>

lemma rem_look:
  assumes "ok t" "valid k"
  shows "look (rem t p) k \<noteq> Some (Some p)"
    and "look t k = Some (Some p') \<Longrightarrow> p' \<noteq> p \<Longrightarrow> look (rem t p) k = Some (Some p')"
proof -
  have ok': "ok (rem t p)" and e: "ents_of (rem t p) = {(q, p') \<in> ents_of t. p' \<noteq> p}"
    using rem_entries [OF assms(1)] by auto
  show "look (rem t p) k \<noteq> Some (Some p)"
    unfolding look_iff [OF ok' assms(2)] lpm_def e by auto
  assume "look t k = Some (Some p')" "p' \<noteq> p"
  then show "look (rem t p) k = Some (Some p')"
    unfolding look_iff [OF ok' assms(2)] look_iff [OF assms] lpm_def e by auto
qed

end

section \<open>Entries of a represented table\<close>

lemma rep_node_at:
  "rep h N sb ptr t \<Longrightarrow> a \<in> set (addrs t) \<Longrightarrow>
     \<exists>n q pr. h a = Some n \<and> node_ok N n q pr \<and> (\<forall>p. pr = Some p \<longrightarrow> (q, p, a) \<in> ents t)"
proof (induction t arbitrary: sb ptr)
  case (PNd b q pr l r)
  obtain n where n: "h b = Some n" "node_ok N n q pr"
    "rep h N (BitSlot b False, 0) (bit0 n) l" "rep h N (BitSlot b True, 1) (bit1 n) r"
    using PNd.prems(1) by (cases "h b") auto
  consider "a = b" | "a \<in> set (addrs l)" | "a \<in> set (addrs r)" using PNd.prems(2) by auto
  then show ?case
  proof cases
    case 1
    then show ?thesis using n by (intro exI [of _ n] exI [of _ q] exI [of _ pr]) auto
  next
    case 2
    then show ?thesis using PNd.IH(1) [OF n(3)] unfolding ents.simps by blast
  next
    case 3
    then show ?thesis using PNd.IH(2) [OF n(4)] unfolding ents.simps by blast
  qed
qed simp

lemma rep_ents_node:
  "rep h N sb ptr t \<Longrightarrow> (q, p, a) \<in> ents t \<Longrightarrow> \<exists>n. h a = Some n \<and> node_ok N n q (Some p)"
proof (induction t arbitrary: sb ptr)
  case (PNd b q' pr l r)
  obtain n where n: "h b = Some n" "node_ok N n q' pr"
    "rep h N (BitSlot b False, 0) (bit0 n) l" "rep h N (BitSlot b True, 1) (bit1 n) r"
    using PNd.prems(1) by (cases "h b") auto
  then show ?case using PNd.prems(2) PNd.IH(1) [OF n(3)] PNd.IH(2) [OF n(4)] by (auto split: option.splits)
qed simp

lemma width_u8: "(of_nat (width v) :: u8) = of_nat (width w) \<longleftrightarrow> v = w"
  using unat_of_nat_u8 [OF width_cases, of v] unat_of_nat_u8 [OF width_cases, of w]
  by (auto simp: width_def split: if_splits)

lemma node_ok_take: "node_ok N n q pr \<Longrightarrow> q = take (unat (cidr n)) (key_bits N (bits n))"
  by (simp add: node_ok_def)

lemma tb_rep_entries:
  assumes tr: "tb_rep tb T"
  shows "allowed_entries tb v6 = entries (T v6)"
proof -
  note v = tb_rep_view [OF tr, where ?v6.0 = v6]
  note o = tb_rep_view [OF tr, where ?v6.0 = "\<not> v6"]
  have "(q, p) \<in> allowed_entries tb v6 \<longleftrightarrow> (q, p) \<in> entries (T v6)" for q p
  proof
    assume "(q, p) \<in> allowed_entries tb v6"
    then obtain a n where n: "nodes tb a = Some n" "peer n = Some p" "bitlen n = of_nat (width v6)"
      "q = take (unat (cidr n)) (key_bits (width v6) (bits n))" unfolding allowed_entries_def by blast
    have "a \<in> set (addrs (T v6))"
    proof (rule ccontr)
      assume "a \<notin> set (addrs (T v6))"
      then have "a \<in> set (addrs (T (\<not> v6)))" using v(5) n(1) by auto
      from rep_node_at [OF o(1) this] have "bitlen n = of_nat (width (\<not> v6))"
        using n(1) by (auto simp: node_ok_def)
      then show False using n(3) width_u8 [of v6 "\<not> v6"] by simp
    qed
    from rep_node_at [OF v(1) this] obtain q' pr where
      ok: "node_ok (width v6) n q' pr" "\<forall>p. pr = Some p \<longrightarrow> (q', p, a) \<in> ents (T v6)"
      using n(1) by auto
    have "q' = q" by (rule trans [OF node_ok_take [OF ok(1)] n(4) [symmetric]])
    moreover have "pr = Some p" using ok(1) n(2) by (simp add: node_ok_def)
    ultimately show "(q, p) \<in> entries (T v6)" using ok(2) by (auto simp: entries_iff)
  next
    assume "(q, p) \<in> entries (T v6)"
    then obtain a where "(q, p, a) \<in> ents (T v6)" by (auto simp: entries_iff)
    from rep_ents_node [OF v(1) this] obtain n where
      n: "nodes tb a = Some n" "node_ok (width v6) n q (Some p)" by blast
    then have "peer n = Some p" "bitlen n = of_nat (width v6)" by (simp_all add: node_ok_def)
    then show "(q, p) \<in> allowed_entries tb v6"
      using n node_ok_take [OF n(2)] unfolding allowed_entries_def by blast
  qed
  then show ?thesis by (simp add: set_eq_iff split_paired_all)
qed

lemma tfind_lpm:
  assumes w: "wft N b t" and d: "distinct (addrs t)"
  shows "case tfind t key None of
      None \<Rightarrow> lpm (entries t) key None
    | Some a \<Rightarrow> \<exists>q p. (q, p, a) \<in> ents t \<and> lpm (entries t) key (Some p)"
proof (cases "\<exists>q p a. (q, p, a) \<in> ents t \<and> prefix q key")
  case False
  then have "tfind t key None = None" by (intro tfind_none) blast
  then show ?thesis using False by (auto simp: lpm_def entries_iff)
next
  case True
  let ?P = "\<lambda>q. \<exists>p a. (q, p, a) \<in> ents t \<and> prefix q key"
  have "\<exists>q. ?P q" using True by blast
  moreover have "\<forall>q. ?P q \<longrightarrow> length q < Suc (length key)" by (auto dest: prefix_length_le)
  ultimately obtain q where q: "?P q" "\<forall>q'. ?P q' \<longrightarrow> length q' \<le> length q"
    using ex_has_greatest_nat [of ?P _ length] by blast
  then obtain p a where e: "(q, p, a) \<in> ents t" "prefix q key" by blast
  have "tfind t key None = Some a"
    using q(2) by (intro tfind_some [OF w e]) blast
  moreover have "lpm (entries t) key (Some p)"
    using e q(2) unfolding lpm_def entries_iff by auto
  ultimately show ?thesis using e by auto
qed

section \<open>The operations on entries\<close>

lemma tb_rep_seq [simp]: "tb_rep (tb\<lparr>seq := x\<rparr>) T = tb_rep tb T"
  by (simp add: tb_rep_def root_of_def)

lemma allowed_entries_seq [simp]: "allowed_entries (tb\<lparr>seq := x\<rparr>) v = allowed_entries tb v"
  by (simp add: allowed_entries_def)

lemma swap_endian_length:
  "width v div 8 \<le> length ip \<Longrightarrow> width v div 8 \<le> length dst \<Longrightarrow>
     width v div 8 \<le> length (swap_endian dst ip (of_nat (width v)))"
  using width_u8 [of True False] by (auto simp: swap_endian_def width_def split: if_splits)

lemma find_node_lpm:
  assumes tr: "tb_rep tb T" and ip: "width v6 div 8 \<le> length ip"
  defines "key \<equiv> swap_endian (replicate 16 0) ip (of_nat (width v6))"
  obtains (none) "find_node tb (root_of tb v6) (of_nat (width v6)) key = Some None"
      "lpm (allowed_entries tb v6) (net_bits (width v6) ip) None"
    | (some) a p where "find_node tb (root_of tb v6) (of_nat (width v6)) key = Some (Some a)"
      "peer (node_at tb a) = Some p" "lpm (allowed_entries tb v6) (net_bits (width v6) ip) (Some p)"
proof -
  note v = tb_rep_view [OF tr, where ?v6.0 = v6]
  have kb: "key_bits (width v6) key = net_bits (width v6) ip"
    unfolding key_def by (rule swap_endian_bits [OF width_cases ip])
  have "width v6 div 8 \<le> length key"
    unfolding key_def using ip by (intro swap_endian_length) (simp_all add: width_def)
  then have f: "find_node tb (root_of tb v6) (of_nat (width v6)) key =
      Some (tfind (T v6) (net_bits (width v6) ip) None)"
    using find_node_rep [OF width_cases _ v(2,1)] kb by (simp add: find_node_def)
  show ?thesis
  proof (cases "tfind (T v6) (net_bits (width v6) ip) None")
    case None
    then show ?thesis
      using none f tfind_lpm [OF v(2,3), of "net_bits (width v6) ip"] tb_rep_entries [OF tr] by simp
  next
    case (Some a)
    then obtain q p where e: "(q, p, a) \<in> ents (T v6)"
      "lpm (entries (T v6)) (net_bits (width v6) ip) (Some p)"
      using tfind_lpm [OF v(2,3), of "net_bits (width v6) ip"] by auto
    have "peer (node_at tb a) = Some p"
      using rep_ents_node [OF v(1) e(1)] by (auto simp: node_at_def node_ok_def)
    then show ?thesis using some f Some e tb_rep_entries [OF tr] by simp
  qed
qed

lemma lookup_views:
  assumes "list_all (\<lambda>view. allowedips_ok (fst view)) views" "width v6 div 8 \<le> length ip"
  shows "case lookup views v6 (of_nat (width v6)) ip of
      None \<Rightarrow> list_all (\<lambda>view. stale view v6 (net_bits (width v6) ip)) views
    | Some r \<Rightarrow> \<exists>us view ws. views = us @ view # ws \<and>
        list_all (\<lambda>view. stale view v6 (net_bits (width v6) ip)) us \<and>
        serves view v6 (net_bits (width v6) ip) r"
  unfolding lookup_def using assms(1)
proof (induction views)
  case (Cons view views)
  obtain tb rc where v: "view = (tb, rc)" by (cases view)
  obtain T where tr: "tb_rep tb T" using Cons.prems v by (auto simp: allowedips_ok_def)
  let ?key = "swap_endian (replicate 16 0) ip (of_nat (width v6))"
  show ?case
  proof (cases rule: find_node_lpm [OF tr assms(2), case_names none some])
    case none
    then have "serves view v6 (net_bits (width v6) ip) (None, rc)" using v by (simp add: serves_def)
    then show ?thesis using none v by (auto intro!: exI [of _ "[]"])
  next
    case (some a p)
    show ?thesis
    proof (cases "rc p = 0")
      case True
      then have st: "stale view v6 (net_bits (width v6) ip)" using some v by (auto simp: stale_def)
      have eq: "lookup_retry (view # views) v6 (of_nat (width v6)) ?key =
          lookup_retry views v6 (of_nat (width v6)) ?key"
        using some v True by simp
      show ?thesis
      proof (cases "lookup_retry views v6 (of_nat (width v6)) ?key")
        case None
        then show ?thesis using Cons st eq by simp
      next
        case (Some r)
        then obtain us view' ws where "views = us @ view' # ws"
          "list_all (\<lambda>view. stale view v6 (net_bits (width v6) ip)) us"
          "serves view' v6 (net_bits (width v6) ip) r" using Cons by auto
        then have "view # views = (view # us) @ view' # ws \<and>
          list_all (\<lambda>view. stale view v6 (net_bits (width v6) ip)) (view # us) \<and>
          serves view' v6 (net_bits (width v6) ip) r" using st by simp
        then show ?thesis unfolding eq Some option.case by blast
      qed
    next
      case False
      then have "serves view v6 (net_bits (width v6) ip) (Some p, kref_get rc p)" using some v by (simp add: serves_def)
      moreover have "lookup_retry (view # views) v6 (of_nat (width v6)) ?key = Some (Some p, kref_get rc p)"
        using some v False by simp
      ultimately show ?thesis using v by (auto intro!: exI [of _ "[]"])
    qed
  qed
qed simp

lemma look_family_lpm:
  assumes "allowedips_ok tb" "width v6 div 8 \<le> length ip"
  shows "\<exists>r. look_family v6 tb ip = Some r \<and> lpm (allowed_entries tb v6) (net_bits (width v6) ip) r"
  using lookup_views [of "[(tb, \<lambda>_. 1)]" v6 ip] assms
  by (auto simp: look_family_def serves_def stale_def Cons_eq_append_conv split: option.splits)

lemma ents_addr_unique:
  "distinct (addrs t) \<Longrightarrow> (q, p, a) \<in> ents t \<Longrightarrow> (q', p', a) \<in> ents t \<Longrightarrow> q = q' \<and> p = p'"
proof (induction t)
  case (PNd b r pr l u)
  have "(x, y, b) \<notin> ents l" "(x, y, b) \<notin> ents u" for x y
    using PNd.prems(1) ents_addrs [of x y b] by auto
  moreover have "\<not> ((x, y, a) \<in> ents l \<and> (x', y', a) \<in> ents u)" for x y x' y'
    using PNd.prems(1) ents_addrs [of x y a l] ents_addrs [of x' y' a u] by auto
  ultimately show ?case using PNd by (auto split: option.splits)
qed simp

lemma tb_rep_addr_peer:
  assumes "tb_rep tb T" "(q, p, a) \<in> ents (T v)" "(q', p', a) \<in> ents (T w)"
  shows "p = p'"
proof (cases "v = w")
  case True
  then show ?thesis using ents_addr_unique [OF tb_rep_view(3) [OF assms(1)]] assms(2,3) by blast
next
  case False
  then have "w = (\<not> v)" by auto
  then show ?thesis using tb_rep_view(4) [OF assms(1), of v] assms(2,3) ents_addrs by blast
qed

lemma insert_family_rep:
  assumes tr: "tb_rep tb T" and ip: "width v6 div 8 \<le> length ip" "unat c \<le> width v6" and m: "fresh_mem tb mem"
  defines "k \<equiv> take (unat c) (net_bits (width v6) ip)"
  shows "\<exists>e tb'. insert_family v6 tb ip c p mem = Some (e, tb') \<and>
     (e = None \<and> tb_rep tb' (T(v6 := tinsert k p (the (fst mem)) (the (snd mem)) (T v6))) \<or>
      e = Some ENOMEM \<and> (fst mem = None \<or> snd mem = None) \<and> tb' = tb\<lparr>seq := seq tb + 1\<rparr>)"
proof -
  let ?tb = "tb\<lparr>seq := seq tb + 1\<rparr>"
  let ?key = "swap_endian (replicate (width v6 div 8) 0) ip (of_nat (width v6))"
  have kb: "key_bits (width v6) ?key = net_bits (width v6) ip"
    by (rule swap_endian_bits [OF width_cases ip(1)])
  have eq: "insert_family v6 tb ip c p mem =
      add ?tb v6 (of_nat (width v6)) ?key c (Some p) (fst mem) (snd mem)"
    by (simp add: insert_family_def wg_allowedips_insert_v4_def wg_allowedips_insert_v6_def width_def)
  have len: "width v6 div 8 \<le> length ?key" using ip(1) by (intro swap_endian_length) simp_all
  show ?thesis
    unfolding eq k_def kb [symmetric]
    by (rule add_rep [OF _ len ip(2)]) (use tr m in \<open>auto simp: fresh_mem_def\<close>)
qed

lemma insert_family_entries:
  assumes "allowedips_ok tb" and ip: "width v6 div 8 \<le> length ip" "unat c \<le> width v6" and m: "fresh_mem tb mem"
  defines "k \<equiv> take (unat c) (net_bits (width v6) ip)"
  shows "\<exists>e tb'. insert_family v6 tb ip c p mem = Some (e, tb') \<and> allowedips_ok tb' \<and>
     allowed_entries tb' (\<not> v6) = allowed_entries tb (\<not> v6) \<and>
     (e = None \<and> allowed_entries tb' v6 = insert (k, p) {(q, p') \<in> allowed_entries tb v6. q \<noteq> k} \<or>
      e = Some ENOMEM \<and> (fst mem = None \<or> snd mem = None) \<and> tb' = tb\<lparr>seq := seq tb + 1\<rparr>)"
proof -
  obtain T where tr: "tb_rep tb T" using assms(1) by (auto simp: allowedips_ok_def)
  from insert_family_rep [OF tr ip m, of p, folded k_def] obtain e tb' where
    r: "insert_family v6 tb ip c p mem = Some (e, tb')"
    and d: "e = None \<and> tb_rep tb' (T(v6 := tinsert k p (the (fst mem)) (the (snd mem)) (T v6))) \<or>
      e = Some ENOMEM \<and> (fst mem = None \<or> snd mem = None) \<and> tb' = tb\<lparr>seq := seq tb + 1\<rparr>" by blast
  from d show ?thesis
  proof
    assume s: "e = None \<and> tb_rep tb' (T(v6 := tinsert k p (the (fst mem)) (the (snd mem)) (T v6)))"
    have "allowedips_ok tb'" using s by (auto simp: allowedips_ok_def)
    moreover have "allowed_entries tb' (\<not> v6) = allowed_entries tb (\<not> v6)"
      using tb_rep_entries s tr by (metis (no_types, lifting) fun_upd_other)
    moreover have "allowed_entries tb' v6 = insert (k, p) {(q, p') \<in> allowed_entries tb v6. q \<noteq> k}"
      using tb_rep_entries [OF tr, of v6] tb_rep_entries [OF conjunct2 [OF s], of v6]
        tinsert_entries [OF tb_rep_view(2) [OF tr]] by simp
    ultimately show ?thesis using r s by blast
  next
    assume "e = Some ENOMEM \<and> (fst mem = None \<or> snd mem = None) \<and> tb' = tb\<lparr>seq := seq tb + 1\<rparr>"
    then show ?thesis using r tr by (auto simp: allowedips_ok_def)
  qed
qed

lemma remove_entries:
  assumes "allowedips_ok tb"
  shows "allowedips_ok (wg_allowedips_remove_by_peer tb p)"
    and "allowed_entries (wg_allowedips_remove_by_peer tb p) v6 = {(q, p') \<in> allowed_entries tb v6. p' \<noteq> p}"
proof -
  obtain T where tr: "tb_rep tb T" using assms by (auto simp: allowedips_ok_def)
  let ?as = "peer_lists tb p" and ?tb = "tb\<lparr>seq := seq tb + 1\<rparr>"
  have as: "set ?as = {a. \<exists>v q. (q, p, a) \<in> ents (T v)}" "distinct ?as"
    using tr by (simp_all add: tb_rep_def)
  have "tb_rep ?tb T" "set ?as \<subseteq> {a. \<exists>v q p. (q, p, a) \<in> ents (T v)}" using tr as(1) by auto
  from remove_by_peer_rep [OF this(1) as(2) this(2)] obtain T' where
    T': "tb_rep (foldl remove_node ?tb ?as) T'" "\<forall>v. ents (T' v) = {(q, p, a) \<in> ents (T v). a \<notin> set ?as}"
    by blast
  have gone: "a \<in> set ?as \<longleftrightarrow> p' = p" if "(q, p', a) \<in> ents (T v)" for q p' a v
  proof
    assume "a \<in> set ?as"
    then obtain w q' where "(q', p, a) \<in> ents (T w)" using as(1) by auto
    then show "p' = p" using tb_rep_addr_peer [OF tr that] by metis
  qed (use that as(1) in auto)
  have "tb_rep (wg_allowedips_remove_by_peer tb p) (if ?as = [] then T else T')"
    using tr T'(1) by (simp add: wg_allowedips_remove_by_peer_def)
  moreover have "(q, p', a) \<in> ents ((if ?as = [] then T else T') v6) \<longleftrightarrow>
      (q, p', a) \<in> ents (T v6) \<and> p' \<noteq> p" for q p' a
    using T'(2) gone [of q p' a v6] by (cases "?as = []") auto
  then have "entries ((if ?as = [] then T else T') v6) = {(q, p') \<in> entries (T v6). p' \<noteq> p}"
    unfolding entries_def by blast
  ultimately show "allowedips_ok (wg_allowedips_remove_by_peer tb p)"
    and "allowed_entries (wg_allowedips_remove_by_peer tb p) v6 = {(q, p') \<in> allowed_entries tb v6. p' \<noteq> p}"
    using tb_rep_entries tr by (auto simp: allowedips_ok_def)
qed

section \<open>Reading a node\<close>

lemma mask_arith:
  assumes "0 < c" "i div 8 = (c + 7) div 8 - 1"
  shows "(8 - c mod 8) mod 8 \<le> 7 - i mod 8 \<longleftrightarrow> i < (c::nat)"
proof -
  define s where "s = (c - 1) mod 8"
  define d where "d = (c - 1) div 8"
  define r where "r = i mod 8"
  have "c - 1 = 8 * d + s" by (simp add: d_def s_def)
  then have c: "c = 8 * d + s + 1" using assms(1) by simp
  have s: "s < 8" and r: "r < 8" by (simp_all add: s_def r_def)
  have "(c + 7) div 8 = d + 1" using s unfolding c by simp
  then have i: "i = 8 * d + r" using assms(2) by (simp add: r_def) (metis mult_div_mod_eq)
  have "c mod 8 = (s + 1) mod 8" unfolding c by (metis mod_mult_self4 add.assoc)
  then have "(8 - c mod 8) mod 8 = 7 - s"
  proof (cases "s = 7")
    case False
    then have "(s + 1) mod 8 = s + 1" using s by simp
    then show ?thesis using \<open>c mod 8 = (s + 1) mod 8\<close> s False by simp
  qed simp
  then show ?thesis using s r unfolding i c r_def [symmetric] by (simp add: r_def [symmetric]) linarith
qed

lemma minus_mod8:
  assumes "x \<le> 8 * e"
  shows "(8 * e - x) mod 8 = (8 - x mod 8) mod (8::nat)"
proof -
  define d r where "d = x div 8" and "r = x mod 8"
  have x: "x = 8 * d + r" and r: "r < 8" by (simp_all add: d_def r_def)
  have "8 * e - x = (if r = 0 then 8 * (e - d) else (8 - r) + 8 * (e - d - 1))"
    using assms r unfolding x by auto
  moreover have "((8 - r) + 8 * (e - d - 1)) mod 8 = (8 - r) mod 8" by (rule mod_mult_self2)
  ultimately show ?thesis by (auto simp: r_def [symmetric])
qed

lemma neg_mod8: "unat ((- ucast (c :: u8) :: u32) mod 8) = (8 - unat c mod 8) mod 8"
proof (cases "c = 0")
  case False
  have lt: "unat c < 256" using unat_lt_u8 by simp
  have eq: "2 ^ 32 - unat c + unat c = 2 ^ 32" by (rule le_add_diff_inverse2, rule less_imp_le, rule less_le_trans [OF lt], simp)
  have "(of_nat (2 ^ 32 - unat c) :: u32) + of_nat (unat c) = of_nat (2 ^ 32)"
    unfolding of_nat_add [symmetric] eq ..
  moreover have "(of_nat (2 ^ 32) :: u32) = 0" by (rule iffD2 [OF word_of_nat_eq_0_iff]) simp
  ultimately have "(of_nat (2 ^ 32 - unat c) :: u32) = - of_nat (unat c)"
    using add_eq_0_iff2 by metis
  moreover have "(of_nat (unat c) :: u32) = ucast c" by simp
  ultimately have "(- ucast c :: u32) = of_nat (2 ^ 32 - unat c)" by metis
  moreover have "0 < unat c" using False by (simp add: unat_gt_0)
  moreover have "(2 ^ 32 - unat c) mod 8 = (8 - unat c mod 8) mod 8"
    using minus_mod8 [of "unat c" "2 ^ 29"] less_imp_le [OF less_le_trans [OF lt, of "2 ^ 32"]] by simp
  moreover have "2 ^ 32 - unat c < 2 ^ 32" using \<open>0 < unat c\<close> by simp
  ultimately show ?thesis
    by (simp add: unat_mod unat_of_nat take_bit_eq_mod)
qed simp

lemma swap_endian_back:
  assumes N: "N = 32 \<or> N = 128" and "length src = 16" "length dst = 16"
  shows "net_bits N (swap_endian dst src (of_nat N)) = key_bits N src"
    and "length (swap_endian dst src (of_nat N)) = 16"
proof -
  let ?x = "swap_endian dst src (of_nat N)"
  show len: "length ?x = 16" using assms by (auto simp: swap_endian_def)
  have ne: "(128 :: u8) \<noteq> 32" by (rule u8_128_32)
  have "take (N div 8) (swap_endian dst ?x (of_nat N)) = take (N div 8) src"
  proof (cases "N = 32")
    case True
    then show ?thesis using assms by (simp add: swap_endian_def)
  next
    case False
    then have "N = 128" using N by simp
    moreover have "swap_endian dst y 128 = rev (take 8 y) @ rev (take 8 (drop 8 y)) @ drop 16 dst" for y
      unfolding swap_endian_def using ne by (simp only: if_False if_True refl)
    moreover have "take 8 src @ take 8 (drop 8 src) = src"
      using assms(2) append_take_drop_id [of 8 src] by simp
    ultimately show ?thesis using assms by simp
  qed
  then have "key_bits N (swap_endian dst ?x (of_nat N)) = key_bits N src"
    using N assms len by (intro key_bits_cong) (auto simp: swap_endian_def)
  then show "net_bits N ?x = key_bits N src"
    using swap_endian_bits [OF N, of ?x dst] len N by auto
qed

lemma bit_mask8:
  "j < 8 \<Longrightarrow> bit (ucast (NOT (mask m) :: u32) :: u8) j \<longleftrightarrow> m \<le> j"
  by (auto simp: bit_ucast_iff bit_push_bit_iff bit_not_iff bit_mask_iff)

lemma read_node_bits:
  assumes N: "N = 32 \<or> N = 128" and n: "node_ok N n q pr" and ip: "length ip = 16"
  obtains ip' where "wg_allowedips_read_node n ip = (ip', cidr n, if N = 32 then AF_INET else AF_INET6)"
    "net_bits N ip' = q @ replicate (N - length q) False" "length ip' = 16"
proof -
  define x where "x = swap_endian ip (bits n) (of_nat N)"
  define cb where "cb = (length q + 7) div 8"
  define y where "y = take cb x @ replicate (N div 8 - cb) 0 @ drop (max cb (N div 8)) x"
  define m where "m = (8 - length q mod 8) mod 8"
  define z where "z = (if q \<noteq> [] then y[cb - 1 := y ! (cb - 1) AND ucast (push_bit m (NOT 0 :: u32))] else y)"
  have q: "length q \<le> N" "unat (cidr n) = length q" "q = take (length q) (key_bits N (bits n))"
    "bitlen n = of_nat N" "length (bits n) = 16" using n by (simp_all add: node_ok_def)
  have x: "net_bits N x = key_bits N (bits n)" "length x = 16"
    unfolding x_def using swap_endian_back [OF N q(5) ip] by auto
  have cbN: "cb \<le> N div 8" "N div 8 \<le> 16" using q(1) N by (auto simp: cb_def)
  have y: "length y = 16" "\<And>j. j < cb \<Longrightarrow> y ! j = x ! j" "\<And>j. cb \<le> j \<Longrightarrow> j < N div 8 \<Longrightarrow> y ! j = 0"
    using cbN x(2) by (auto simp: y_def nth_append)
  have "net_bits N z = q @ replicate (N - length q) False"
  proof (rule nth_equalityI)
    fix i assume "i < length (net_bits N z)"
    then have i: "i < N" "i div 8 < N div 8" using N by auto
    have xi: "bit (x ! (i div 8)) (7 - i mod 8) = key_bits N (bits n) ! i"
      using x(1) i(1) by (metis nth_net_bits)
    have qi: "i < length q \<Longrightarrow> key_bits N (bits n) ! i = q ! i" using q(3) by (metis nth_take)
    show "net_bits N z ! i = (q @ replicate (N - length q) False) ! i"
    proof (cases "i div 8 < cb")
      case False
      then have "\<not> i < length q" by (auto simp: cb_def)
      moreover have "0 < cb" if "q \<noteq> []" using that by (cases q) (simp_all add: cb_def)
      then have "z ! (i div 8) = y ! (i div 8)" using False by (auto simp: z_def)
      then have "z ! (i div 8) = 0" using False i y(3) by simp
      ultimately show ?thesis using i by (simp add: nth_append)
    next
      case True
      then have q0: "q \<noteq> []" by (auto simp: cb_def)
      show ?thesis
      proof (cases "i div 8 = cb - 1")
        case last: True
        have "7 - i mod 8 < 8" by simp
        then have "bit (z ! (i div 8)) (7 - i mod 8) \<longleftrightarrow> key_bits N (bits n) ! i \<and> m \<le> 7 - i mod 8"
          using last True y(1,2) q0 xi cbN by (simp add: z_def bit_and_iff bit_mask8)
        moreover have "m \<le> 7 - i mod 8 \<longleftrightarrow> i < length q"
          unfolding m_def using last q0 by (intro mask_arith) (simp_all add: cb_def)
        ultimately show ?thesis using i qi by (auto simp: nth_append)
      next
        case False
        then have "i < length q" using True by (auto simp: cb_def)
        moreover have "z ! (i div 8) = x ! (i div 8)"
          using False True y(2) by (simp add: z_def)
        ultimately show ?thesis using i qi xi by (simp add: nth_append)
      qed
    qed
  qed (use q(1) in simp)
  moreover have "wg_allowedips_read_node n ip = (z, cidr n, if N = 32 then AF_INET else AF_INET6)"
  proof -
    have c: "cidr n \<noteq> 0 \<longleftrightarrow> q \<noteq> []" using q(2) by (auto simp: unat_eq_0)
    have b: "(of_nat N :: u8) = 32 \<longleftrightarrow> N = 32" using N u8_128_32 by auto
    show ?thesis
      unfolding wg_allowedips_read_node_def Let_def neg_mod8 q(2,4) c b unat_of_nat_u8 [OF N]
        x_def [symmetric] cb_def [symmetric] y_def [symmetric] m_def [symmetric] z_def [symmetric] ..
  qed
  moreover have "length z = 16" using y(1) by (simp add: z_def)
  ultimately show ?thesis using that by blast
qed

section \<open>The interface holds for both families\<close>

lemma allowed_entries_unique:
  assumes "allowedips_ok tb" "(q, p) \<in> allowed_entries tb v6" "(q, p') \<in> allowed_entries tb v6"
  shows "p = p'"
proof -
  obtain T where tr: "tb_rep tb T" using assms(1) by (auto simp: allowedips_ok_def)
  obtain a a' where "(q, p, a) \<in> ents (T v6)" "(q, p', a') \<in> ents (T v6)"
    using assms(2,3) unfolding tb_rep_entries [OF tr] entries_iff by blast
  then show ?thesis using wft_ents_unique [OF tb_rep_view(2) [OF tr]] by blast
qed

lemma routing_family:
  "routing_table allowedips_ok (\<lambda>tb. allowed_entries tb v6) (look_family v6) (insert_family v6)
     wg_allowedips_remove_by_peer (net_bits (width v6)) (\<lambda>ip. width v6 div 8 \<le> length ip)
     unat fresh_mem (width v6)"
proof (unfold_locales, goal_cases)
  case (1 tb q p p')
  then show ?case by (rule allowed_entries_unique)
next
  case (2 k)
  then show ?case by simp
next
  case (3 tb ip)
  then show ?case by (rule look_family_lpm)
next
  case (4 tb ip c mem p)
  from insert_family_entries [OF 4, of p] obtain e tb' where
    "insert_family v6 tb ip c p mem = Some (e, tb')" "allowedips_ok tb'"
    "e = None \<and> allowed_entries tb' v6 = insert (take (unat c) (net_bits (width v6) ip), p)
         {(q, p') \<in> allowed_entries tb v6. q \<noteq> take (unat c) (net_bits (width v6) ip)} \<or>
     e \<noteq> None \<and> allowed_entries tb' v6 = allowed_entries tb v6" by force
  then show ?case by (intro exI [of _ e] exI [of _ tb']) auto
next
  case (5 tb p)
  then show ?case using remove_entries by blast
qed

interpretation v4: routing_table allowedips_ok "\<lambda>tb. allowed_entries tb False" "look_family False"
    "insert_family False" wg_allowedips_remove_by_peer "net_bits 32" "\<lambda>ip. 4 \<le> length ip" unat fresh_mem 32
  using routing_family [of False] by (simp add: width_def)

interpretation v6: routing_table allowedips_ok "\<lambda>tb. allowed_entries tb True" "look_family True"
    "insert_family True" wg_allowedips_remove_by_peer "net_bits 128" "\<lambda>ip. 16 \<le> length ip" unat fresh_mem 128
  using routing_family [of True] by (simp add: width_def)

lemma lookup_one_view:
  assumes "allowedips_ok tb" "width v6 div 8 \<le> length ip"
  shows "look_family v6 tb ip = Some (Some p) \<Longrightarrow> 0 < rc p \<Longrightarrow>
      lookup [(tb, rc)] v6 (of_nat (width v6)) ip = Some (Some p, kref_get rc p)"
    and "lookup [(tb, rc)] v6 (of_nat (width v6)) ip = Some (Some p, rc') \<Longrightarrow>
      look_family v6 tb ip = Some (Some p)"
proof -
  obtain T where tr: "tb_rep tb T" using assms(1) by (auto simp: allowedips_ok_def)
  show "look_family v6 tb ip = Some (Some p) \<Longrightarrow> 0 < rc p \<Longrightarrow>
      lookup [(tb, rc)] v6 (of_nat (width v6)) ip = Some (Some p, kref_get rc p)"
    and "lookup [(tb, rc)] v6 (of_nat (width v6)) ip = Some (Some p, rc') \<Longrightarrow>
      look_family v6 tb ip = Some (Some p)"
    by (rule find_node_lpm [OF tr assms(2)];
        auto simp: look_family_def lookup_def wg_peer_get_maybe_zero_def split: if_splits)+
qed

lemma empty_table_ok: "allowedips_ok empty_table"
  unfolding allowedips_ok_def
  by (rule exI [of _ "\<lambda>_. PLf"]) (simp add: tb_rep_def empty_table_def wg_allowedips_init_def root_of_def)

lemma insert_v4_ok:
  assumes "allowedips_ok tb" "4 \<le> length ip" "unat c \<le> 32" "fresh_mem tb (m1, m2)" "m1 \<noteq> None" "m2 \<noteq> None"
  shows "\<exists>tb'. wg_allowedips_insert_v4 tb ip c (Some p) m1 m2 = Some (None, tb') \<and> allowedips_ok tb'"
  using insert_family_entries [of tb False ip c "(m1, m2)" p] assms
  by (auto simp: insert_family_def width_def)

section \<open>Properties\<close>

lemma demo_table_ok: "allowedips_ok demo_table"
proof -
  let ?ins = "wg_allowedips_insert_v4 empty_table [10, 0, 0, 0] 8 (Some 1) (Some 0) (Some 1)"
  obtain tb1 where tb1: "?ins = Some (None, tb1)" "allowedips_ok tb1"
    using insert_v4_ok [OF empty_table_ok, of "[10, 0, 0, 0]" 8 "Some 0" "Some 1" 1]
    by (auto simp: fresh_mem_def empty_table_def wg_allowedips_init_def)
  have "nodes (snd (the ?ins)) 2 = None" "nodes (snd (the ?ins)) 3 = None"
    by code_simp+
  then have "fresh_mem tb1 (Some 2, Some 3)" using tb1(1) by (simp add: fresh_mem_def)
  then obtain tb2 where "wg_allowedips_insert_v4 tb1 [10, 1, 0, 0] 16 (Some 2) (Some 2) (Some 3) =
      Some (None, tb2)" "allowedips_ok tb2"
    using insert_v4_ok [OF tb1(2), of "[10, 1, 0, 0]" 16 "Some 2" "Some 3" 2] by auto
  then show ?thesis using tb1 by (simp add: demo_table_def)
qed

lemma demo_table_fresh: "fresh_mem demo_table (Some 4, Some 5)"
proof -
  have "nodes demo_table 4 = None" "nodes demo_table 5 = None" by code_simp+
  then show ?thesis by (simp add: fresh_mem_def)
qed

text \<open>
  C4. Cryptokey routing is longest-prefix match: whatever sequence of tables a lookup reads
  while peers are being removed, it answers from the first one whose longest matching
  entry is not for a dying peer, with exactly that entry's peer, on which it takes a
  reference, or with no peer if no entry matches; it keeps retrying only while the longest match is a dying peer.
\<close>

theorem lookup_longest_prefix:
  assumes "list_all (\<lambda>view. allowedips_ok (fst view)) views" "width v6 div 8 \<le> length be_ip"
  shows "case lookup views v6 (of_nat (width v6)) be_ip of
      None \<Rightarrow> list_all (\<lambda>view. stale view v6 (net_bits (width v6) be_ip)) views
    | Some r \<Rightarrow> \<exists>us view ws. views = us @ view # ws \<and>
        list_all (\<lambda>view. stale view v6 (net_bits (width v6) be_ip)) us \<and>
        serves view v6 (net_bits (width v6) be_ip) r"
  by (rule lookup_views [OF assms])

theorem lookup_longest_prefix_witness:
  "\<exists>rc. lookup [(demo_table, \<lambda>p. 0), (demo_table, \<lambda>p. 1)] False 32 [10, 1, 2, 3] = Some (Some 2, rc) \<and>
   (\<exists>us view ws. [(demo_table, \<lambda>p. 0), (demo_table, \<lambda>p. 1)] = us @ view # ws \<and>
      list_all (\<lambda>view. stale view False (net_bits 32 [10, 1, 2, 3])) us \<and>
      serves view False (net_bits 32 [10, 1, 2, 3]) (Some 2, rc))"
proof -
  have "map_option fst (lookup [(demo_table, \<lambda>p. 0), (demo_table, \<lambda>p. 1)] False 32 [10, 1, 2, 3]) =
      Some (Some 2)"
    by code_simp
  then obtain rc where
    r: "lookup [(demo_table, \<lambda>p. 0), (demo_table, \<lambda>p. 1)] False 32 [10, 1, 2, 3] = Some (Some 2, rc)"
    by auto
  then show ?thesis
    using lookup_longest_prefix [of "[(demo_table, \<lambda>p. 0), (demo_table, \<lambda>p. 1)]" False "[10, 1, 2, 3]"]
      demo_table_ok by (intro exI [of _ rc]) (simp add: width_def)
qed

text \<open>
  C5. Insertion: with a prefix length in range and memory available, the table gets the
  entry for the first \<open>c\<close> bits of the address, replacing the peer of an entry for the same
  prefix, and keeps all others; the other family is untouched. A prefix length beyond the
  address is refused with EINVAL, and when memory runs out (in either allocation) ENOMEM is
  returned; in both cases only the sequence number of the table has changed.
\<close>

theorem insert_updates_entries:
  assumes "allowedips_ok tb" "width v6 div 8 \<le> length ip" "fresh_mem tb (mem1, mem2)"
  shows "\<exists>e tb'. (if v6 then wg_allowedips_insert_v6 else wg_allowedips_insert_v4) tb ip c (Some p) mem1 mem2
        = Some (e, tb') \<and> allowedips_ok tb' \<and>
     allowed_entries tb' (\<not> v6) = allowed_entries tb (\<not> v6) \<and>
     (let k = take (unat c) (net_bits (width v6) ip) in
      if unat c > width v6 then e = Some EINVAL \<and> tb' = tb\<lparr>seq := seq tb + 1\<rparr>
      else e = None \<and> allowed_entries tb' v6 = insert (k, p) {(q, p') \<in> allowed_entries tb v6. q \<noteq> k} \<or>
           e = Some ENOMEM \<and> (mem1 = None \<or> mem2 = None) \<and> tb' = tb\<lparr>seq := seq tb + 1\<rparr>)"
proof (cases "unat c > width v6")
  case True
  then have "c > of_nat (width v6)"
    using unat_of_nat_u8 [OF width_cases, of v6] by (simp add: word_less_nat_alt)
  then have "(if v6 then wg_allowedips_insert_v6 else wg_allowedips_insert_v4) tb ip c (Some p) mem1 mem2 =
      Some (Some EINVAL, tb\<lparr>seq := seq tb + 1\<rparr>)"
    by (cases v6) (simp_all add: wg_allowedips_insert_v4_def wg_allowedips_insert_v6_def add_def width_def)
  then show ?thesis using True assms(1) by (auto simp: allowedips_ok_def)
next
  case False
  have "(if v6 then wg_allowedips_insert_v6 else wg_allowedips_insert_v4) tb ip c (Some p) mem1 mem2 =
      insert_family v6 tb ip c p (mem1, mem2)" by (simp add: insert_family_def)
  then show ?thesis
    using insert_family_entries [OF assms(1,2) _ assms(3), of c p] False by (simp add: Let_def)
qed

theorem insert_updates_entries_witness:
  "\<exists>e tb'. wg_allowedips_insert_v4 demo_table [10, 1, 2, 3] 32 (Some 3) (Some 4) (Some 5) = Some (e, tb') \<and>
     allowedips_ok tb' \<and>
     allowed_entries tb' False = insert (take 32 (net_bits 32 [10, 1, 2, 3]), 3)
       {(q, p') \<in> allowed_entries demo_table False. q \<noteq> take 32 (net_bits 32 [10, 1, 2, 3])}"
  using insert_updates_entries [OF demo_table_ok, of False "[10, 1, 2, 3]" "Some 4" "Some 5" 32 3]
    demo_table_fresh by (simp add: width_def Let_def) blast

text \<open>
  C6. Removing a peer removes exactly its entries, in both families, and the remaining
  structure is again a valid table (no node of the peer, no useless inner node, lists and
  parent links intact).
\<close>

theorem remove_by_peer_entries:
  assumes "allowedips_ok tb"
  shows "allowedips_ok (wg_allowedips_remove_by_peer tb p) \<and>
     allowed_entries (wg_allowedips_remove_by_peer tb p) v6 = {(q, p') \<in> allowed_entries tb v6. p' \<noteq> p}"
  using remove_entries [OF assms] by blast

theorem remove_by_peer_entries_witness:
  "allowedips_ok (wg_allowedips_remove_by_peer demo_table 1) \<and>
   allowed_entries (wg_allowedips_remove_by_peer demo_table 1) False =
     {(q, p') \<in> allowed_entries demo_table False. p' \<noteq> 1}"
  using remove_by_peer_entries [OF demo_table_ok, of 1 False] .

text \<open>
  C7. Freeing a table ends, never stores beyond the traversal stack of 129 entries, and
  leaves an empty table in which no peer has a node, with the next sequence number.
\<close>

theorem free_empties_table:
  assumes "allowedips_ok tb"
  shows "\<exists>tb'. wg_allowedips_free tb = Some tb' \<and> allowedips_ok tb' \<and> seq tb' = seq tb + 1 \<and>
     root4 tb' = None \<and> root6 tb' = None \<and> nodes tb' = Map.empty \<and> peer_lists tb' = (\<lambda>_. [])"
  using assms free_rep unfolding allowedips_ok_def by blast

theorem free_empties_table_witness:
  "\<exists>tb'. wg_allowedips_free demo_table = Some tb' \<and> nodes tb' = Map.empty \<and> seq tb' = 4"
proof -
  have "seq demo_table = 3" by code_simp
  then show ?thesis using free_empties_table [OF demo_table_ok] by auto
qed

text \<open>
  C8. Reading a node back gives an entry of the table: the address has the bits of the
  prefix followed by zeros, the length is the prefix length, and the family is the one of
  the trie the node is in, so that inserting the reported prefix again gives the same
  entry.
\<close>

theorem read_node_reports_entry:
  assumes "allowedips_ok tb" "nodes tb a = Some n" "peer n = Some p" "length ip = 16"
  shows "\<exists>v6 ip' q. wg_allowedips_read_node n ip = (ip', cidr n, if v6 then AF_INET6 else AF_INET) \<and>
     length ip' = 16 \<and> unat (cidr n) = length q \<and> (q, p) \<in> allowed_entries tb v6 \<and>
     net_bits (width v6) ip' = q @ replicate (width v6 - length q) False"
proof -
  obtain T where tr: "tb_rep tb T" using assms(1) by (auto simp: allowedips_ok_def)
  obtain v6 where "a \<in> set (addrs (T v6))" using assms(2) tb_rep_view(5) [OF tr, of True] by auto
  from rep_node_at [OF tb_rep_view(1) [OF tr] this] obtain q pr where
    n: "node_ok (width v6) n q pr" "\<forall>p. pr = Some p \<longrightarrow> (q, p, a) \<in> ents (T v6)"
    using assms(2) by auto
  have "pr = Some p" using n(1) assms(3) by (simp add: node_ok_def)
  then have "(q, p) \<in> allowed_entries tb v6"
    using n(2) unfolding tb_rep_entries [OF tr] entries_iff by blast
  moreover have "unat (cidr n) = length q" using n(1) by (simp add: node_ok_def)
  moreover have "(if width v6 = 32 then AF_INET else AF_INET6) = (if v6 then AF_INET6 else AF_INET)"
    by (simp add: width_def)
  moreover obtain ip' where
    "wg_allowedips_read_node n ip = (ip', cidr n, if width v6 = 32 then AF_INET else AF_INET6)"
    "net_bits (width v6) ip' = q @ replicate (width v6 - length q) False" "length ip' = 16"
    using read_node_bits [OF width_cases n(1) assms(4)] .
  ultimately show ?thesis by (intro exI [of _ v6] exI [of _ ip'] exI [of _ q]) simp
qed

theorem read_node_reports_entry_witness:
  "\<exists>v6 ip' q. wg_allowedips_read_node (node_at demo_table 2) (replicate 16 0) =
       (ip', cidr (node_at demo_table 2), if v6 then AF_INET6 else AF_INET) \<and>
     length ip' = 16 \<and> unat (cidr (node_at demo_table 2)) = length q \<and>
     (q, 2) \<in> allowed_entries demo_table v6 \<and>
     net_bits (width v6) ip' = q @ replicate (width v6 - length q) False"
proof (rule read_node_reports_entry [OF demo_table_ok])
  have "nodes demo_table 2 \<noteq> None" by code_simp
  then show "nodes demo_table 2 = Some (node_at demo_table 2)" by (auto simp: node_at_def)
  show "peer (node_at demo_table 2) = Some 2" by code_simp
qed simp

text \<open>
  C9. A host route takes effect: after inserting an IPv4 address with prefix length 32 for a
  live peer, packets to that address are routed to the peer, whatever else is in the table.
\<close>

theorem inserted_host_routed:
  assumes "allowedips_ok tb" "fresh_mem tb (mem1, mem2)"
    and "wg_allowedips_insert_v4 tb (ip_daddr (network skb)) 32 (Some p) mem1 mem2 = Some (None, tb')"
    and "protocol skb = htons ETH_P_IP" "20 \<le> length (network skb)" "0 < refs p"
  shows "wg_allowedips_lookup_dst [(tb', refs)] refs skb = Some (Some p, kref_get refs p)"
proof -
  have len: "4 \<le> length (ip_daddr (network skb))" using assms(5) by (simp add: ip_daddr_def)
  have ins: "insert_family False tb (ip_daddr (network skb)) 32 p (mem1, mem2) = Some (None, tb')"
    using assms(3) by (simp add: insert_family_def)
  have "allowedips_ok tb'"
    using insert_family_entries [OF assms(1), of False "ip_daddr (network skb)" 32 "(mem1, mem2)" p]
      len assms(2) ins by (simp add: width_def)
  moreover have "look_family False tb' (ip_daddr (network skb)) = Some (Some p)"
    by (rule v4.ins_look_host [OF assms(1) len _ assms(2) ins]) simp
  ultimately show ?thesis
    using lookup_one_view(1) [of tb' False "ip_daddr (network skb)" p refs] len assms(4,6)
    by (simp add: wg_allowedips_lookup_dst_def width_def)
qed

theorem inserted_host_routed_witness:
  "\<exists>tb'. wg_allowedips_insert_v4 demo_table [10, 1, 2, 3] 32 (Some 3) (Some 4) (Some 5) = Some (None, tb') \<and>
     map_option fst (wg_allowedips_lookup_dst [(tb', \<lambda>_. 1)] (\<lambda>_. 1)
       \<lparr>protocol = htons ETH_P_IP, network = replicate 16 0 @ [10, 1, 2, 3]\<rparr>) = Some (Some 3)"
proof -
  let ?skb = "\<lparr>protocol = htons ETH_P_IP, network = replicate 16 0 @ [10, 1, 2, 3]\<rparr>"
  have d: "ip_daddr (network ?skb) = [10, 1, 2, 3]" by (simp add: ip_daddr_def)
  obtain tb' where "wg_allowedips_insert_v4 demo_table [10, 1, 2, 3] 32 (Some 3) (Some 4) (Some 5) = Some (None, tb')"
    using insert_v4_ok [OF demo_table_ok, of "[10, 1, 2, 3]" 32 "Some 4" "Some 5" 3] demo_table_fresh by auto
  moreover from this have "map_option fst (wg_allowedips_lookup_dst [(tb', \<lambda>_. 1)] (\<lambda>_. 1) ?skb) = Some (Some 3)"
    using inserted_host_routed [OF demo_table_ok demo_table_fresh, of ?skb 3 tb' "\<lambda>_. 1"] d by simp
  ultimately show ?thesis by blast
qed



end
