(* ===== verification/WG_Peer.thy ===== *)
theory WG_Peer
  imports WG_Xmit WG_AllowedIPs_Spec
begin

text \<open>
  The life of a peer, \<^verbatim>\<open>peer.c\<close>: creation, and removal in two phases. First the peer is taken out
  of the tables that configuration-time lookups use and is marked dead; then, after a grace
  period, its keys and timers go and the work that may still hold it is waited for. Reference
  counts are in \<^verbatim>\<open>WG_State\<close>.

  Where the code waits for other contexts (\<^verbatim>\<open>synchronize_net\<close>, \<^verbatim>\<open>flush_workqueue\<close>,
  \<^verbatim>\<open>napi_disable\<close>), a function says what those contexts do to the interface until the wait
  is over.
\<close>

section \<open>Creation\<close>

definition new_peer :: "env \<Rightarrow> wg_peer \<Rightarrow> u64 \<Rightarrow> wg_peer" where
  "new_peer env q ident =
     (let q = q\<lparr>pe_internal_id := ident, pe_serial_work_cpu := length (e_online env),
            pe_latest_cookie := wg_cookie_init (pe_latest_cookie q)\<rparr>;
          q = wg_timers_init q;
          q = wg_cookie_checker_precompute_peer_keys env q
      in q\<lparr>pe_transmit_handshake_work := False, pe_transmit_packet_work := False,
           pe_tx_queue := wg_prev_queue_init (pe_tx_queue q), pe_rx_queue := wg_prev_queue_init (pe_rx_queue q),
           pe_staged_packet_queue := [], pe_napi_scheduled := False, pe_napi_enabled := True\<rparr>)"

definition wg_peer_create :: "env \<Rightarrow> bytes \<Rightarrow> bytes option \<Rightarrow> wg_device \<Rightarrow> (errno + peer_id) \<times> wg_device" where
  "wg_peer_create env public_key preshared_key wg =
     (if dv_num_peers wg \<ge> MAX_PEERS_PER_DEVICE then (Inl ENOMEM, wg)
      else
        case e_peer_mem env of
          None \<Rightarrow> (Inl ENOMEM, wg)
        | Some p \<Rightarrow>
            if \<not> e_dst_cache_ok env then (Inl ENOMEM, wg)
            else
              let wg = upd_peer p (\<lambda>_. zero_peer) wg;
                  wg = wg_noise_handshake_init env p public_key preshared_key wg;
                  wg = wg\<lparr>dv_peer_counter := dv_peer_counter wg + 1\<rparr>;
                  wg = upd_peer p (\<lambda>q. new_peer env q (dv_peer_counter wg)) wg;
                  wg = wg\<lparr>dv_refs := (dv_refs wg)(p := 1)\<rparr>;
                  wg = wg_noise_reset_last_sent_handshake env p wg;
                  wg = wg\<lparr>dv_peer_list := dv_peer_list wg @ [p]\<rparr>;
                  wg = wg\<lparr>dv_peer_allowedips := (dv_peer_allowedips wg)
                         \<lparr>peer_lists := (peer_lists (dv_peer_allowedips wg))(p := [])\<rparr>\<rparr>;
                  wg = wg\<lparr>dv_peer_hashtable := wg_pubkey_hashtable_add (siphash env) (remote_static_of wg)
                         (dv_peer_hashtable wg) p\<rparr>
              in (Inr p, wg\<lparr>dv_num_peers := dv_num_peers wg + 1\<rparr>))"

section \<open>Removal\<close>

definition peer_make_dead :: "peer_id \<Rightarrow> wg_device \<Rightarrow> wg_device" where
  "peer_make_dead p wg =
     (let wg = wg\<lparr>dv_peer_list := remove1 p (dv_peer_list wg)\<rparr>;
          wg = wg\<lparr>dv_peer_allowedips := wg_allowedips_remove_by_peer (dv_peer_allowedips wg) p\<rparr>;
          wg = wg\<lparr>dv_peer_hashtable := wg_pubkey_hashtable_remove (dv_peer_hashtable wg) p\<rparr>
      in upd_peer p (\<lambda>q. q\<lparr>pe_is_dead := True\<rparr>) wg)"

text \<open>What happens while the code waits, in the order of the waits.\<close>

record waits =
  after_crypt :: "wg_device \<Rightarrow> wg_device"
  after_serial :: "wg_device \<Rightarrow> wg_device"
  after_napi :: "wg_device \<Rightarrow> wg_device"
  after_handshake :: "wg_device \<Rightarrow> wg_device"

definition peer_remove_after_dead :: "waits \<Rightarrow> peer_id \<Rightarrow> wg_device \<Rightarrow> wg_device" where
  "peer_remove_after_dead ws p wg =
     (let wg = wg_noise_keypairs_clear p wg;
          wg = wg_timers_stop p wg;
          wg = after_crypt ws wg;
          wg = after_serial ws wg;
          wg = upd_peer p (\<lambda>q. q\<lparr>pe_napi_enabled := False\<rparr>) (after_napi ws wg);
          wg = after_handshake ws wg;
          wg = wg\<lparr>dv_num_peers := dv_num_peers wg - 1\<rparr>
      in wg_peer_put (Some p) wg)"

definition wg_peer_remove :: "(wg_device \<Rightarrow> wg_device) \<Rightarrow> waits \<Rightarrow> peer_id option \<Rightarrow> wg_device \<Rightarrow> wg_device" where
  "wg_peer_remove after_net ws popt wg =
     (case popt of
        None \<Rightarrow> wg
      | Some p \<Rightarrow> peer_remove_after_dead ws p (after_net (peer_make_dead p wg)))"

definition wg_peer_remove_all ::
    "(wg_device \<Rightarrow> wg_device) \<Rightarrow> (peer_id \<Rightarrow> waits) \<Rightarrow> wg_device \<Rightarrow> wg_device option" where
  "wg_peer_remove_all after_net ws wg =
     do {
       ips \<leftarrow> wg_allowedips_free (dv_peer_allowedips wg);
       let dead_peers = dv_peer_list wg;
       let wg = foldl (\<lambda>wg p. peer_make_dead p wg) (wg\<lparr>dv_peer_allowedips := ips\<rparr>) dead_peers;
       let wg = after_net wg;
       Some (foldl (\<lambda>wg p. peer_remove_after_dead (ws p) p wg) wg dead_peers)
     }"

text \<open>After the grace period the memory is zeroed. The flag is the condition of the warning.\<close>

definition rcu_release :: "peer_id \<Rightarrow> wg_device \<Rightarrow> bool \<times> wg_device" where
  "rcu_release p wg =
     (fst (wg_prev_queue_peek (pe_tx_queue (dv_peers wg p))) \<noteq> None \<or>
      fst (wg_prev_queue_peek (pe_rx_queue (dv_peers wg p))) \<noteq> None,
      upd_peer p (\<lambda>_. zero_peer) (wg\<lparr>dv_rcu_peers := remove1 p (dv_rcu_peers wg)\<rparr>))"

section \<open>What runs beside the configuration\<close>

text \<open>
  Everything that packets in both directions, timers and workers do to an interface, in any
  order and for any peer, and the end of grace periods of keypairs. The last steps of \<^verbatim>\<open>wg_xmit\<close> are
  also there alone, for a call that had found its peer earlier. The memory of a peer is
  released only when nothing refers to the peer any more.
\<close>

inductive live :: "wg_device \<Rightarrow> wg_device \<Rightarrow> bool" where
  stop: "live v v"
| seq: "live u v \<Longrightarrow> live v w \<Longrightarrow> live u w"
| xmit_staged: "live v (wg_packet_send_staged_packets env r v)"
| keepalive: "live v (wg_packet_send_keepalive env r v)"
| tx_work: "wg_packet_tx_worker envs r v = Some w \<Longrightarrow> live v w"
| encrypt_work: "wg_packet_encrypt_worker envs cpu v = Some w \<Longrightarrow> live v w"
| decrypt_work: "wg_packet_decrypt_worker envs cpu v = Some w \<Longrightarrow> live v w"
| rx: "(\<forall>x\<in>set steps. \<forall>v. live v (snd x v)) \<Longrightarrow> wg_packet_rx_poll steps r budget v = Some (n, w) \<Longrightarrow> live v w"
| handshake_work: "(\<forall>x\<in>set steps. \<forall>v. live v (snd x v)) \<Longrightarrow>
     wg_packet_handshake_receive_worker steps cpu v = Some w \<Longrightarrow> live v w"
| initiation_work: "wg_packet_handshake_send_worker env r v = Some w \<Longrightarrow> live v w"
| receive: "live v (wg_packet_receive env skb v)"
| retransmit: "live v (wg_expired_retransmit_handshake env r v)"
| send_keepalive: "live v (wg_expired_send_keepalive env r v)"
| new_handshake: "live v (wg_expired_new_handshake env r v)"
| zero_keys: "live v (wg_expired_zero_key_material r v)"
| zero_keys_work: "live v (wg_queued_expired_zero_key_material r v)"
| persistent_keepalive: "live v (wg_expired_send_persistent_keepalive env r v)"
| transmit: "wg_xmit env x skb v = Some (ret, icmp, w) \<Longrightarrow> live v w"
| staging: "live v (stage r packets v)"
| put: "live v (wg_peer_put x v)"
| keypair_grace: "live v (rcu_keypair_callback k v)"

text \<open>
  What only the configuration changes: the list and the number of peers, the tables of public
  keys and of allowed addresses, the key of the interface, and of every peer its public key
  and whether it is dead.
\<close>

definition peer_ident :: "wg_peer \<Rightarrow> bool \<times> bytes" where
  "peer_ident q = (pe_is_dead q, hs_remote_static (pe_handshake q))"

record config =
  cf_list :: "peer_id list"
  cf_num :: nat
  cf_keys :: "bytes pubkey_hashtable"
  cf_ips :: allowedips
  cf_identity :: noise_static_identity
  cf_peers :: "peer_id \<Rightarrow> bool \<times> bytes"

definition conf :: "wg_device \<Rightarrow> config" where
  "conf wg = \<lparr>cf_list = dv_peer_list wg, cf_num = dv_num_peers wg, cf_keys = dv_peer_hashtable wg,
     cf_ips = dv_peer_allowedips wg, cf_identity = dv_static_identity wg, cf_peers = (\<lambda>p. peer_ident (dv_peers wg p))\<rparr>"

text \<open>A peer that is not in the tables.\<close>

definition absent :: "peer_id \<Rightarrow> config \<Rightarrow> bool" where
  "absent p c \<longleftrightarrow>
     p \<notin> set (cf_list c) \<and> hl_pprev (ph_hashtable (cf_keys c)) p = None \<and> (\<forall>v6 q. (q, p) \<notin> allowed_entries (cf_ips c) v6)"

text \<open>When the flag is set, the peer is dead, without keys and without pending timers.\<close>

definition calm :: "bool \<Rightarrow> wg_peer \<Rightarrow> bool" where
  "calm cl q \<longleftrightarrow> (cl \<longrightarrow> pe_is_dead q \<and> pe_keypairs q = zero_keypairs \<and> pending_timers q = [])"

text \<open>A removed peer: not in the tables, marked dead, without keys and without pending timers.\<close>

definition gone :: "peer_id \<Rightarrow> wg_device \<Rightarrow> bool" where
  "gone p wg \<longleftrightarrow> absent p (conf wg) \<and> calm True (dv_peers wg p)"

definition still :: "bool \<Rightarrow> peer_id \<Rightarrow> config \<Rightarrow> wg_device \<Rightarrow> bool" where
  "still cl p c wg \<longleftrightarrow> conf wg = c \<and> calm cl (dv_peers wg p)"

section \<open>Dead peers stay dead\<close>

declare rx_rounds.simps [simp del] decrypt_rounds.simps [simp del] handshake_rounds.simps [simp del]

lemma calm_simps [simp]:
  "calm cl (q\<lparr>pe_tx_queue := a1\<rparr>) = calm cl q" "calm cl (q\<lparr>pe_rx_queue := a2\<rparr>) = calm cl q"
  "calm cl (q\<lparr>pe_staged_packet_queue := a3\<rparr>) = calm cl q" "calm cl (q\<lparr>pe_serial_work_cpu := a4\<rparr>) = calm cl q"
  "calm cl (q\<lparr>pe_endpoint := a5\<rparr>) = calm cl q" "calm cl (q\<lparr>pe_endpoint_cache := a6\<rparr>) = calm cl q"
  "calm cl (q\<lparr>pe_handshake := a7\<rparr>) = calm cl q" "calm cl (q\<lparr>pe_last_sent_handshake := a8\<rparr>) = calm cl q"
  "calm cl (q\<lparr>pe_transmit_handshake_work := a9\<rparr>) = calm cl q" "calm cl (q\<lparr>pe_clear_peer_work := b1\<rparr>) = calm cl q"
  "calm cl (q\<lparr>pe_transmit_packet_work := b2\<rparr>) = calm cl q" "calm cl (q\<lparr>pe_latest_cookie := b3\<rparr>) = calm cl q"
  "calm cl (q\<lparr>pe_rx_bytes := b4\<rparr>) = calm cl q" "calm cl (q\<lparr>pe_tx_bytes := b5\<rparr>) = calm cl q"
  "calm cl (q\<lparr>pe_timer_handshake_attempts := b6\<rparr>) = calm cl q" "calm cl (q\<lparr>pe_timer_need_another_keepalive := b7\<rparr>) = calm cl q"
  "calm cl (q\<lparr>pe_sent_lastminute_handshake := b8\<rparr>) = calm cl q" "calm cl (q\<lparr>pe_walltime_last_handshake := b9\<rparr>) = calm cl q"
  "calm cl (q\<lparr>pe_napi_scheduled := c1\<rparr>) = calm cl q" "calm cl (q\<lparr>pe_napi_enabled := c2\<rparr>) = calm cl q"
  by (simp_all add: calm_def pending_timers_def)

lemma calm_no_timer [simp]:
  "calm cl q \<Longrightarrow> calm cl (pe_timer_retransmit_handshake_update (\<lambda>_. None) q)"
  "calm cl q \<Longrightarrow> calm cl (pe_timer_send_keepalive_update (\<lambda>_. None) q)"
  "calm cl q \<Longrightarrow> calm cl (pe_timer_new_handshake_update (\<lambda>_. None) q)"
  "calm cl q \<Longrightarrow> calm cl (pe_timer_zero_key_material_update (\<lambda>_. None) q)"
  "calm cl q \<Longrightarrow> calm cl (pe_timer_persistent_keepalive_update (\<lambda>_. None) q)"
  by (simp_all add: calm_def pending_timers_def)

lemma peer_ident_simps [simp]:
  "peer_ident (q\<lparr>pe_tx_queue := a1\<rparr>) = peer_ident q" "peer_ident (q\<lparr>pe_rx_queue := a2\<rparr>) = peer_ident q"
  "peer_ident (q\<lparr>pe_staged_packet_queue := a3\<rparr>) = peer_ident q" "peer_ident (q\<lparr>pe_serial_work_cpu := a4\<rparr>) = peer_ident q"
  "peer_ident (q\<lparr>pe_endpoint := a5\<rparr>) = peer_ident q" "peer_ident (q\<lparr>pe_endpoint_cache := a6\<rparr>) = peer_ident q"
  "peer_ident (q\<lparr>pe_keypairs := a7\<rparr>) = peer_ident q" "peer_ident (q\<lparr>pe_last_sent_handshake := a8\<rparr>) = peer_ident q"
  "peer_ident (q\<lparr>pe_transmit_handshake_work := a9\<rparr>) = peer_ident q" "peer_ident (q\<lparr>pe_clear_peer_work := b1\<rparr>) = peer_ident q"
  "peer_ident (q\<lparr>pe_transmit_packet_work := b2\<rparr>) = peer_ident q" "peer_ident (q\<lparr>pe_latest_cookie := b3\<rparr>) = peer_ident q"
  "peer_ident (q\<lparr>pe_rx_bytes := b4\<rparr>) = peer_ident q" "peer_ident (q\<lparr>pe_tx_bytes := b5\<rparr>) = peer_ident q"
  "peer_ident (q\<lparr>pe_timer_handshake_attempts := b6\<rparr>) = peer_ident q" "peer_ident (q\<lparr>pe_timer_need_another_keepalive := b7\<rparr>) = peer_ident q"
  "peer_ident (q\<lparr>pe_sent_lastminute_handshake := b8\<rparr>) = peer_ident q" "peer_ident (q\<lparr>pe_walltime_last_handshake := b9\<rparr>) = peer_ident q"
  "peer_ident (q\<lparr>pe_napi_scheduled := c1\<rparr>) = peer_ident q" "peer_ident (q\<lparr>pe_napi_enabled := c2\<rparr>) = peer_ident q"
  "peer_ident (q\<lparr>pe_persistent_keepalive_interval := c3\<rparr>) = peer_ident q"
  "peer_ident (pe_timer_retransmit_handshake_update t1 q) = peer_ident q" "peer_ident (pe_timer_send_keepalive_update t1 q) = peer_ident q"
  "peer_ident (pe_timer_new_handshake_update t1 q) = peer_ident q" "peer_ident (pe_timer_zero_key_material_update t1 q) = peer_ident q"
  "peer_ident (pe_timer_persistent_keepalive_update t1 q) = peer_ident q"
  by (simp_all add: peer_ident_def)

lemma peer_ident_handshake [simp]:
  "hs_remote_static h = hs_remote_static (pe_handshake q) \<Longrightarrow> peer_ident (q\<lparr>pe_handshake := h\<rparr>) = peer_ident q"
  by (simp add: peer_ident_def)

lemma still_peer:
  "still cl p c wg \<Longrightarrow> (\<And>q. calm cl q \<Longrightarrow> calm cl (f q)) \<Longrightarrow> (\<And>q. peer_ident (f q) = peer_ident q) \<Longrightarrow>
     still cl p c (upd_peer r f wg)"
  by (auto simp: still_def conf_def upd_peer_def fun_eq_iff)

lemma still_fields [simp]:
  "still cl p c (wg\<lparr>dv_refs := x1\<rparr>) = still cl p c wg" "still cl p c (wg\<lparr>dv_index_hashtable := x2\<rparr>) = still cl p c wg"
  "still cl p c (wg\<lparr>dv_encrypt_queue := x3\<rparr>) = still cl p c wg" "still cl p c (wg\<lparr>dv_decrypt_queue := x4\<rparr>) = still cl p c wg"
  "still cl p c (wg\<lparr>dv_handshake_queue := x5\<rparr>) = still cl p c wg" "still cl p c (wg\<lparr>dv_handshake_queue_len := x6\<rparr>) = still cl p c wg"
  "still cl p c (wg\<lparr>dv_sent := x7\<rparr>) = still cl p c wg" "still cl p c (wg\<lparr>dv_delivered := x8\<rparr>) = still cl p c wg"
  "still cl p c (wg\<lparr>dv_inflight := x9\<rparr>) = still cl p c wg" "still cl p c (wg\<lparr>dv_cookie_checker := y1\<rparr>) = still cl p c wg"
  "still cl p c (wg\<lparr>dv_ratelimiter := y2\<rparr>) = still cl p c wg" "still cl p c (wg\<lparr>dv_last_under_load := y3\<rparr>) = still cl p c wg"
  "still cl p c (wg\<lparr>dv_keypair_counter := y4\<rparr>) = still cl p c wg" "still cl p c (wg\<lparr>dv_keypairs := y5\<rparr>) = still cl p c wg"
  "still cl p c (wg\<lparr>dv_rcu_keypairs := y6\<rparr>) = still cl p c wg" "still cl p c (wg\<lparr>dv_aeads := y7\<rparr>) = still cl p c wg"
  "still cl p c (wg\<lparr>dv_rx_packets := y8\<rparr>) = still cl p c wg" "still cl p c (wg\<lparr>dv_rx_bytes := y9\<rparr>) = still cl p c wg"
  "still cl p c (wg\<lparr>dv_rx_errors := z1\<rparr>) = still cl p c wg" "still cl p c (wg\<lparr>dv_rx_frame_errors := z2\<rparr>) = still cl p c wg"
  "still cl p c (wg\<lparr>dv_rx_length_errors := z3\<rparr>) = still cl p c wg" "still cl p c (wg\<lparr>dv_tx_dropped := z4\<rparr>) = still cl p c wg"
  "still cl p c (wg\<lparr>dv_rcu_peers := z5\<rparr>) = still cl p c wg" "still cl p c (wg\<lparr>dv_tx_errors := z6\<rparr>) = still cl p c wg"
  by (simp_all add: still_def conf_def)

lemma still_updates [simp]:
  "still cl p c (upd_keypair k f wg) = still cl p c wg"
  "still cl p c (put_batch a xs wg) = still cl p c wg"
  "still cl p c (free_batch a wg) = still cl p c wg"
  "still cl p c (set_state a ps wg) = still cl p c wg"
  "still cl p c (set_device_queue d dq wg) = still cl p c wg"
  "still cl p c (get_peer_ref r wg) = still cl p c wg"
  "still cl p c (index_remove e wg) = still cl p c wg"
  by (simp_all add: upd_keypair_def put_batch_def free_batch_def set_state_def set_device_queue_def get_peer_ref_def
      index_remove_def split: direction.split)

lemma still_updates_peer [simp]:
  "still cl p c wg \<Longrightarrow> (\<And>x. hs_remote_static (h x) = hs_remote_static x) \<Longrightarrow> still cl p c (upd_handshake r h wg)"
  "still cl p c wg \<Longrightarrow> still cl p c (set_peer_queue d r q wg)"
  "still cl p c wg \<Longrightarrow> still cl p c (wg_packet_purge_staged_packets r wg)"
  "still cl p c wg \<Longrightarrow> still cl p c (wg_peer_put x wg)"
  "still cl p c wg \<Longrightarrow> still cl p c (wg_noise_keypair_put k now wg)"
  "still cl p c wg \<Longrightarrow> still cl p c (now_sent_handshake env r wg)"
  by (simp_all add: upd_handshake_def set_peer_queue_def wg_packet_purge_staged_packets_def wg_peer_put_def kref_release_def
      wg_noise_keypair_put_def keypair_free_kref_def now_sent_handshake_def still_peer Let_def
      split: direction.split option.split)

lemma still_mod_timer [simp]:
  assumes "still cl p c wg" "\<And>x q. peer_ident (t x q) = peer_ident q"
  shows "still cl p c (mod_peer_timer t r e wg)"
proof (cases "cl \<and> r = p")
  case True
  then show ?thesis using assms by (simp add: mod_peer_timer_def still_def calm_def)
next
  case False
  then show ?thesis using assms by (auto simp: mod_peer_timer_def still_def conf_def calm_def upd_peer_def fun_eq_iff)
qed

lemma still_del_timer [simp]:
  "still cl p c wg \<Longrightarrow> still cl p c (del_timer pe_timer_retransmit_handshake_update r wg)"
  "still cl p c wg \<Longrightarrow> still cl p c (del_timer pe_timer_send_keepalive_update r wg)"
  "still cl p c wg \<Longrightarrow> still cl p c (del_timer pe_timer_new_handshake_update r wg)"
  "still cl p c wg \<Longrightarrow> still cl p c (del_timer pe_timer_zero_key_material_update r wg)"
  "still cl p c wg \<Longrightarrow> still cl p c (del_timer pe_timer_persistent_keepalive_update r wg)"
  by (simp_all add: del_timer_def still_peer)

lemma still_events [simp]:
  "still cl p c wg \<Longrightarrow> still cl p c (wg_timers_data_sent env r wg)"
  "still cl p c wg \<Longrightarrow> still cl p c (wg_timers_data_received env r wg)"
  "still cl p c wg \<Longrightarrow> still cl p c (wg_timers_any_authenticated_packet_sent r wg)"
  "still cl p c wg \<Longrightarrow> still cl p c (wg_timers_any_authenticated_packet_received r wg)"
  "still cl p c wg \<Longrightarrow> still cl p c (wg_timers_any_authenticated_packet_traversal env r wg)"
  "still cl p c wg \<Longrightarrow> still cl p c (wg_timers_handshake_initiated env r wg)"
  "still cl p c wg \<Longrightarrow> still cl p c (wg_timers_handshake_complete env r wg)"
  "still cl p c wg \<Longrightarrow> still cl p c (wg_timers_session_derived env r wg)"
  by (simp_all add: wg_timers_data_sent_def wg_timers_data_received_def wg_timers_any_authenticated_packet_sent_def
      wg_timers_any_authenticated_packet_received_def wg_timers_any_authenticated_packet_traversal_def
      wg_timers_handshake_initiated_def wg_timers_handshake_complete_def wg_timers_session_derived_def still_peer)


lemma still_send:
  assumes "still cl p c v"
  shows "wg_socket_send_skb_to_peer env r bs ds v = (e, w) \<Longrightarrow> still cl p c w"
    "wg_socket_send_buffer_to_peer env r bs ds v = (e, w) \<Longrightarrow> still cl p c w"
proof -
  show skb: "still cl p c w" if "wg_socket_send_skb_to_peer env r bs ds v = (e, w)" for e w
    using that by (rule send_skb_shape) (use assms in \<open>auto intro!: still_peer split: if_splits\<close>)
  show "still cl p c w" if "wg_socket_send_buffer_to_peer env r bs ds v = (e, w)"
    using that assms by (auto simp: wg_socket_send_buffer_to_peer_def dest: skb split: option.splits)
qed

lemma still_reply: "still cl p c v \<Longrightarrow> still cl p c (wg_packet_send_handshake_cookie env skb i v)"
proof -
  assume v: "still cl p c v"
  obtain m w where m: "wg_cookie_message_create env skb i v = (m, w)" by fastforce
  have w: "still cl p c w" using m v by (auto simp: wg_cookie_message_create_def Let_def split: prod.splits)
  have "still cl p c x" if "send_to env bs ep ds None w = (e, ep', ch, x)" for bs ep ds e ep' ch x
    using send_to_ok [of ep None ds bs w env] w unfolding that by (auto simp: send_ok_def split: if_splits)
  then show ?thesis
    using w by (auto simp: wg_packet_send_handshake_cookie_def m wg_socket_send_buffer_as_reply_to_skb_def Let_def
        split: prod.splits option.split)
qed

lemma still_queued [simp]:
  "still cl p c v \<Longrightarrow> still cl p c (wg_packet_send_queued_handshake_initiation env r b v)"
  "still cl p c v \<Longrightarrow> still cl p c (keep_key_fresh_tx env r v)"
  "still cl p c v \<Longrightarrow> still cl p c (keep_key_fresh_rx env r v)"
  "still cl p c v \<Longrightarrow> still cl p c (wg_socket_clear_peer_endpoint_src r v)"
  "still cl p c v \<Longrightarrow> still cl p c (wg_socket_set_peer_endpoint r ep v)"
  "still cl p c v \<Longrightarrow> still cl p c (wg_socket_set_peer_endpoint_from_skb env r skb v)"
  "still cl p c v \<Longrightarrow> still cl p c (update_rx_stats r n v)"
  by (simp_all add: wg_packet_send_queued_handshake_initiation_def keep_key_fresh_tx_def keep_key_fresh_rx_def
      wg_socket_clear_peer_endpoint_src_def wg_socket_set_peer_endpoint_def wg_socket_set_peer_endpoint_from_skb_def
      update_rx_stats_def still_peer Let_def split: option.split sockaddr.split)

lemma still_enqueue:
  "still cl p c v \<Longrightarrow> still cl p c (wg_queue_enqueue_per_peer_tx env a ps v)"
  "still cl p c v \<Longrightarrow> still cl p c (wg_queue_enqueue_per_peer_rx a ps v)"
  "still cl p c v \<Longrightarrow> wg_queue_enqueue_per_device_and_peer env d r a v = (e, w) \<Longrightarrow> still cl p c w"
  by (auto simp: wg_queue_enqueue_per_peer_tx_def wg_queue_enqueue_per_peer_rx_def
      wg_queue_enqueue_per_device_and_peer_def still_peer Let_def split: prod.splits if_splits)

lemma still_keypair_get: "still cl p c v \<Longrightarrow> wg_noise_keypair_get k v = (r, w) \<Longrightarrow> still cl p c w"
  by (auto simp: wg_noise_keypair_get_def split: option.splits if_splits)

lemma still_staged [simp]:
  assumes "still cl p c v"
  shows "still cl p c (wg_packet_send_staged_packets env r v)" "still cl p c (wg_packet_send_keepalive env r v)"
proof -
  have cd: "still cl p c x \<Longrightarrow> still cl p c (wg_packet_create_data env r a x)" for a x
    by (auto simp: wg_packet_create_data_def Let_def still_enqueue(1) dest: still_enqueue(3) split: prod.split)
  have out: "still cl p c x \<Longrightarrow> still cl p c (out_nokey env r k ps x)" "still cl p c x \<Longrightarrow> still cl p c (out_invalid env r j ps x)" for k j ps x
    by (simp_all add: out_invalid_def out_nokey_def Let_def still_peer)
  have get: "wg_noise_keypair_get k (upd_peer r (\<lambda>q. q\<lparr>pe_staged_packet_queue := xs\<rparr>) x) = (kk, u) \<Longrightarrow> still cl p c x \<Longrightarrow> still cl p c u"
    for k xs x kk u by (rule still_keypair_get [OF still_peer]) simp_all
  have sb: "still cl p c x \<Longrightarrow> stage_batch env r x = (a, y) \<Longrightarrow> still cl p c y" for a x y
    by (auto simp: stage_batch_def Let_def out still_peer dest: get
        split: prod.splits option.splits if_splits)
  have staged: "still cl p c x \<Longrightarrow> still cl p c (wg_packet_send_staged_packets env r x)" for x
    by (auto simp: wg_packet_send_staged_packets_def cd dest: sb split: prod.split option.split)
  then show "still cl p c (wg_packet_send_staged_packets env r v)" using assms by blast
  show "still cl p c (wg_packet_send_keepalive env r v)"
    using assms by (auto simp: wg_packet_send_keepalive_def Let_def staged still_peer split: option.split)
qed


lemma still_workers:
  assumes "still cl p c v"
  shows "wg_packet_tx_worker envs r v = Some w \<Longrightarrow> still cl p c w"
    "wg_packet_encrypt_worker envs cpu v = Some w \<Longrightarrow> still cl p c w"
    "wg_packet_decrypt_worker envs cpu v = Some w \<Longrightarrow> still cl p c w"
proof -
  have sl: "still cl p c x \<Longrightarrow> send_list env r skbs b x = (e, y) \<Longrightarrow> still cl p c y" for env skbs b x e y
    by (induction skbs arbitrary: b x) (auto simp: Let_def dest: still_send(1) split: prod.splits)
  have cdd: "still cl p c x \<Longrightarrow> still cl p c (wg_packet_create_data_done env r skbs x)" for env skbs x
    by (auto simp: wg_packet_create_data_done_def Let_def dest: sl [rotated] split: prod.split)
  have txr: "still cl p c x \<Longrightarrow> still cl p c (tx_round env r a x)" for env a x
    by (simp add: tx_round_def Let_def cdd still_peer)
  have txs: "tx_rounds envs r x = Some y \<Longrightarrow> still cl p c x \<Longrightarrow> still cl p c y" for envs x y
  proof (induction envs arbitrary: x)
    case Nil
    then show ?case by (auto simp: tx_rounds.simps [of "[]"] Let_def txr still_peer split: prod.splits option.splits if_splits)
  next
    case (Cons e es)
    show ?case
      using Cons.prems by (auto simp: tx_rounds.simps [of "e # es"] Let_def txr still_peer dest!: Cons.IH split: prod.splits option.splits if_splits)
  qed
  then show "wg_packet_tx_worker envs r v = Some w \<Longrightarrow> still cl p c w"
    using assms by (auto simp: wg_packet_tx_worker_def still_peer dest!: txs)
  have er: "still cl p c x \<Longrightarrow> still cl p c (encrypt_round env a x)" for env a x
    by (simp add: encrypt_round_def Let_def still_enqueue split: prod.split)
  have ers: "encrypt_rounds envs x = Some y \<Longrightarrow> still cl p c x \<Longrightarrow> still cl p c y" for envs x y
  proof (induction envs arbitrary: x)
    case Nil
    then show ?case by (auto simp: encrypt_rounds.simps [of "[]"] Let_def er split: prod.splits option.splits)
  next
    case (Cons e es)
    show ?case
      using Cons.prems by (auto simp: encrypt_rounds.simps [of "e # es"] Let_def er dest!: Cons.IH split: prod.splits option.splits)
  qed
  then show "wg_packet_encrypt_worker envs cpu v = Some w \<Longrightarrow> still cl p c w"
    using assms by (auto simp: wg_packet_encrypt_worker_def dest!: ers)
  have dp: "still cl p c x \<Longrightarrow> decrypt_packet env skb k x = (e, y) \<Longrightarrow> still cl p c y" for env skb k x e y
    by (auto simp: decrypt_packet_def Let_def split: option.splits if_splits)
  have dr: "still cl p c x \<Longrightarrow> still cl p c (decrypt_round env a x)" for env a x
    by (auto simp: decrypt_round_def still_enqueue dest: dp [rotated] split: prod.split option.split)
  have drs: "decrypt_rounds envs x = Some y \<Longrightarrow> still cl p c x \<Longrightarrow> still cl p c y" for envs x y
  proof (induction envs arbitrary: x)
    case Nil
    then show ?case by (auto simp: decrypt_rounds.simps [of "[]"] Let_def dr split: prod.splits option.splits)
  next
    case (Cons e es)
    show ?case
      using Cons.prems by (auto simp: decrypt_rounds.simps [of "e # es"] Let_def dr dest!: Cons.IH split: prod.splits option.splits)
  qed
  then show "wg_packet_decrypt_worker envs cpu v = Some w \<Longrightarrow> still cl p c w"
    using assms by (auto simp: wg_packet_decrypt_worker_def dest!: drs)
qed

lemma still_slots: "still cl p c v \<Longrightarrow> \<not> cl \<or> r \<noteq> p \<Longrightarrow> still cl p c (upd_slots r f v)"
  by (auto simp: still_def conf_def calm_def)

lemma still_no_keypair: "still True p c v \<Longrightarrow> slots_of v p = zero_keypairs"
  by (simp add: still_def calm_def slots_of_def)

lemma still_received:
  assumes "still cl p c v" "\<And>x. still cl p c x \<Longrightarrow> still cl p c (between x)"
    "wg_noise_received_with_keypair between r k v = (b, w)"
  shows "still cl p c w"
proof (cases "cl \<and> r = p")
  case True
  then have "w = v" using assms(3) still_no_keypair [of p c v] assms(1)
    by (simp add: wg_noise_received_with_keypair_def zero_keypairs_def)
  then show ?thesis using assms(1) by simp
next
  case False
  then show ?thesis
    using assms by (auto simp: wg_noise_received_with_keypair_def Let_def still_slots split: if_splits)
qed

lemma still_deliver: "still cl p c v \<Longrightarrow> deliver env r skb v = Some w \<Longrightarrow> still cl p c w"
  by (auto simp: deliver_def inner_header_def dishonest_packet_type_def dishonest_packet_size_def dishonest_packet_peer_def
      Let_def split: sum.splits option.splits if_splits prod.splits)

lemma still_rx_packet:
  assumes "rx_packet env between r skb v = Some w" "still cl p c v" "\<And>x. still cl p c x \<Longrightarrow> still cl p c (between x)"
  shows "still cl p c w"
proof -
  have finish: "still cl p c y" if d: "wg_packet_consume_data_done env between r s ep x = Some y" and x: "still cl p c x" for s ep x y
  proof -
    obtain b z where z: "wg_noise_received_with_keypair between r (the (cb_keypair s)) (wg_socket_set_peer_endpoint r ep x) = (b, z)"
      by fastforce
    have "still cl p c z" by (rule still_received [OF _ assms(3) z]) (simp_all add: x)
    then show ?thesis
      using d z by (auto simp: wg_packet_consume_data_done_def Let_def split: if_splits elim!: still_deliver [rotated])
  qed
  show ?thesis
    using assms(1,2) by (auto simp: rx_packet_def Let_def elim!: finish split: prod.splits option.splits if_splits)
qed

lemma still_rx_poll:
  assumes "still cl p c v" "\<forall>x\<in>set steps. \<forall>v. still cl p c v \<longrightarrow> still cl p c (snd x v)"
    "wg_packet_rx_poll steps r budget v = Some (n, w)"
  shows "still cl p c w"
proof -
  have pkt: "still cl p c y" if "rx_packet env b r skb x = Some y" "still cl p c x" "\<And>x. still cl p c x \<Longrightarrow> still cl p c (b x)"
    for env b skb x y
    using that by (rule still_rx_packet)
  have round: "still cl p c y" if "rx_round env b r a x = Some y" "still cl p c x" "\<And>x. still cl p c x \<Longrightarrow> still cl p c (b x)"
    for env b a x y
    using that by (auto simp: rx_round_def Let_def still_peer dest!: pkt split: bind_splits)
  have "still cl p c y" if "rx_rounds steps r budget m x = Some (k, y)" "still cl p c x"
    "\<forall>x\<in>set steps. \<forall>v. still cl p c v \<longrightarrow> still cl p c (snd x v)" for steps budget m x k y
    using that
  proof (induction steps arbitrary: x m)
    case Nil
    then show ?case by (auto simp: rx_rounds.simps [of "[]"] Let_def still_peer split: prod.splits option.splits if_splits)
  next
    case (Cons e es)
    show ?case
      using Cons.prems
      by (auto simp: rx_rounds.simps [of "e # es"] Let_def still_peer dest!: Cons.IH round split: prod.splits option.splits if_splits)
  qed
  then show ?thesis
    using assms by (auto simp: wg_packet_rx_poll_def intro!: still_peer split: if_splits bind_splits)
qed


lemma still_session:
  assumes "still cl p c v" "wg_noise_handshake_begin_session env r v = (b, w)"
  shows "still cl p c w"
proof -
  have new: "still cl p c x \<Longrightarrow> \<not> cl \<or> r \<noteq> p \<Longrightarrow> still cl p c (add_new_keypair r k x)" for k x
    by (simp add: add_new_keypair_def Let_def still_slots)
  have dead: "still cl p c x \<Longrightarrow> cl \<Longrightarrow> pe_is_dead (dv_peers x p)" for x by (simp add: still_def calm_def)
  have create: "keypair_create env r x = (k, y) \<Longrightarrow> still cl p c x \<Longrightarrow> still cl p c y" for x k y
    by (auto simp: keypair_create_def set_entry_def Let_def split: option.splits)
  have aead: "setup_aeads env k x = (ok, y) \<Longrightarrow> still cl p c x \<Longrightarrow> still cl p c y" for k x ok y
    by (auto simp: setup_aeads_def alloc_aead_def setkey_aead_def Let_def split: option.splits if_splits)
  have free: "still cl p c x \<Longrightarrow> still cl p c (keypair_free_rcu k x)" "still cl p c x \<Longrightarrow> still cl p c (kfree_keypair k x)" for k x
    by (simp_all add: keypair_free_rcu_def free_aead_def kfree_keypair_def Let_def split: option.split)
  obtain k y where k: "keypair_create env r v = (k, y)" by fastforce
  note y = create [OF k assms(1)]
  show ?thesis
  proof (cases k)
    case None
    then show ?thesis using assms y k by (auto simp: wg_noise_handshake_begin_session_def Let_def split: if_splits)
  next
    case (Some j)
    define x where "x = upd_keypair j (session_keys env (handshake_of v r)) y"
    obtain ok z where z: "(if dv_is_chacha x then (True, x) else setup_aeads env j x) = (ok, z)" by fastforce
    have sz: "still cl p c z" using z y by (auto simp: x_def dest!: aead split: if_splits)
    then have sh: "still cl p c (upd_handshake r handshake_zero z)" by simp
    have "w = v \<or> w = keypair_free_rcu j z \<or>
        (\<not> pe_is_dead (dv_peers (upd_handshake r handshake_zero z) r) \<and>
         (\<exists>t. w = (add_new_keypair r j (upd_handshake r handshake_zero z))\<lparr>dv_index_hashtable := t\<rparr>)) \<or>
        w = kfree_keypair j (upd_handshake r handshake_zero z)"
      using assms(2) k Some z x_def
      by (auto simp: wg_noise_handshake_begin_session_def Let_def split: if_splits prod.splits)
    then show ?thesis
    proof (elim disjE exE conjE)
      fix t
      assume d: "\<not> pe_is_dead (dv_peers (upd_handshake r handshake_zero z) r)"
        and w: "w = (add_new_keypair r j (upd_handshake r handshake_zero z))\<lparr>dv_index_hashtable := t\<rparr>"
      have "\<not> cl \<or> r \<noteq> p" using dead [OF sh] d by blast
      then show ?thesis using new [OF sh] w by simp
    qed (use assms(1) free(1) [OF sz] free(2) [OF sh] in simp_all)
  qed
qed

lemma still_set_handshake:
  "still cl p c v \<Longrightarrow> hs_remote_static h = hs_remote_static (handshake_of v r) \<Longrightarrow> still cl p c (set_handshake r h v)"
  by (auto simp: still_def conf_def upd_handshake_def upd_peer_def handshake_of_def fun_eq_iff)

lemma accept_remote_static [simp]:
  "hs_remote_static (initiation_accept env m t ck hash h) = hs_remote_static h"
  "hs_remote_static (response_accept m' ck hash h) = hs_remote_static h"
  by (simp_all add: initiation_accept_def response_accept_def Let_def)

lemma still_initiation_work:
  assumes "still cl p c v" "wg_packet_handshake_send_worker env r v = Some w"
  shows "still cl p c w"
proof -
  have ci: "wg_noise_handshake_create_initiation env r x = Some (m, y) \<Longrightarrow> still cl p c x \<Longrightarrow> still cl p c y" for x m y
    by (auto simp: wg_noise_handshake_create_initiation_def Let_def handshake_of_def dest: payload_progress intro!: still_set_handshake
        split: if_splits prod.splits option.splits bind_splits)
  have mac: "wg_cookie_add_mac_to_packet env bs r x = (bs', y) \<Longrightarrow> still cl p c x \<Longrightarrow> still cl p c y" for bs x bs' y
    by (auto simp: wg_cookie_add_mac_to_packet_def Let_def still_peer split: if_splits)
  have buf: "wg_socket_send_buffer_to_peer env r bs ds x = (e, y) \<Longrightarrow> still cl p c x \<Longrightarrow> still cl p c y" for bs ds x e y
    by (rule still_send(2))
  have "wg_packet_send_handshake_initiation env r x = Some y \<Longrightarrow> still cl p c x \<Longrightarrow> still cl p c y" for x y
    by (auto simp: wg_packet_send_handshake_initiation_def Let_def dest!: ci mac buf
        split: if_splits bind_splits option.splits prod.splits)
  then show ?thesis
    using assms by (auto simp: wg_packet_handshake_send_worker_def still_peer split: bind_splits)
qed

lemma still_response:
  assumes "still cl p c v" "wg_packet_send_handshake_response env r v = Some w"
  shows "still cl p c w"
proof -
  have cr: "wg_noise_handshake_create_response env r x = Some (m, y) \<Longrightarrow> still cl p c x \<Longrightarrow> still cl p c y" for x m y
    by (auto simp: wg_noise_handshake_create_response_def Let_def handshake_of_def dest: payload_progress intro!: still_set_handshake
        split: if_splits prod.splits option.splits bind_splits)
  have mac: "wg_cookie_add_mac_to_packet env bs r x = (bs', y) \<Longrightarrow> still cl p c x \<Longrightarrow> still cl p c y" for bs x bs' y
    by (auto simp: wg_cookie_add_mac_to_packet_def Let_def still_peer split: if_splits)
  have buf: "wg_socket_send_buffer_to_peer env r bs ds x = (e, y) \<Longrightarrow> still cl p c x \<Longrightarrow> still cl p c y" for bs ds x e y
    by (rule still_send(2))
  have session: "wg_noise_handshake_begin_session env r x = (b, y) \<Longrightarrow> still cl p c x \<Longrightarrow> still cl p c y" for x b y
    by (rule still_session)
  show ?thesis
    using assms by (auto simp: wg_packet_send_handshake_response_def Let_def dest!: cr mac session buf
        split: if_splits bind_splits option.splits prod.splits)
qed


lemma still_consume:
  assumes "still cl p c v" "\<forall>v. still cl p c v \<longrightarrow> still cl p c (between v)"
  shows "wg_noise_handshake_consume_initiation env between m v = (q, w) \<Longrightarrow> still cl p c w"
    "wg_noise_handshake_consume_response env between m' v = (q, w) \<Longrightarrow> still cl p c w"
  using assms
  by (auto simp: wg_noise_handshake_consume_initiation_def wg_noise_handshake_consume_response_def Let_def
      split: if_splits prod.splits option.splits)

lemma still_accepted: "still cl p c v \<Longrightarrow> still cl p c (handshake_accepted env r skb v)"
  by (simp add: handshake_accepted_def Let_def)

lemma still_receive_initiation:
  assumes "still cl p c v" "\<forall>v. still cl p c v \<longrightarrow> still cl p c (between v)" "receive_initiation env between n skb v = Some w"
  shows "still cl p c w"
proof (cases n)
  case True
  then show ?thesis using assms by (auto simp: receive_initiation_def Let_def still_reply)
next
  case False
  obtain q x where q: "wg_noise_handshake_consume_initiation env between (decode_initiation (pk_bytes skb)) v = (q, x)" by fastforce
  have x: "still cl p c x" by (rule still_consume(1) [OF assms(1,2) q])
  show ?thesis
  proof (cases q)
    case None
    then show ?thesis using False assms(3) q x by (simp add: receive_initiation_def)
  next
    case (Some r)
    then obtain y where y: "wg_packet_send_handshake_response env r (wg_socket_set_peer_endpoint_from_skb env r skb x) = Some y"
      "w = handshake_accepted env r skb y"
      using False assms(3) q by (auto simp: receive_initiation_def split: bind_splits)
    have "still cl p c y" by (rule still_response [OF _ y(1)]) (simp add: x)
    then show ?thesis using y(2) by (simp add: still_accepted)
  qed
qed

lemma still_receive_response:
  assumes "still cl p c v" "\<forall>v. still cl p c v \<longrightarrow> still cl p c (between v)"
  shows "still cl p c (receive_response env between n skb v)"
proof (cases n)
  case True
  then show ?thesis using assms by (simp add: receive_response_def Let_def still_reply)
next
  case False
  obtain q x where q: "wg_noise_handshake_consume_response env between (decode_response (pk_bytes skb)) v = (q, x)" by fastforce
  have x: "still cl p c x" by (rule still_consume(2) [OF assms(1,2) q])
  show ?thesis
  proof (cases q)
    case None
    then show ?thesis using False q x by (simp add: receive_response_def)
  next
    case (Some r)
    obtain b y where y: "wg_noise_handshake_begin_session env r (wg_socket_set_peer_endpoint_from_skb env r skb x) = (b, y)" by fastforce
    have "still cl p c y" by (rule still_session [OF _ y]) (simp add: x)
    then show ?thesis using False q Some y by (simp add: receive_response_def Let_def still_accepted)
  qed
qed

lemma still_handshake_packet:
  assumes "still cl p c v" "\<forall>v. still cl p c v \<longrightarrow> still cl p c (between v)" "wg_receive_handshake_packet env between skb v = Some w"
  shows "still cl p c w"
proof (cases "SKB_TYPE_LE32 skb = MESSAGE_HANDSHAKE_COOKIE")
  case True
  then show ?thesis
    using assms(1,3) by (auto simp: wg_receive_handshake_packet_def wg_cookie_message_consume_def Let_def still_peer
        split: prod.splits option.splits if_splits)
next
  case False
  obtain l x where l: "check_load env v = (l, x)" by fastforce
  obtain m y where m: "wg_cookie_validate_packet env skb l x = (m, y)" by fastforce
  have "still cl p c x" using l assms(1) by (auto simp: check_load_def Let_def split: if_splits)
  then have y: "still cl p c y" using m by (auto simp: wg_cookie_validate_packet_def Let_def split: if_splits prod.splits)
  have "w = y \<or> (\<exists>n. receive_initiation env between n skb y = Some w) \<or> (\<exists>n. w = receive_response env between n skb y)"
    using assms(3) False l m by (auto simp: wg_receive_handshake_packet_def Let_def split: if_splits)
  then show ?thesis
    using y still_receive_initiation [OF y assms(2)] still_receive_response [OF y assms(2)] by blast
qed

lemma still_handshake_work:
  assumes "still cl p c v" "\<forall>x\<in>set steps. \<forall>v. still cl p c v \<longrightarrow> still cl p c (snd x v)"
    "wg_packet_handshake_receive_worker steps cpu v = Some w"
  shows "still cl p c w"
proof -
  have rounds: "handshake_rounds steps x = Some y \<Longrightarrow> still cl p c x \<Longrightarrow>
      \<forall>x\<in>set steps. \<forall>v. still cl p c v \<longrightarrow> still cl p c (snd x v) \<Longrightarrow> still cl p c y" for steps x y
  proof (induction steps arbitrary: x)
    case Nil
    then show ?case by (auto simp: handshake_rounds.simps [of "[]"] Let_def split: prod.splits option.splits)
  next
    case (Cons e es)
    obtain env b where e: "e = (env, b)" by fastforce
    have b: "\<forall>v. still cl p c v \<longrightarrow> still cl p c (b v)" and es: "\<forall>x\<in>set es. \<forall>v. still cl p c v \<longrightarrow> still cl p c (snd x v)"
      using Cons.prems(3) by (simp_all add: e)
    have pkt: "wg_receive_handshake_packet env b skb z = Some u \<Longrightarrow> still cl p c z \<Longrightarrow> still cl p c u" for skb z u
      by (rule still_handshake_packet [OF _ b])
    have ih: "handshake_rounds es z = Some y \<Longrightarrow> still cl p c z \<Longrightarrow> still cl p c y" for z
      using Cons.IH es by blast
    show ?case
      using Cons.prems(1,2)
      by (auto simp: e handshake_rounds.simps [of "(env, b) # es"] Let_def dest!: ih pkt split: prod.splits option.splits)
  qed
  show ?thesis
    using assms by (auto simp: wg_packet_handshake_receive_worker_def intro!: rounds [of steps _ w])
qed

lemma still_receive: "still cl p c v \<Longrightarrow> still cl p c (wg_packet_receive env skb v)"
proof -
  assume v: "still cl p c v"
  have get: "wg_noise_keypair_get k x = (r, y) \<Longrightarrow> still cl p c x \<Longrightarrow> still cl p c y" for k x r y by (rule still_keypair_get)
  have enq: "wg_queue_enqueue_per_device_and_peer env d r a x = (e, y) \<Longrightarrow> still cl p c x \<Longrightarrow> still cl p c y" for d r a x e y
    by (rule still_enqueue(3))
  have "still cl p c (wg_packet_consume_data env skb v)" for skb
    using v by (auto simp: wg_packet_consume_data_def Let_def still_enqueue(2) dest!: get enq
        split: prod.splits option.split index_ptr.split)
  moreover have "still cl p c (queue_handshake env skb v)" for skb
    using v by (auto simp: queue_handshake_def Let_def split: prod.split)
  ultimately show ?thesis using v by (simp add: wg_packet_receive_def split: option.split)
qed

lemma still_clear: "still cl p c v \<Longrightarrow> still cl p c (wg_noise_keypairs_clear r v)"
proof (cases "cl \<and> r = p")
  case True
  assume v: "still cl p c v"
  then have "slots_of v p = zero_keypairs" using True still_no_keypair by simp
  then show ?thesis
    using v True by (auto simp: wg_noise_keypairs_clear_def Let_def wg_noise_keypair_put_def slots_of_def zero_keypairs_def
        still_def conf_def calm_def pending_timers_def fun_eq_iff)
next
  case False
  assume "still cl p c v"
  then show ?thesis using False by (simp add: wg_noise_keypairs_clear_def Let_def still_slots)
qed

lemma still_handlers:
  assumes "still cl p c v"
  shows "still cl p c (wg_expired_retransmit_handshake env r v)" "still cl p c (wg_expired_send_keepalive env r v)"
    "still cl p c (wg_expired_new_handshake env r v)" "still cl p c (wg_expired_zero_key_material r v)"
    "still cl p c (wg_queued_expired_zero_key_material r v)" "still cl p c (wg_expired_send_persistent_keepalive env r v)"
  using assms by (simp_all add: wg_expired_retransmit_handshake_def wg_expired_send_keepalive_def wg_expired_new_handshake_def
      wg_expired_zero_key_material_def wg_queued_expired_zero_key_material_def wg_expired_send_persistent_keepalive_def
      wg_noise_handshake_clear_def Let_def still_peer still_clear)

lemma still_stage [simp]: "still cl p c v \<Longrightarrow> still cl p c (stage r packets v)"
  by (simp add: stage_def still_peer split: prod.split)

lemma still_xmit: "wg_xmit env x skb v = Some (ret, icmp, w) \<Longrightarrow> still cl p c v \<Longrightarrow> still cl p c w"
  by (auto simp: wg_xmit_def xmit_err_def Let_def split: if_splits option.splits sum.splits prod.splits)

lemma still_callback [simp]: "still cl p c (rcu_keypair_callback k v) = still cl p c v"
  by (simp add: rcu_keypair_callback_def keypair_free_rcu_def kfree_keypair_def free_aead_def Let_def split: option.split)

lemma live_still: "live v w \<Longrightarrow> still cl p c v \<Longrightarrow> still cl p c w"
proof (induction rule: live.induct)
  case (tx_work envs r v w)
  then show ?case by (intro still_workers(1) [OF tx_work(2) tx_work(1)])
next
  case (encrypt_work envs cpu v w)
  then show ?case by (intro still_workers(2) [OF encrypt_work(2) encrypt_work(1)])
next
  case (decrypt_work envs cpu v w)
  then show ?case by (intro still_workers(3) [OF decrypt_work(2) decrypt_work(1)])
next
  case (rx steps r budget v n w)
  then show ?case by (intro still_rx_poll [OF rx(3) _ rx(2)]) blast
next
  case (handshake_work steps cpu v w)
  then show ?case by (intro still_handshake_work [OF handshake_work(3) _ handshake_work(2)]) blast
next
  case (initiation_work env r v w)
  then show ?case by (intro still_initiation_work [OF initiation_work(2) initiation_work(1)])
next
  case (transmit env x skb v ret icmp w)
  then show ?case by (rule still_xmit)
qed (simp_all add: still_handlers still_receive)


section \<open>Removal takes effect\<close>

lemma make_dead_still:
  assumes "distinct (dv_peer_list wg)" "allowedips_ok (dv_peer_allowedips wg)"
  shows "absent p (conf (peer_make_dead p wg))" "fst (cf_peers (conf (peer_make_dead p wg)) p)"
  using remove_entries [OF assms(2), of p] assms(1)
  by (auto simp: absent_def conf_def peer_ident_def peer_make_dead_def Let_def wg_pubkey_hashtable_remove_def)

lemma still_conf: "still False p c wg \<longleftrightarrow> conf wg = c"
  by (simp add: still_def calm_def)

lemma stop_clear_still:
  assumes "conf v = c" "fst (cf_peers c p)"
  shows "still True p c (wg_timers_stop p (wg_noise_keypairs_clear p v))"
proof -
  define u where "u = wg_noise_keypairs_clear p v"
  have "slots_of u p = zero_keypairs"
    by (cases "slots_of v p") (simp add: u_def wg_noise_keypairs_clear_def Let_def zero_keypairs_def)
  then have u: "conf u = c" "pe_keypairs (dv_peers u p) = zero_keypairs"
    using still_clear [of False p c v p] assms(1) by (simp_all add: u_def slots_of_def still_conf)
  then have dead: "pe_is_dead (dv_peers u p)" using assms(2) by (auto simp: conf_def peer_ident_def)
  define t where "t = del_timer pe_timer_persistent_keepalive_update p (del_timer pe_timer_zero_key_material_update p
     (del_timer pe_timer_new_handshake_update p (del_timer pe_timer_send_keepalive_update p
       (del_timer pe_timer_retransmit_handshake_update p u))))"
  have "still False p c t" using u(1) by (simp add: t_def still_conf [symmetric, of _ _ p])
  moreover have "calm True (dv_peers t p)"
    using u(2) dead by (simp add: t_def del_timer_def calm_def pending_timers_def)
  ultimately have t: "still True p c t" by (simp add: still_def)
  then show ?thesis
    by (simp add: wg_timers_stop_def Let_def u_def [symmetric] t_def [symmetric] still_handlers(5))
qed

lemma still_num: "still cl p c v \<Longrightarrow> still cl p (c\<lparr>cf_num := n\<rparr>) (v\<lparr>dv_num_peers := n\<rparr>)"
  by (auto simp: still_def conf_def)

lemma remove_still:
  assumes "conf v = c" "fst (cf_peers c p)" "\<And>v. live v (after_crypt ws v)" "\<And>v. live v (after_serial ws v)"
    "\<And>v. live v (after_napi ws v)" "\<And>v. live v (after_handshake ws v)"
  shows "still True p (c\<lparr>cf_num := cf_num c - 1\<rparr>) (peer_remove_after_dead ws p v)"
proof -
  define u where "u = after_handshake ws (upd_peer p (\<lambda>q. q\<lparr>pe_napi_enabled := False\<rparr>) (after_napi ws (after_serial ws (after_crypt ws
    (wg_timers_stop p (wg_noise_keypairs_clear p v))))))"
  have u: "still True p c u"
    using stop_clear_still [OF assms(1,2)] live_still [OF assms(3)] live_still [OF assms(4)] live_still [OF assms(5)]
      live_still [OF assms(6)] by (simp add: u_def still_peer)
  then have "dv_num_peers u = cf_num c" by (auto simp: still_def conf_def)
  then show ?thesis
    using still_num [OF u, of "cf_num c - 1"] by (simp add: peer_remove_after_dead_def Let_def u_def)
qed

section \<open>Properties\<close>



end
