(* ===== verification/WG_Device.thy ===== *)
theory WG_Device
  imports WG_Peer
begin

text \<open>
  The network device, \<^verbatim>\<open>device.c\<close>, and the module, \<^verbatim>\<open>main.c\<close>: bringing the interface up and down,
  power management, creation and destruction; \<^verbatim>\<open>WG_Xmit\<close> has the transmission. The settings of the IPv4 and IPv6
  layers that \<^verbatim>\<open>wg_open\<close> makes are not part of the state. The flag \<open>dv_running\<close> is set and
  cleared by the network core, before it calls \<^verbatim>\<open>wg_open\<close> and \<^verbatim>\<open>wg_stop\<close>.
\<close>

section \<open>Up and down\<close>

definition open_peer :: "env \<Rightarrow> wg_device \<Rightarrow> peer_id \<Rightarrow> wg_device" where
  "open_peer env wg p =
     (let wg = wg_packet_send_staged_packets env p wg
      in if pe_persistent_keepalive_interval (dv_peers wg p) \<noteq> 0 then wg_packet_send_keepalive env p wg else wg)"

definition wg_open :: "env \<Rightarrow> wg_device \<Rightarrow> errno option \<times> wg_device" where
  "wg_open env wg =
     (let (ret, wg) = wg_socket_init env (dv_incoming_port wg) wg
      in if ret \<noteq> None then (ret, wg) else (ret, foldl (open_peer env) wg (dv_peer_list wg)))"

text \<open>All grace periods end: the callbacks of keypairs and peers run.\<close>

definition finish_rcu :: "wg_device \<Rightarrow> wg_device" where
  "finish_rcu wg =
     (let wg = foldl (\<lambda>wg k. rcu_keypair_callback k wg) wg (rev (dv_rcu_keypairs wg))
      in foldl (\<lambda>wg p. snd (rcu_release p wg)) wg (rev (dv_rcu_peers wg)))"

datatype pm_action = PM_HIBERNATION_PREPARE | PM_SUSPEND_PREPARE | PM_OTHER

definition pm_clear_peer :: "wg_device \<Rightarrow> peer_id \<Rightarrow> wg_device" where
  "pm_clear_peer wg p =
     wg_noise_keypairs_clear p (wg_noise_handshake_clear p (del_timer pe_timer_zero_key_material_update p wg))"

definition wg_pm_notification :: "bool \<Rightarrow> pm_action \<Rightarrow> wg_device list \<Rightarrow> wg_device list" where
  "wg_pm_notification autosleep action device_list =
     (if autosleep then device_list
      else if action \<noteq> PM_HIBERNATION_PREPARE \<and> action \<noteq> PM_SUSPEND_PREPARE then device_list
      else map finish_rcu (map (\<lambda>wg. foldl pm_clear_peer wg (dv_peer_list wg)) device_list))"

definition stop_peer :: "env \<Rightarrow> wg_device \<Rightarrow> peer_id \<Rightarrow> wg_device" where
  "stop_peer env wg p =
     (let wg = wg_packet_purge_staged_packets p wg;
          wg = wg_timers_stop p wg;
          wg = wg_noise_handshake_clear p wg;
          wg = wg_noise_keypairs_clear p wg
      in wg_noise_reset_last_sent_handshake env p wg)"

definition wg_stop :: "env \<Rightarrow> wg_device \<Rightarrow> wg_device" where
  "wg_stop env wg =
     (let wg = foldl (stop_peer env) wg (dv_peer_list wg);
          wg = wg\<lparr>dv_handshake_queue := (dv_handshake_queue wg)\<lparr>cq_ring := []\<rparr>, dv_handshake_queue_len := 0\<rparr>
      in wg_socket_reinit None None wg)"

section \<open>Creation\<close>

text \<open>What a new interface acquires. The list of resources held is part of the state of creation and destruction.\<close>

datatype resource =
    PeerHashtable | IndexHashtable | Tstats | HandshakeReceiveWq | HandshakeSendWq | PacketCryptWq
  | EncryptQueue | DecryptQueue | HandshakeQueue | Ratelimiter | AesPercpu | AesRequest nat | Registration

text \<open>
  The results of the allocations of one creation: the hash tables as the allocator returns them
  and the random key, the rings and per-CPU workers of the three queues, the limiter's cache
  and tables, the AES-GCM probe, the per-CPU array and for every CPU its request, and the
  registration.
\<close>

record link_env =
  l_peer_table :: "bytes pubkey_hashtable option"
  l_table_key :: bytes
  l_index_table :: "index_hashtable option"
  l_tstats :: bool
  l_receive_wq :: bool
  l_send_wq :: bool
  l_crypt_wq :: bool
  l_encrypt :: "errno option \<times> bool"
  l_decrypt :: "errno option \<times> bool"
  l_handshake :: "errno option \<times> bool"
  l_pages :: u64
  l_limiter :: "bool \<times> bool \<times> bool"
  l_limiter_key :: bytes
  l_gcm :: bool
  l_percpu :: bool
  l_requests :: "addr option list"
  l_register :: "errno option"

type_synonym link_state = "resource list \<times> wg_device"

definition release :: "resource \<Rightarrow> link_state \<Rightarrow> link_state" where
  "release r ls = (remove1 r (fst ls), snd ls)"

definition wg_free_aes_percpu :: "link_state \<Rightarrow> link_state" where
  "wg_free_aes_percpu ls =
     (case dv_aes_cpu (snd ls) of
        None \<Rightarrow> ls
      | Some reqs \<Rightarrow>
          (remove1 AesPercpu (foldl (\<lambda>held r. remove1 (AesRequest r) held) (fst ls) reqs), (snd ls)\<lparr>dv_aes_cpu := None\<rparr>))"

text \<open>One request per possible CPU; a failure frees those allocated so far.\<close>

primrec alloc_requests :: "addr option list \<Rightarrow> link_state \<Rightarrow> errno option \<times> link_state" where
  "alloc_requests [] ls = (None, ls)"
| "alloc_requests (req # reqs) ls =
     (case req of
        None \<Rightarrow> (Some ENOMEM, wg_free_aes_percpu ls)
      | Some r \<Rightarrow>
          alloc_requests reqs (AesRequest r # fst ls, (snd ls)\<lparr>dv_aes_cpu := map_option (\<lambda>rs. rs @ [r]) (dv_aes_cpu (snd ls))\<rparr>))"

definition wg_init_aes_percpu :: "link_env \<Rightarrow> link_state \<Rightarrow> errno option \<times> link_state" where
  "wg_init_aes_percpu l ls =
     (if \<not> l_gcm l then (None, fst ls, (snd ls)\<lparr>dv_is_chacha := True\<rparr>)
      else if \<not> l_percpu l then (Some ENOMEM, ls)
      else alloc_requests (l_requests l) (AesPercpu # fst ls, (snd ls)\<lparr>dv_aes_cpu := Some []\<rparr>))"

text \<open>The error labels of \<^verbatim>\<open>wg_newlink\<close>, the last one first; each falls through to the next.\<close>

definition err_free_peer_hashtable :: "link_state \<Rightarrow> link_state" where
  "err_free_peer_hashtable = release PeerHashtable"

definition err_free_index_hashtable :: "link_state \<Rightarrow> link_state" where
  "err_free_index_hashtable ls = err_free_peer_hashtable (release IndexHashtable ls)"

definition err_free_tstats :: "link_state \<Rightarrow> link_state" where
  "err_free_tstats ls = err_free_index_hashtable (release Tstats ls)"

definition err_destroy_handshake_receive :: "link_state \<Rightarrow> link_state" where
  "err_destroy_handshake_receive ls = err_free_tstats (release HandshakeReceiveWq ls)"

definition err_destroy_handshake_send :: "link_state \<Rightarrow> link_state" where
  "err_destroy_handshake_send ls = err_destroy_handshake_receive (release HandshakeSendWq ls)"

definition err_destroy_packet_crypt :: "link_state \<Rightarrow> link_state" where
  "err_destroy_packet_crypt ls = err_destroy_handshake_send (release PacketCryptWq ls)"

definition free_encrypt_queue :: "link_state \<Rightarrow> link_state" where
  "free_encrypt_queue ls =
     release EncryptQueue (fst ls, (snd ls)\<lparr>dv_encrypt_queue := snd (snd (wg_packet_queue_free (dv_encrypt_queue (snd ls)) False))\<rparr>)"

definition free_decrypt_queue :: "link_state \<Rightarrow> link_state" where
  "free_decrypt_queue ls =
     release DecryptQueue (fst ls, (snd ls)\<lparr>dv_decrypt_queue := snd (snd (wg_packet_queue_free (dv_decrypt_queue (snd ls)) False))\<rparr>)"

definition free_handshake_queue :: "bool \<Rightarrow> link_state \<Rightarrow> link_state" where
  "free_handshake_queue purge ls =
     release HandshakeQueue (fst ls, (snd ls)\<lparr>dv_handshake_queue := snd (snd (wg_packet_queue_free (dv_handshake_queue (snd ls)) purge))\<rparr>)"

definition uninit_ratelimiter :: "env \<Rightarrow> link_state \<Rightarrow> link_state" where
  "uninit_ratelimiter env ls =
     release Ratelimiter (fst ls, (snd ls)\<lparr>dv_ratelimiter := wg_ratelimiter_uninit (e_boottime env) (dv_ratelimiter (snd ls))\<rparr>)"

definition err_free_encrypt_queue :: "link_state \<Rightarrow> link_state" where
  "err_free_encrypt_queue ls = err_destroy_packet_crypt (free_encrypt_queue ls)"

definition err_free_decrypt_queue :: "link_state \<Rightarrow> link_state" where
  "err_free_decrypt_queue ls = err_free_encrypt_queue (free_decrypt_queue ls)"

definition err_free_handshake_queue :: "link_state \<Rightarrow> link_state" where
  "err_free_handshake_queue ls = err_free_decrypt_queue (free_handshake_queue False ls)"

definition err_uninit_ratelimiter :: "env \<Rightarrow> link_state \<Rightarrow> link_state" where
  "err_uninit_ratelimiter env ls = err_free_handshake_queue (uninit_ratelimiter env ls)"

definition init_link :: "env \<Rightarrow> nat \<Rightarrow> wg_device \<Rightarrow> wg_device" where
  "init_link env src_net wg =
     wg\<lparr>dv_creating_net := Some src_net,
        dv_peer_allowedips := wg_allowedips_init (dv_peer_allowedips wg),
        dv_cookie_checker := wg_cookie_checker_init env (dv_cookie_checker wg),
        dv_peer_list := [], dv_device_update_gen := 1\<rparr>"

text \<open>The second half of \<^verbatim>\<open>wg_newlink\<close>: queues, limiter, per-CPU requests and registration.\<close>

definition newlink_register :: "env \<Rightarrow> link_env \<Rightarrow> link_state \<Rightarrow> errno option \<times> link_state" where
  "newlink_register env l ls =
     (let (ret, ls) = wg_init_aes_percpu l ls in
      if ret \<noteq> None then (ret, err_uninit_ratelimiter env ls)
      else
        case l_register l of
          Some e \<Rightarrow> (Some e, err_uninit_ratelimiter env ls)
        | None \<Rightarrow> (None, Registration # fst ls, snd ls))"

definition newlink_queues :: "env \<Rightarrow> link_env \<Rightarrow> link_state \<Rightarrow> errno option \<times> link_state" where
  "newlink_queues env l ls =
     (let (ret, q) = wg_packet_queue_init MAX_QUEUED_PACKETS (fst (l_encrypt l)) (snd (l_encrypt l));
          ls = (fst ls, (snd ls)\<lparr>dv_encrypt_queue := q\<rparr>) in
      if ret \<noteq> None then (ret, err_destroy_packet_crypt ls)
      else
        let ls = (EncryptQueue # fst ls, snd ls);
            (ret, q) = wg_packet_queue_init MAX_QUEUED_PACKETS (fst (l_decrypt l)) (snd (l_decrypt l));
            ls = (fst ls, (snd ls)\<lparr>dv_decrypt_queue := q\<rparr>) in
        if ret \<noteq> None then (ret, err_free_encrypt_queue ls)
        else
          let ls = (DecryptQueue # fst ls, snd ls);
              (ret, q) = wg_packet_queue_init MAX_QUEUED_INCOMING_HANDSHAKES (fst (l_handshake l)) (snd (l_handshake l));
              ls = (fst ls, (snd ls)\<lparr>dv_handshake_queue := q\<rparr>) in
          if ret \<noteq> None then (ret, err_free_decrypt_queue ls)
          else
            let ls = (HandshakeQueue # fst ls, snd ls);
                (ret, rl) = wg_ratelimiter_init (l_pages l) (fst (l_limiter l)) (fst (snd (l_limiter l)))
                  (snd (snd (l_limiter l))) (l_limiter_key l) (dv_ratelimiter (snd ls));
                ls = (fst ls, (snd ls)\<lparr>dv_ratelimiter := rl\<rparr>) in
            if ret \<noteq> None then (ret, err_free_handshake_queue ls)
            else newlink_register env l (Ratelimiter # fst ls, snd ls))"

definition wg_newlink :: "env \<Rightarrow> link_env \<Rightarrow> nat \<Rightarrow> link_state \<Rightarrow> errno option \<times> link_state" where
  "wg_newlink env l src_net ls =
     (let ls = (fst ls, init_link env src_net (snd ls)) in
      case wg_pubkey_hashtable_alloc (l_peer_table l) (l_table_key l) of
        None \<Rightarrow> (Some ENOMEM, ls)
      | Some t \<Rightarrow>
          let ls = (PeerHashtable # fst ls, (snd ls)\<lparr>dv_peer_hashtable := t\<rparr>) in
          case wg_index_hashtable_alloc (l_index_table l) of
            None \<Rightarrow> (Some ENOMEM, err_free_peer_hashtable ls)
          | Some t \<Rightarrow>
              let ls = (IndexHashtable # fst ls, (snd ls)\<lparr>dv_index_hashtable := t\<rparr>) in
              if \<not> l_tstats l then (Some ENOMEM, err_free_index_hashtable ls)
              else
                let ls = (Tstats # fst ls, snd ls) in
                if \<not> l_receive_wq l then (Some ENOMEM, err_free_tstats ls)
                else
                  let ls = (HandshakeReceiveWq # fst ls, snd ls) in
                  if \<not> l_send_wq l then (Some ENOMEM, err_destroy_handshake_receive ls)
                  else
                    let ls = (HandshakeSendWq # fst ls, snd ls) in
                    if \<not> l_crypt_wq l then (Some ENOMEM, err_destroy_handshake_send ls)
                    else newlink_queues env l (PacketCryptWq # fst ls, snd ls))"

section \<open>Destruction\<close>

text \<open>The waits of the destruction: those of the removal of all peers, then one for every workqueue.\<close>

record destroy_waits =
  after_dead :: "wg_device \<Rightarrow> wg_device"
  of_peer :: "peer_id \<Rightarrow> waits"
  after_receive_wq :: "wg_device \<Rightarrow> wg_device"
  after_send_wq :: "wg_device \<Rightarrow> wg_device"
  after_crypt_wq :: "wg_device \<Rightarrow> wg_device"

definition zero_identity :: noise_static_identity where
  "zero_identity = \<lparr>si_public = replicate NOISE_PUBLIC_KEY_LEN 0, si_private = replicate NOISE_PUBLIC_KEY_LEN 0, si_has_identity = False\<rparr>"

definition wg_destruct :: "env \<Rightarrow> destroy_waits \<Rightarrow> link_state \<Rightarrow> link_state option" where
  "wg_destruct env dw ls =
     (let ls = release Registration ls;
          wg = wg_socket_reinit None None ((snd ls)\<lparr>dv_creating_net := None, dv_incoming_port := 0\<rparr>)
      in do {
        wg \<leftarrow> wg_peer_remove_all (after_dead dw) (of_peer dw) wg;
        let ls = release HandshakeReceiveWq (fst ls, after_receive_wq dw wg);
        let ls = release HandshakeSendWq (fst ls, after_send_wq dw (snd ls));
        let ls = release PacketCryptWq (fst ls, after_crypt_wq dw (snd ls));
        let ls = free_encrypt_queue (free_decrypt_queue (free_handshake_queue True ls));
        let ls = (fst ls, finish_rcu (snd ls));
        let ls = wg_free_aes_percpu ls;
        let ls = uninit_ratelimiter env ls;
        let ls = (fst ls, (snd ls)\<lparr>dv_static_identity := zero_identity\<rparr>);
        Some (release PeerHashtable (release IndexHashtable (release Tstats ls)))
      })"

text \<open>What \<^verbatim>\<open>wg_setup\<close> sets of the network device: lengths and the MTU.\<close>

record net_device =
  nd_hard_header_len :: nat
  nd_addr_len :: nat
  nd_needed_headroom :: nat
  nd_needed_tailroom :: nat
  nd_mtu :: nat
  nd_max_mtu :: nat

definition wg_setup :: "env \<Rightarrow> net_device" where
  "wg_setup env =
     (let overhead = MESSAGE_MINIMUM_LENGTH + sizeof_udphdr + max 40 20
      in \<lparr>nd_hard_header_len = 0, nd_addr_len = 0, nd_needed_headroom = DATA_PACKET_HEAD_ROOM (e_NET_SKB_PAD env),
          nd_needed_tailroom = noise_encrypted_len MESSAGE_PADDING_MULTIPLE,
          nd_mtu = 1500 - overhead,
          nd_max_mtu = (2 ^ 31 - 1) div MESSAGE_PADDING_MULTIPLE * MESSAGE_PADDING_MULTIPLE - overhead\<rparr>)"

definition wg_netns_pre_exit :: "nat \<Rightarrow> wg_device list \<Rightarrow> wg_device list" where
  "wg_netns_pre_exit net device_list =
     map (\<lambda>wg. if dv_creating_net wg = Some net then
                 let wg = wg_socket_reinit None None (wg\<lparr>dv_creating_net := None\<rparr>)
                 in foldl (\<lambda>wg p. wg_socket_clear_peer_endpoint_src p wg) wg (dv_peer_list wg)
               else wg) device_list"

section \<open>The module\<close>

datatype registration =
    AllowedipsSlab | PeerCache | PmNotifier | PernetDevice | RtnlLink | Genetlink

text \<open>The result of every registration; \<^verbatim>\<open>CONFIG_PM_SLEEP\<close> is set.\<close>

record module_env =
  m_slab :: bool
  m_selftests :: bool
  m_debug :: bool
  m_peer_cache :: bool
  m_pm :: "errno option"
  m_pernet :: "errno option"
  m_rtnl :: "errno option"
  m_genetlink :: "errno option"

definition wg_device_init :: "module_env \<Rightarrow> registration list \<Rightarrow> errno option \<times> registration list" where
  "wg_device_init m held =
     (case m_pm m of
        Some e \<Rightarrow> (Some e, held)
      | None \<Rightarrow>
          let held = PmNotifier # held in
          case m_pernet m of
            Some e \<Rightarrow> (Some e, remove1 PmNotifier held)
          | None \<Rightarrow>
              let held = PernetDevice # held in
              case m_rtnl m of
                Some e \<Rightarrow> (Some e, remove1 PmNotifier (remove1 PernetDevice held))
              | None \<Rightarrow> (None, RtnlLink # held))"

definition wg_device_uninit :: "registration list \<Rightarrow> registration list" where
  "wg_device_uninit held = remove1 PmNotifier (remove1 PernetDevice (remove1 RtnlLink held))"

definition wg_peer_init :: "module_env \<Rightarrow> registration list \<Rightarrow> errno option \<times> registration list" where
  "wg_peer_init m held = (if m_peer_cache m then (None, PeerCache # held) else (Some ENOMEM, held))"

definition wg_peer_uninit :: "registration list \<Rightarrow> registration list" where
  "wg_peer_uninit held = remove1 PeerCache held"

definition mod_init :: "module_env \<Rightarrow> registration list \<Rightarrow> errno option \<times> registration list" where
  "mod_init m held =
     (if \<not> m_slab m then (Some ENOMEM, held)
      else
        let held = AllowedipsSlab # held in
        if m_debug m \<and> \<not> m_selftests m then (Some ENOTRECOVERABLE, remove1 AllowedipsSlab held)
        else
          let (ret, held) = wg_peer_init m held in
          if ret \<noteq> None then (ret, remove1 AllowedipsSlab held)
          else
            let (ret, held) = wg_device_init m held in
            if ret \<noteq> None then (ret, remove1 AllowedipsSlab (wg_peer_uninit held))
            else
              case m_genetlink m of
                Some e \<Rightarrow> (Some e, remove1 AllowedipsSlab (wg_peer_uninit (wg_device_uninit held)))
              | None \<Rightarrow> (None, Genetlink # held))"

definition mod_exit :: "registration list \<Rightarrow> registration list" where
  "mod_exit held = remove1 AllowedipsSlab (wg_peer_uninit (wg_device_uninit (remove1 Genetlink held)))"

section \<open>Specification\<close>

text \<open>What the AES-GCM setup of an interface holds, and what the rest of it holds.\<close>

definition aes_resources :: "link_env \<Rightarrow> resource list" where
  "aes_resources l = (if l_gcm l then rev (map (\<lambda>r. AesRequest (the r)) (l_requests l)) @ [AesPercpu] else [])"

definition link_resources :: "resource list" where
  "link_resources = [Ratelimiter, HandshakeQueue, DecryptQueue, EncryptQueue, PacketCryptWq, HandshakeSendWq,
     HandshakeReceiveWq, Tstats, IndexHashtable, PeerHashtable]"

text \<open>All allocations before the registration succeed.\<close>

definition limiter_starts :: "link_env \<Rightarrow> wg_device \<Rightarrow> bool" where
  "limiter_starts l wg \<longleftrightarrow>
     fst (wg_ratelimiter_init (l_pages l) (fst (l_limiter l)) (fst (snd (l_limiter l))) (snd (snd (l_limiter l)))
       (l_limiter_key l) (dv_ratelimiter wg)) = None"

definition queues_start :: "link_env \<Rightarrow> wg_device \<Rightarrow> bool" where
  "queues_start l wg \<longleftrightarrow>
     l_encrypt l = (None, True) \<and> l_decrypt l = (None, True) \<and> l_handshake l = (None, True) \<and>
     limiter_starts l wg \<and> (l_gcm l \<longrightarrow> l_percpu l \<and> None \<notin> set (l_requests l))"

definition acquires :: "link_env \<Rightarrow> wg_device \<Rightarrow> bool" where
  "acquires l wg \<longleftrightarrow>
     l_peer_table l \<noteq> None \<and> l_index_table l \<noteq> None \<and> l_tstats l \<and> l_receive_wq l \<and> l_send_wq l \<and> l_crypt_wq l \<and>
     queues_start l wg"

section \<open>Lemmas\<close>

lemma mset_release [simp]: "mset (fst (release r ls)) = mset (fst ls) - {#r#}"
  by (simp add: release_def)

lemma mset_remove_requests:
  "mset (foldl (\<lambda>held r. remove1 (AesRequest r) held) held rs) = mset held - mset (map AesRequest rs)"
  by (induction rs arbitrary: held) (simp_all add: diff_diff_add)

lemma alloc_requests_result: "fst (alloc_requests reqs ls) = (if None \<in> set reqs then Some ENOMEM else None)"
  by (induction reqs arbitrary: ls) (auto split: option.split)

lemma alloc_requests_held:
  assumes "dv_aes_cpu (snd ls) = Some rs" "mset (fst ls) = mset (map AesRequest rs) + {#AesPercpu#} + H"
  shows "mset (fst (snd (alloc_requests reqs ls))) =
    (if None \<in> set reqs then H else mset (map (\<lambda>r. AesRequest (the r)) reqs) + mset (fst ls))"
  using assms
proof (induction reqs arbitrary: ls rs)
  case Nil
  then show ?case by simp
next
  case (Cons req reqs)
  show ?case
  proof (cases req)
    case None
    then show ?thesis using Cons.prems by (simp add: wg_free_aes_percpu_def mset_remove_requests)
  next
    case (Some r)
    define ls1 where "ls1 = (AesRequest r # fst ls, (snd ls)\<lparr>dv_aes_cpu := map_option (\<lambda>rs. rs @ [r]) (dv_aes_cpu (snd ls))\<rparr>)"
    have "mset (fst (snd (alloc_requests reqs ls1))) =
        (if None \<in> set reqs then H else mset (map (\<lambda>r. AesRequest (the r)) reqs) + mset (fst ls1))"
      using Cons.prems by (intro Cons.IH [of ls1 "rs @ [r]"]) (simp_all add: ls1_def)
    then show ?thesis using Some by (simp add: ls1_def)
  qed
qed

lemma init_aes_held:
  "(fst (wg_init_aes_percpu l ls) = None \<longleftrightarrow> (l_gcm l \<longrightarrow> l_percpu l \<and> None \<notin> set (l_requests l))) \<and>
   mset (fst (snd (wg_init_aes_percpu l ls))) =
     (if fst (wg_init_aes_percpu l ls) = None then mset (aes_resources l) else {#}) + mset (fst ls)"
proof -
  have "mset (fst (snd (alloc_requests (l_requests l) (AesPercpu # fst ls, (snd ls)\<lparr>dv_aes_cpu := Some []\<rparr>)))) =
      (if None \<in> set (l_requests l) then mset (fst ls)
       else mset (map (\<lambda>r. AesRequest (the r)) (l_requests l)) + ({#AesPercpu#} + mset (fst ls)))"
    by (subst alloc_requests_held [of _ "[]" "mset (fst ls)"]) simp_all
  then show ?thesis
    by (simp add: wg_init_aes_percpu_def alloc_requests_result aes_resources_def)
qed

lemma held_after_errors:
  "mset (fst (err_uninit_ratelimiter env ls)) = mset (fst ls) - mset link_resources"
  "mset (fst (err_free_handshake_queue ls)) = mset (fst ls) - mset (drop 1 link_resources)"
  "mset (fst (err_free_decrypt_queue ls)) = mset (fst ls) - mset (drop 2 link_resources)"
  "mset (fst (err_free_encrypt_queue ls)) = mset (fst ls) - mset (drop 3 link_resources)"
  "mset (fst (err_destroy_packet_crypt ls)) = mset (fst ls) - mset (drop 4 link_resources)"
  "mset (fst (err_destroy_handshake_send ls)) = mset (fst ls) - mset (drop 5 link_resources)"
  "mset (fst (err_destroy_handshake_receive ls)) = mset (fst ls) - mset (drop 6 link_resources)"
  "mset (fst (err_free_tstats ls)) = mset (fst ls) - mset (drop 7 link_resources)"
  "mset (fst (err_free_index_hashtable ls)) = mset (fst ls) - mset (drop 8 link_resources)"
  "mset (fst (err_free_peer_hashtable ls)) = mset (fst ls) - mset (drop 9 link_resources)"
  by (simp_all add: err_uninit_ratelimiter_def err_free_handshake_queue_def err_free_decrypt_queue_def err_free_encrypt_queue_def
      err_destroy_packet_crypt_def err_destroy_handshake_send_def err_destroy_handshake_receive_def err_free_tstats_def
      err_free_index_hashtable_def err_free_peer_hashtable_def uninit_ratelimiter_def free_handshake_queue_def free_decrypt_queue_def
      free_encrypt_queue_def link_resources_def diff_diff_add add_mset_commute)

lemma queue_init_result: "fst (wg_packet_queue_init n ring workers) = None \<longleftrightarrow> (ring, workers) = (None, True)"
  by (cases ring; cases workers) (simp_all add: wg_packet_queue_init_def wg_packet_percpu_multicore_worker_alloc_def)

lemma newlink_register_held:
  assumes "mset (fst ls) = mset link_resources + H"
  shows "(fst (newlink_register env l ls) = None \<longleftrightarrow>
      (l_gcm l \<longrightarrow> l_percpu l \<and> None \<notin> set (l_requests l)) \<and> l_register l = None) \<and>
    mset (fst (snd (newlink_register env l ls))) =
      (if fst (newlink_register env l ls) = None then {#Registration#} + mset (aes_resources l) + mset link_resources + H
       else if l_gcm l \<longrightarrow> l_percpu l \<and> None \<notin> set (l_requests l) then mset (aes_resources l) + H
       else H)"
proof -
  obtain ret ls' where r: "wg_init_aes_percpu l ls = (ret, ls')"
    by (cases "wg_init_aes_percpu l ls")
  show ?thesis
    using init_aes_held [of l ls] assms
    by (cases ret; cases "l_register l") (auto simp: newlink_register_def r held_after_errors)
qed

lemma newlink_queues_held:
  assumes "mset (fst ls) = mset (drop 4 link_resources) + H"
  shows "(fst (newlink_queues env l ls) = None \<longleftrightarrow> queues_start l (snd ls) \<and> l_register l = None) \<and>
    mset (fst (snd (newlink_queues env l ls))) =
      (if fst (newlink_queues env l ls) = None then {#Registration#} + mset (aes_resources l) + mset link_resources + H
       else if queues_start l (snd ls) then mset (aes_resources l) + H
       else H)"
proof -
  define wg where "wg = (snd ls)
    \<lparr>dv_encrypt_queue := snd (wg_packet_queue_init MAX_QUEUED_PACKETS (fst (l_encrypt l)) (snd (l_encrypt l))),
     dv_decrypt_queue := snd (wg_packet_queue_init MAX_QUEUED_PACKETS (fst (l_decrypt l)) (snd (l_decrypt l))),
     dv_handshake_queue := snd (wg_packet_queue_init MAX_QUEUED_INCOMING_HANDSHAKES (fst (l_handshake l)) (snd (l_handshake l))),
     dv_ratelimiter := snd (wg_ratelimiter_init (l_pages l) (fst (l_limiter l)) (fst (snd (l_limiter l)))
                  (snd (snd (l_limiter l))) (l_limiter_key l) (dv_ratelimiter (snd ls)))\<rparr>"
  define ls1 where "ls1 = (Ratelimiter # HandshakeQueue # DecryptQueue # EncryptQueue # fst ls, wg)"
  note defs = newlink_queues_def split_beta Let_def queue_init_result limiter_starts_def held_after_errors
    link_resources_def add_mset_commute
  let ?qs = "l_encrypt l = (None, True) \<and> l_decrypt l = (None, True) \<and> l_handshake l = (None, True) \<and> limiter_starts l (snd ls)"
  show ?thesis
  proof (cases ?qs)
    case True
    then have eq: "newlink_queues env l ls = newlink_register env l ls1"
      by (simp add: defs ls1_def wg_def del: not_None_eq)
    have qs: "queues_start l (snd ls) \<longleftrightarrow> (l_gcm l \<longrightarrow> l_percpu l \<and> None \<notin> set (l_requests l))"
      using True by (simp add: queues_start_def)
    have "mset (fst ls1) = mset link_resources + H"
      using assms by (simp add: ls1_def link_resources_def add_mset_commute)
    then show ?thesis
      unfolding eq qs by (rule newlink_register_held)
  next
    case False
    then have "\<not> queues_start l (snd ls)" by (auto simp: queues_start_def)
    moreover have "fst (newlink_queues env l ls) \<noteq> None \<and> mset (fst (snd (newlink_queues env l ls))) = H"
      using False assms
      by (cases "l_encrypt l = (None, True)"; cases "l_decrypt l = (None, True)"; cases "l_handshake l = (None, True)")
        (simp_all add: defs prod_eq_iff del: not_None_eq)
    ultimately show ?thesis by auto
  qed
qed

text \<open>
  C39. The creation of an interface, every allocation failing or not: it succeeds exactly when all
  allocations and the registration do, and then holds every resource once; a failing allocation
  releases everything acquired before it, in the order of the labels, and nothing held by
  others. The one exception is a failing registration after the AES-GCM requests were allocated: no
  label frees them, so the per-CPU array and every request stay allocated (with ChaCha20-Poly1305
  there is nothing to leak).
\<close>

theorem newlink_unwinds:
  "let (ret, held', _) = wg_newlink env l src_net (held, wg) in
     (ret = None \<longleftrightarrow> acquires l wg \<and> l_register l = None) \<and>
     mset held' =
       (if ret = None then {#Registration#} + mset (aes_resources l) + mset link_resources + mset held
        else if acquires l wg then mset (aes_resources l) + mset held
        else mset held)"
proof -
  define wg1 where "wg1 = (init_link env src_net wg)
    \<lparr>dv_peer_hashtable := the (wg_pubkey_hashtable_alloc (l_peer_table l) (l_table_key l)),
     dv_index_hashtable := the (wg_index_hashtable_alloc (l_index_table l))\<rparr>"
  let ?ls = "(drop 4 link_resources @ held, wg1)"
  note defs = wg_newlink_def Let_def wg_pubkey_hashtable_alloc_def wg_index_hashtable_alloc_def held_after_errors link_resources_def
  show ?thesis
  proof (cases "l_peer_table l \<noteq> None \<and> l_index_table l \<noteq> None \<and> l_tstats l \<and> l_receive_wq l \<and> l_send_wq l \<and> l_crypt_wq l")
    case True
    then have eq: "wg_newlink env l src_net (held, wg) = newlink_queues env l ?ls"
      by (auto simp: defs wg1_def)
    have "queues_start l wg1 = queues_start l wg"
      by (simp add: wg1_def init_link_def queues_start_def limiter_starts_def)
    with True have acq: "acquires l wg = queues_start l (snd ?ls)"
      by (simp add: acquires_def)
    show ?thesis
      unfolding eq acq Let_def split_beta by (rule newlink_queues_held) simp
  next
    case False
    then have "\<not> acquires l wg" by (auto simp: acquires_def)
    moreover have "fst (wg_newlink env l src_net (held, wg)) \<noteq> None \<and>
        mset (fst (snd (wg_newlink env l src_net (held, wg)))) = mset held"
      using False
      by (cases "l_peer_table l"; cases "l_index_table l") (auto simp: defs)
    ultimately show ?thesis by (auto simp: split_beta)
  qed
qed

end
