(* ===== verification/WG_Netlink.thy ===== *)
theory WG_Netlink
  imports WG_Device
begin

unbundle bit_operations_syntax

text \<open>
  The configuration interface, \<^verbatim>\<open>netlink.c\<close>: requests that change an interface and its peers, and
  the dump of the configuration in parts. Parsing and validating messages is done by the
  kernel: a request is the record of its attributes, each present or not, with the types that
  the policies of \<^verbatim>\<open>netlink.c\<close> give them, and the nested attributes are the results of
  \<^verbatim>\<open>nla_parse_nested\<close>. The flags of requests are defined by a kernel header and are a parameter. The
  wiping of keys in the buffer of the message after the request is not part of the state.
\<close>

section \<open>Requests\<close>

record allowedip_attrs =
  aa_family :: "u16 option"
  aa_ipaddr :: "bytes option"
  aa_cidr_mask :: "u8 option"

record peer_attrs =
  pa_public_key :: "bytes option"
  pa_preshared_key :: "bytes option"
  pa_flags :: "u32 option"
  pa_endpoint :: "bytes option"
  pa_persistent_keepalive_interval :: "u16 option"
  pa_allowedips :: "(errno + allowedip_attrs) list option"
  pa_protocol_version :: "u32 option"

record device_attrs =
  da_ifindex :: "u32 option"
  da_ifname :: "bytes option"
  da_private_key :: "bytes option"
  da_flags :: "u32 option"
  da_listen_port :: "u16 option"
  da_fwmark :: "u32 option"
  da_peers :: "(errno + peer_attrs) list option"

text \<open>The flags of \<^verbatim>\<open>uapi/linux/wireguard.h\<close>.\<close>

record uapi =
  WGDEVICE_F_REPLACE_PEERS :: u32
  WGDEVICE_F_ALL :: u32
  WGPEER_F_REMOVE_ME :: u32
  WGPEER_F_REPLACE_ALLOWEDIPS :: u32
  WGPEER_F_UPDATE_ONLY :: u32
  WGPEER_F_ALL :: u32

text \<open>
  What the kernel does for one step of a request (the device itself or one of the peers of the
  request). The environment is a function of the interface at that moment, the memory for
  trie nodes one of the table, because allocators do not return memory that is in use.
\<close>

record config_env =
  c_env :: "wg_device \<Rightarrow> env"
  c_nodes :: "nat \<Rightarrow> allowedips \<Rightarrow> addr option \<times> addr option"
  c_net :: "wg_device \<Rightarrow> wg_device"
  c_waits :: "peer_id \<Rightarrow> waits"

text \<open>A network device as the lookups of the kernel return it.\<close>

record found_device =
  fd_kind :: "bytes option"
  fd_priv :: nat

definition KBUILD_MODNAME :: bytes where
  "KBUILD_MODNAME = [119, 105, 114, 101, 103, 117, 97, 114, 100]"

text \<open>A successful lookup holds a reference to the network device.\<close>

definition lookup_interface ::
    "(u32 \<Rightarrow> found_device option) \<Rightarrow> (bytes \<Rightarrow> found_device option) \<Rightarrow> device_attrs \<Rightarrow> errno + nat" where
  "lookup_interface by_index by_name attrs =
     (if (da_ifindex attrs = None) = (da_ifname attrs = None) then Inl EBADR
      else
        case (case da_ifindex attrs of
                Some i \<Rightarrow> by_index i
              | None \<Rightarrow> (case da_ifname attrs of Some n \<Rightarrow> by_name n | None \<Rightarrow> None)) of
          None \<Rightarrow> Inl ENODEV
        | Some dev \<Rightarrow> if fd_kind dev \<noteq> Some KBUILD_MODNAME then Inl EOPNOTSUPP else Inr (fd_priv dev))"

section \<open>Changing the configuration\<close>

definition clear_sources :: "wg_device \<Rightarrow> wg_device" where
  "clear_sources wg = foldl (\<lambda>wg p. wg_socket_clear_peer_endpoint_src p wg) wg (dv_peer_list wg)"

definition set_port :: "env \<Rightarrow> u16 \<Rightarrow> wg_device \<Rightarrow> errno option \<times> wg_device" where
  "set_port env port wg =
     (if dv_incoming_port wg = port then (None, wg)
      else
        let wg = clear_sources wg in
        if \<not> dv_running wg then (None, wg\<lparr>dv_incoming_port := port\<rparr>)
        else wg_socket_init env port wg)"

definition PF_INET :: u16 where "PF_INET = 2"
definition PF_INET6 :: u16 where "PF_INET6 = 10"

definition set_allowedip ::
    "addr option \<times> addr option \<Rightarrow> peer_id \<Rightarrow> allowedip_attrs \<Rightarrow> wg_device \<Rightarrow> (errno option \<times> wg_device) option" where
  "set_allowedip mem p attrs wg =
     (case (aa_family attrs, aa_ipaddr attrs, aa_cidr_mask attrs) of
        (Some family, Some ip, Some c) \<Rightarrow>
          if family = PF_INET \<and> c \<le> 32 \<and> length ip = 4 then do {
            (ret, ips) \<leftarrow> wg_allowedips_insert_v4 (dv_peer_allowedips wg) ip c (Some p) (fst mem) (snd mem);
            Some (ret, wg\<lparr>dv_peer_allowedips := ips\<rparr>)
          }
          else if family = PF_INET6 \<and> c \<le> 128 \<and> length ip = 16 then do {
            (ret, ips) \<leftarrow> wg_allowedips_insert_v6 (dv_peer_allowedips wg) ip c (Some p) (fst mem) (snd mem);
            Some (ret, wg\<lparr>dv_peer_allowedips := ips\<rparr>)
          }
          else Some (Some EINVAL, wg)
      | _ \<Rightarrow> Some (Some EINVAL, wg))"

primrec set_allowedips ::
    "(nat \<Rightarrow> allowedips \<Rightarrow> addr option \<times> addr option) \<Rightarrow> nat \<Rightarrow> peer_id \<Rightarrow> (errno + allowedip_attrs) list \<Rightarrow> wg_device \<Rightarrow>
     (errno option \<times> wg_device) option" where
  "set_allowedips mem n p [] wg = Some (None, wg)"
| "set_allowedips mem n p (parsed # later) wg =
     (case parsed of
        Inl err \<Rightarrow> Some (Some err, wg)
      | Inr attrs \<Rightarrow> do {
          (ret, wg) \<leftarrow> set_allowedip (mem n (dv_peer_allowedips wg)) p attrs wg;
          if ret \<noteq> None then Some (ret, wg) else set_allowedips mem (n + 1) p later wg
        })"

text \<open>
  The address is a \<^verbatim>\<open>sockaddr_in\<close> or \<^verbatim>\<open>sockaddr_in6\<close> by its length and family. The flow label of the
  latter, which the driver never reads, is not kept.
\<close>

definition parse_endpoint :: "bytes \<Rightarrow> endpoint option" where
  "parse_endpoint a =
     (let family = load_le (take 2 a) :: u16; port = load_le (take 2 (drop 2 a)) in
      if length a = 16 \<and> family = PF_INET then Some \<lparr>ep_addr = Addr4 port (take 4 (drop 4 a)), ep_src = replicate 16 0\<rparr>
      else if length a = 28 \<and> family = PF_INET6
      then Some \<lparr>ep_addr = Addr6 port (take 16 (drop 8 a)) (load_le (drop 24 a)), ep_src = replicate 16 0\<rparr>
      else None)"

definition set_endpoint :: "peer_id \<Rightarrow> bytes option \<Rightarrow> wg_device \<Rightarrow> wg_device" where
  "set_endpoint p a wg =
     (case a of
        None \<Rightarrow> wg
      | Some a \<Rightarrow> (case parse_endpoint a of None \<Rightarrow> wg | Some ep \<Rightarrow> wg_socket_set_peer_endpoint p ep wg))"

definition set_keepalive :: "env \<Rightarrow> peer_id \<Rightarrow> u16 option \<Rightarrow> wg_device \<Rightarrow> wg_device" where
  "set_keepalive env p interval wg =
     (case interval of
        None \<Rightarrow> wg
      | Some interval \<Rightarrow>
          let send_keepalive = (pe_persistent_keepalive_interval (dv_peers wg p) = 0 \<and> interval \<noteq> 0 \<and> dv_running wg);
              wg = upd_peer p (\<lambda>q. q\<lparr>pe_persistent_keepalive_interval := interval\<rparr>) wg
          in if send_keepalive then wg_packet_send_keepalive env p wg else wg)"

text \<open>The second half of \<^verbatim>\<open>set_peer\<close>, for a peer that was found or has just been created.\<close>

definition update_peer ::
    "uapi \<Rightarrow> config_env \<Rightarrow> env \<Rightarrow> peer_attrs \<Rightarrow> bytes option \<Rightarrow> u32 \<Rightarrow> peer_id \<Rightarrow> wg_device \<Rightarrow>
     (errno option \<times> wg_device) option" where
  "update_peer u ce env attrs preshared_key flags p wg =
     (if flags AND WGPEER_F_REMOVE_ME u \<noteq> 0 then
        Some (None, wg_peer_put (Some p) (wg_peer_remove (c_net ce) (c_waits ce p) (Some p) wg))
      else
        let wg = (case preshared_key of
               None \<Rightarrow> wg
             | Some k \<Rightarrow> upd_handshake p (\<lambda>h. h\<lparr>hs_preshared_key := k\<rparr>) wg);
            wg = set_endpoint p (pa_endpoint attrs) wg;
            wg = (if flags AND WGPEER_F_REPLACE_ALLOWEDIPS u \<noteq> 0
                  then wg\<lparr>dv_peer_allowedips := wg_allowedips_remove_by_peer (dv_peer_allowedips wg) p\<rparr> else wg)
        in do {
          (ret, wg) \<leftarrow> set_allowedips (c_nodes ce) 0 p (case pa_allowedips attrs of None \<Rightarrow> [] | Some l \<Rightarrow> l) wg;
          if ret \<noteq> None then Some (ret, wg_peer_put (Some p) wg)
          else
            let wg = set_keepalive env p (pa_persistent_keepalive_interval attrs) wg;
                wg = (if dv_running wg then wg_packet_send_staged_packets env p wg else wg)
            in Some (None, wg_peer_put (Some p) wg)
        })"

definition set_peer :: "uapi \<Rightarrow> config_env \<Rightarrow> peer_attrs \<Rightarrow> wg_device \<Rightarrow> (errno option \<times> wg_device) option" where
  "set_peer u ce attrs wg =
     (case pa_public_key attrs of
        None \<Rightarrow> Some (Some EINVAL, wg)
      | Some public_key \<Rightarrow>
          if length public_key \<noteq> NOISE_PUBLIC_KEY_LEN then Some (Some EINVAL, wg)
          else
            let env = c_env ce wg;
                preshared_key = (case pa_preshared_key attrs of
                  None \<Rightarrow> None
                | Some k \<Rightarrow> if length k = NOISE_SYMMETRIC_KEY_LEN then Some k else None);
                flags = (case pa_flags attrs of None \<Rightarrow> 0 | Some f \<Rightarrow> f) in
            if flags AND NOT (WGPEER_F_ALL u) \<noteq> 0 then Some (Some EOPNOTSUPP, wg)
            else if pa_protocol_version attrs \<noteq> None \<and> pa_protocol_version attrs \<noteq> Some 1 then Some (Some EPFNOSUPPORT, wg)
            else
              let (found, refs) = wg_pubkey_hashtable_lookup (siphash env) (remote_static_of wg) (dv_peer_hashtable wg)
                    (dv_refs wg) public_key;
                  wg = wg\<lparr>dv_refs := refs\<rparr> in
              case found of
                Some p \<Rightarrow> update_peer u ce env attrs preshared_key flags p wg
              | None \<Rightarrow>
                  if flags AND (WGPEER_F_REMOVE_ME u OR WGPEER_F_UPDATE_ONLY u) \<noteq> 0 then Some (None, wg)
                  else
                    let flags = flags AND NOT (WGPEER_F_REPLACE_ALLOWEDIPS u) in
                    if si_has_identity (dv_static_identity wg) \<and> public_key = si_public (dv_static_identity wg)
                    then Some (None, wg)
                    else
                      (case wg_peer_create env public_key preshared_key wg of
                         (Inl err, wg) \<Rightarrow> Some (Some err, wg)
                       | (Inr p, wg) \<Rightarrow> update_peer u ce env attrs preshared_key flags p (get_peer_ref p wg)))"

primrec set_peers ::
    "uapi \<Rightarrow> (nat \<Rightarrow> config_env) \<Rightarrow> nat \<Rightarrow> (errno + peer_attrs) list \<Rightarrow> wg_device \<Rightarrow> (errno option \<times> wg_device) option" where
  "set_peers u ce n [] wg = Some (None, wg)"
| "set_peers u ce n (parsed # later) wg =
     (case parsed of
        Inl err \<Rightarrow> Some (Some err, wg)
      | Inr attrs \<Rightarrow> do {
          (ret, wg) \<leftarrow> set_peer u (ce n) attrs wg;
          if ret \<noteq> None then Some (ret, wg) else set_peers u ce (n + 1) later wg
        })"

text \<open>After a change of the private key all sessions of a peer are invalid.\<close>

definition rekey_peer :: "env \<Rightarrow> bool \<Rightarrow> wg_device \<Rightarrow> peer_id \<Rightarrow> wg_device" where
  "rekey_peer env send_staged_packets wg p =
     (let wg = wg_noise_precompute_static_static env p wg;
          wg = wg_noise_expire_current_peer_keypairs env p wg
      in if send_staged_packets then wg_packet_send_staged_packets env p wg else wg)"

definition set_private_key :: "config_env \<Rightarrow> bytes \<Rightarrow> wg_device \<Rightarrow> wg_device" where
  "set_private_key ce private_key wg =
     (if si_private (dv_static_identity wg) = private_key then wg
      else
        let env = c_env ce wg;
            wg = (case curve25519_generate_public env private_key of
               None \<Rightarrow> wg
             | Some public_key \<Rightarrow>
                 let (found, refs) = wg_pubkey_hashtable_lookup (siphash env) (remote_static_of wg) (dv_peer_hashtable wg)
                       (dv_refs wg) public_key;
                     wg = wg\<lparr>dv_refs := refs\<rparr> in
                 (case found of
                    None \<Rightarrow> wg
                  | Some p \<Rightarrow> wg_peer_remove (c_net ce) (c_waits ce p) (Some p) (wg_peer_put (Some p) wg)));
            send_staged_packets = (\<not> si_has_identity (dv_static_identity wg) \<and> dv_running wg);
            wg = wg\<lparr>dv_static_identity := wg_noise_set_static_identity_private_key env private_key (dv_static_identity wg)\<rparr>;
            send_staged_packets = (send_staged_packets \<and> si_has_identity (dv_static_identity wg));
            wg = wg_cookie_checker_precompute_device_keys env wg
        in foldl (rekey_peer env send_staged_packets) wg (dv_peer_list wg))"

text \<open>
  The body of \<^verbatim>\<open>wg_set_device\<close> for the interface found; \<open>ce 0\<close> is used for the interface, the later
  ones for the peers of the request.
\<close>

definition set_device ::
    "uapi \<Rightarrow> (nat \<Rightarrow> config_env) \<Rightarrow> device_attrs \<Rightarrow> wg_device \<Rightarrow> (errno option \<times> wg_device) option" where
  "set_device u ce attrs wg =
     (let env = c_env (ce 0) wg;
          flags = (case da_flags attrs of None \<Rightarrow> 0 | Some f \<Rightarrow> f) in
      if flags AND NOT (WGDEVICE_F_ALL u) \<noteq> 0 then Some (Some EOPNOTSUPP, wg)
      else if (da_listen_port attrs \<noteq> None \<or> da_fwmark attrs \<noteq> None) \<and> (dv_creating_net wg = None \<or> \<not> e_capable env)
      then Some (Some EPERM, wg)
      else
        let wg = wg\<lparr>dv_device_update_gen := dv_device_update_gen wg + 1\<rparr>;
            wg = (case da_fwmark attrs of None \<Rightarrow> wg | Some m \<Rightarrow> clear_sources (wg\<lparr>dv_fwmark := m\<rparr>));
            (ret, wg) = (case da_listen_port attrs of None \<Rightarrow> (None, wg) | Some port \<Rightarrow> set_port env port wg) in
        if ret \<noteq> None then Some (ret, wg)
        else do {
          wg \<leftarrow> (if flags AND WGDEVICE_F_REPLACE_PEERS u \<noteq> 0
                 then wg_peer_remove_all (c_net (ce 0)) (c_waits (ce 0)) wg else Some wg);
          let wg = (case da_private_key attrs of
             None \<Rightarrow> wg
           | Some k \<Rightarrow> if length k = NOISE_PUBLIC_KEY_LEN then set_private_key (ce 0) k wg else wg);
          set_peers u ce 1 (case da_peers attrs of None \<Rightarrow> [] | Some l \<Rightarrow> l) wg
        })"

definition wg_set_device ::
    "uapi \<Rightarrow> (u32 \<Rightarrow> found_device option) \<Rightarrow> (bytes \<Rightarrow> found_device option) \<Rightarrow> (nat \<Rightarrow> config_env) \<Rightarrow> device_attrs \<Rightarrow>
     (nat \<Rightarrow> wg_device) \<Rightarrow> (errno option \<times> (nat \<Rightarrow> wg_device)) option" where
  "wg_set_device u by_index by_name ce attrs devs =
     (case lookup_interface by_index by_name attrs of
        Inl err \<Rightarrow> Some (Some err, devs)
      | Inr i \<Rightarrow> do {
          (ret, wg) \<leftarrow> set_device u ce attrs (devs i);
          Some (ret, devs(i := wg))
        })"

section \<open>Reading the configuration\<close>

text \<open>
  A message is the list of its attributes; a nested attribute is the list of its parts between two
  marks. The predicate \<open>fits\<close> says which messages the buffer has room for. Ending a nested
  attribute only fills in its length.
\<close>

datatype nest = PeerNest | AllowedipNest | WGPEER_A_ALLOWEDIPS | WGDEVICE_A_PEERS

datatype nl_attr =
    NlHeader
  | ListenPort u16 | Fwmark u32 | Ifindex u32 | Ifname bytes | PrivateKey bytes | PublicKey bytes
  | PresharedKey bytes | LastHandshakeTime "u64 \<times> u64" | PersistentKeepaliveInterval u16 | TxBytes u64 | RxBytes u64
  | ProtocolVersion u32 | Endpoint sockaddr
  | CidrMask u8 | AddrFamily family | Ipaddr bytes
  | NestStart nest | NestEnd

type_synonym nl_msg = "nl_attr list"

primrec nla_puts :: "(nl_msg \<Rightarrow> bool) \<Rightarrow> nl_attr list \<Rightarrow> nl_msg \<Rightarrow> nl_msg option" where
  "nla_puts fits [] msg = Some msg"
| "nla_puts fits (a # attrs) msg = (if fits (msg @ [a]) then nla_puts fits attrs (msg @ [a]) else None)"

definition nla_nest_end :: "nl_msg \<Rightarrow> nl_msg" where
  "nla_nest_end msg = msg @ [NestEnd]"

definition get_allowedips :: "(nl_msg \<Rightarrow> bool) \<Rightarrow> bytes \<Rightarrow> u8 \<Rightarrow> family \<Rightarrow> nl_msg \<Rightarrow> errno option \<times> nl_msg" where
  "get_allowedips fits ip c family msg =
     (case nla_puts fits [NestStart AllowedipNest, CidrMask c, AddrFamily family,
             Ipaddr (take (if family = AF_INET6 then 16 else 4) ip)] msg of
        None \<Rightarrow> (Some EMSGSIZE, msg)
      | Some m \<Rightarrow> (None, nla_nest_end m))"

text \<open>Where a dump stopped. The interface of the context is an argument of the functions.\<close>

record dump_ctx =
  next_peer :: "peer_id option"
  allowedips_seq :: u64
  next_allowedip :: "addr option"

text \<open>The loop over the remaining addresses of a peer stops at the first one that does not fit.\<close>

primrec dump_allowedips :: "(nl_msg \<Rightarrow> bool) \<Rightarrow> allowedips \<Rightarrow> addr list \<Rightarrow> nl_msg \<Rightarrow> addr option \<times> nl_msg" where
  "dump_allowedips fits tb [] msg = (None, msg)"
| "dump_allowedips fits tb (a # later) msg =
     (let (ip, c, family) = wg_allowedips_read_node (node_at tb a) (replicate 16 0);
          (ret, msg) = get_allowedips fits ip c family msg
      in if ret \<noteq> None then (Some a, msg) else dump_allowedips fits tb later msg)"

definition peer_values :: "wg_peer \<Rightarrow> nl_attr list" where
  "peer_values q =
     [PresharedKey (hs_preshared_key (pe_handshake q)), LastHandshakeTime (pe_walltime_last_handshake q),
      PersistentKeepaliveInterval (pe_persistent_keepalive_interval q), TxBytes (pe_tx_bytes q), RxBytes (pe_rx_bytes q),
      ProtocolVersion 1] @
     (if ep_addr (pe_endpoint q) = AddrNone then [] else [Endpoint (ep_addr (pe_endpoint q))])"

definition get_peer ::
    "(nl_msg \<Rightarrow> bool) \<Rightarrow> wg_device \<Rightarrow> peer_id \<Rightarrow> nl_msg \<Rightarrow> dump_ctx \<Rightarrow> errno option \<times> nl_msg \<times> dump_ctx" where
  "get_peer fits wg p msg dc =
     (let q = dv_peers wg p; tb = dv_peer_allowedips wg;
          values = (if next_allowedip dc = None then peer_values q else []);
          node = (case next_allowedip dc of
                    None \<Rightarrow> (case peer_lists tb p of [] \<Rightarrow> None | a # _ \<Rightarrow> Some a)
                  | Some a \<Rightarrow> Some a);
          no_allowedips = (\<lambda>m. (None, nla_nest_end m, dc\<lparr>next_allowedip := None, allowedips_seq := 0\<rparr>)) in
      case nla_puts fits ([NestStart PeerNest, PublicKey (hs_remote_static (pe_handshake q))] @ values) msg of
        None \<Rightarrow> (Some EMSGSIZE, msg, dc)
      | Some m \<Rightarrow>
          (case node of
             None \<Rightarrow> no_allowedips m
           | Some a \<Rightarrow>
               if allowedips_seq dc \<noteq> 0 \<and> allowedips_seq dc \<noteq> seq tb then no_allowedips m
               else
                 let dc = (if allowedips_seq dc = 0 then dc\<lparr>allowedips_seq := seq tb\<rparr> else dc) in
                 case nla_puts fits [NestStart WGPEER_A_ALLOWEDIPS] m of
                   None \<Rightarrow> (Some EMSGSIZE, msg, dc)
                 | Some m \<Rightarrow>
                     let (stopped, m) = dump_allowedips fits tb (dropWhile (\<lambda>b. b \<noteq> a) (peer_lists tb p)) m;
                         m = nla_nest_end (nla_nest_end m)
                     in if stopped \<noteq> None then (Some EMSGSIZE, m, dc\<lparr>next_allowedip := stopped\<rparr>)
                        else (None, m, dc\<lparr>next_allowedip := None, allowedips_seq := 0\<rparr>)))"

text \<open>The loop over the peers; the result tells whether it reached the end, and the last peer that is complete.\<close>

primrec dump_peers ::
    "(nl_msg \<Rightarrow> bool) \<Rightarrow> wg_device \<Rightarrow> peer_id list \<Rightarrow> peer_id option \<Rightarrow> nl_msg \<Rightarrow> dump_ctx \<Rightarrow>
     bool \<times> peer_id option \<times> nl_msg \<times> dump_ctx" where
  "dump_peers fits wg [] cursor msg dc = (True, cursor, msg, dc)"
| "dump_peers fits wg (p # later) cursor msg dc =
     (let (ret, msg, dc) = get_peer fits wg p msg dc
      in if ret \<noteq> None then (False, cursor, msg, dc) else dump_peers fits wg later (Some p) msg dc)"

definition wg_get_device_start ::
    "(u32 \<Rightarrow> found_device option) \<Rightarrow> (bytes \<Rightarrow> found_device option) \<Rightarrow> device_attrs \<Rightarrow> errno + nat" where
  "wg_get_device_start by_index by_name attrs = lookup_interface by_index by_name attrs"

text \<open>The name and the index of the interface are given by the network core.\<close>

definition device_values :: "u32 \<Rightarrow> bytes \<Rightarrow> wg_device \<Rightarrow> nl_attr list" where
  "device_values ifindex name wg =
     [ListenPort (dv_incoming_port wg), Fwmark (dv_fwmark wg), Ifindex ifindex, Ifname name] @
     (if si_has_identity (dv_static_identity wg)
      then [PrivateKey (si_private (dv_static_identity wg)), PublicKey (si_public (dv_static_identity wg))] else [])"

text \<open>
  The message up to the label \<^verbatim>\<open>out\<close>: \<open>None\<close> if even the header does not fit, otherwise whether the
  dump is complete, the last complete peer, the message and the context.
\<close>

definition dump_message ::
    "(nl_msg \<Rightarrow> bool) \<Rightarrow> u32 \<Rightarrow> bytes \<Rightarrow> wg_device \<Rightarrow> dump_ctx \<Rightarrow> (bool \<times> peer_id option \<times> nl_msg \<times> dump_ctx) option" where
  "dump_message fits ifindex name wg dc =
     (let values = (if next_peer dc = None then device_values ifindex name wg else []) in
      case nla_puts fits ([NlHeader] @ values) [] of
        None \<Rightarrow> None
      | Some m \<Rightarrow>
          (case nla_puts fits [NestStart WGDEVICE_A_PEERS] m of
             None \<Rightarrow> None
           | Some m' \<Rightarrow>
               if dv_peer_list wg = [] \<or> (case next_peer dc of None \<Rightarrow> False | Some p \<Rightarrow> pe_is_dead (dv_peers wg p))
               then Some (True, next_peer dc, m, dc)
               else
                 let peers = (case next_peer dc of
                        None \<Rightarrow> dv_peer_list wg
                      | Some p \<Rightarrow> tl (dropWhile (\<lambda>r. r \<noteq> p) (dv_peer_list wg)));
                     (complete, cursor, m', dc) = dump_peers fits wg peers (next_peer dc) m' dc
                 in Some (complete, cursor, nla_nest_end m', dc)))"

text \<open>The result is the error, or whether another call follows, with the message.\<close>

definition wg_get_device_dump ::
    "(nl_msg \<Rightarrow> bool) \<Rightarrow> u32 \<Rightarrow> bytes \<Rightarrow> wg_device \<Rightarrow> dump_ctx \<Rightarrow> (errno + bool \<times> nl_msg) \<times> wg_device \<times> dump_ctx" where
  "wg_get_device_dump fits ifindex name wg dc =
     (case dump_message fits ifindex name wg dc of
        None \<Rightarrow> (Inl EMSGSIZE, wg_peer_put (next_peer dc) wg, dc)
      | Some (complete, cursor, msg, dc') \<Rightarrow>
          let wg = (case cursor of
                None \<Rightarrow> wg
              | Some p \<Rightarrow> if complete then wg else get_peer_ref p wg);
              wg = wg_peer_put (next_peer dc) wg
          in (Inr (\<not> complete, msg), wg, dc'\<lparr>next_peer := if complete then None else cursor\<rparr>))"

definition wg_get_device_done :: "wg_device \<Rightarrow> dump_ctx \<Rightarrow> wg_device" where
  "wg_get_device_done wg dc = wg_peer_put (next_peer dc) wg"

section \<open>Well-formed configurations\<close>

text \<open>
  The list of peers, their number, the table of public keys and the table of allowed addresses
  agree: the peers of the list are exactly those in the table of keys, the number is their
  number and within the limit, every allowed address belongs to a peer of the list, both
  tables are valid, and no peer of the list is dead.
\<close>

definition config_ok :: "config \<Rightarrow> bool" where
  "config_ok c \<longleftrightarrow>
     distinct (cf_list c) \<and> cf_num c = length (cf_list c) \<and> cf_num c \<le> MAX_PEERS_PER_DEVICE \<and>
     hlists_ok (ph_hashtable (cf_keys c)) \<and>
     (\<forall>p. hl_pprev (ph_hashtable (cf_keys c)) p \<noteq> None \<longleftrightarrow> p \<in> set (cf_list c)) \<and>
     allowedips_ok (cf_ips c) \<and> (\<forall>v6 q p. (q, p) \<in> allowed_entries (cf_ips c) v6 \<longrightarrow> p \<in> set (cf_list c)) \<and>
     (\<forall>p\<in>set (cf_list c). \<not> fst (cf_peers c p))"

text \<open>
  What the code relies on of the kernel during a request: allocators return unused memory, and
  while the configuration waits, only packets, timers and workers run.
\<close>

definition kernel_ok :: "config_env \<Rightarrow> bool" where
  "kernel_ok ce \<longleftrightarrow>
     (\<forall>wg p. e_peer_mem (c_env ce wg) = Some p \<longrightarrow> p \<notin> set (dv_peer_list wg)) \<and>
     (\<forall>n tb. fresh_mem tb (c_nodes ce n tb)) \<and>
     (\<forall>v. live v (c_net ce v)) \<and>
     (\<forall>p v. live v (after_crypt (c_waits ce p) v) \<and> live v (after_serial (c_waits ce p) v) \<and>
        live v (after_napi (c_waits ce p) v) \<and> live v (after_handshake (c_waits ce p) v))"

text \<open>
  An interface between its creation and its destruction. It starts in the zeroed memory of a new
  network device, with tables in which nothing is linked, when \<^verbatim>\<open>wg_newlink\<close> succeeds. Then packets
  are sent and received, timers and workers run, the interface goes up and down, grace
  periods end, the system is suspended, the namespace it was created in exits, it is dumped,
  and requests change it.
\<close>

definition blank :: "link_env \<Rightarrow> wg_device \<Rightarrow> bool" where
  "blank l wg \<longleftrightarrow>
     dv_num_peers wg = 0 \<and> nodes (dv_peer_allowedips wg) = Map.empty \<and> peer_lists (dv_peer_allowedips wg) = (\<lambda>_. []) \<and>
     (\<forall>t. l_peer_table l = Some t \<longrightarrow> hl_pprev (ph_hashtable t) = (\<lambda>_. None))"

inductive managed :: "wg_device \<Rightarrow> bool" where
  created: "wg_newlink env l net (held, v) = (None, held', w) \<Longrightarrow> blank l v \<Longrightarrow> managed w"
| runs: "managed v \<Longrightarrow> live v w \<Longrightarrow> managed w"
| flag: "managed v \<Longrightarrow> managed (v\<lparr>dv_running := b\<rparr>)"
| opened: "managed v \<Longrightarrow> wg_open env v = (ret, w) \<Longrightarrow> managed w"
| stopped: "managed v \<Longrightarrow> managed (wg_stop env v)"
| grace: "managed v \<Longrightarrow> managed (finish_rcu v)"
| suspended: "managed v \<Longrightarrow> wg_pm_notification autosleep action [v] = [w] \<Longrightarrow> managed w"
| namespace_exit: "managed v \<Longrightarrow> wg_netns_pre_exit net [v] = [w] \<Longrightarrow> managed w"
| dumped: "managed v \<Longrightarrow> wg_get_device_dump fits i name v dc = (reply, w, dc') \<Longrightarrow> managed w"
| dump_done: "managed v \<Longrightarrow> managed (wg_get_device_done v dc)"
| configured: "managed v \<Longrightarrow> (\<And>n. kernel_ok (ce n)) \<Longrightarrow> set_device u ce attrs v = Some (ret, w) \<Longrightarrow> managed w"

text \<open>
  A kernel whose allocators look for unused memory, a new interface, and a request that sets its
  private key and adds a peer with an allowed network.
\<close>

definition demo_kernel :: config_env where
  "demo_kernel =
     \<lparr>c_env = (\<lambda>wg. demo_env\<lparr>e_peer_mem := Some (sum_list (dv_peer_list wg) + 1)\<rparr>),
      c_nodes = (\<lambda>n tb. (if nodes tb n = None then Some n else None, None)),
      c_net = id, c_waits = (\<lambda>_. \<lparr>after_crypt = id, after_serial = id, after_napi = id, after_handshake = id\<rparr>)\<rparr>"

definition demo_link :: link_env where
  "demo_link =
     \<lparr>l_peer_table = Some \<lparr>ph_hashtable = \<lparr>hl_first = (\<lambda>_. []), hl_pprev = (\<lambda>_. None)\<rparr>, ph_key = []\<rparr>,
      l_table_key = replicate 16 3, l_index_table = Some (dv_index_hashtable (demo_device [])),
      l_tstats = True, l_receive_wq = True, l_send_wq = True, l_crypt_wq = True,
      l_encrypt = (None, True), l_decrypt = (None, True), l_handshake = (None, True),
      l_pages = 4194304, l_limiter = (True, True, True), l_limiter_key = replicate 16 4,
      l_gcm = True, l_percpu = True, l_requests = [Some 0, Some 1], l_register = None\<rparr>"

definition demo_new :: wg_device where
  "demo_new = snd (snd (wg_newlink demo_env demo_link 1
     ([], (demo_device [])\<lparr>dv_static_identity := zero_identity, dv_running := False\<rparr>)))"

definition demo_uapi :: uapi where
  "demo_uapi = \<lparr>WGDEVICE_F_REPLACE_PEERS = 1, WGDEVICE_F_ALL = 1, WGPEER_F_REMOVE_ME = 1,
     WGPEER_F_REPLACE_ALLOWEDIPS = 2, WGPEER_F_UPDATE_ONLY = 4, WGPEER_F_ALL = 7\<rparr>"

definition demo_request :: device_attrs where
  "demo_request =
     \<lparr>da_ifindex = Some 3, da_ifname = None, da_private_key = Some (replicate 32 1), da_flags = Some 1,
      da_listen_port = Some 51821, da_fwmark = None,
      da_peers = Some [Inr \<lparr>pa_public_key = Some (replicate 32 2), pa_preshared_key = None, pa_flags = None,
        pa_endpoint = Some ([2, 0, 202, 108, 192, 0, 2, 7] @ replicate 8 0), pa_persistent_keepalive_interval = Some 25,
        pa_allowedips = Some [Inr \<lparr>aa_family = Some 2, aa_ipaddr = Some [10, 0, 0, 0], aa_cidr_mask = Some 8\<rparr>],
        pa_protocol_version = Some 1\<rparr>]\<rparr>"

section \<open>What leaves the configuration alone\<close>

lemma live_conf: "live v w \<Longrightarrow> conf w = conf v"
  using live_still [of v w False 0 "conf v"] by (simp add: still_conf)

lemma conf_frame:
  assumes "\<And>c. still False 0 c v \<Longrightarrow> still False 0 c w"
  shows "conf w = conf v"
  using assms [of "conf v"] by (simp add: still_conf)

lemma conf_fields [simp]:
  "conf (wg\<lparr>dv_refs := x1\<rparr>) = conf wg" "conf (wg\<lparr>dv_index_hashtable := x2\<rparr>) = conf wg"
  "conf (wg\<lparr>dv_fwmark := x3\<rparr>) = conf wg" "conf (wg\<lparr>dv_device_update_gen := x4\<rparr>) = conf wg"
  "conf (wg\<lparr>dv_incoming_port := x5\<rparr>) = conf wg" "conf (wg\<lparr>dv_running := x6\<rparr>) = conf wg"
  "conf (wg\<lparr>dv_sock4 := x7\<rparr>) = conf wg" "conf (wg\<lparr>dv_sock6 := x8\<rparr>) = conf wg" "conf (wg\<lparr>dv_open_socks := x9\<rparr>) = conf wg"
  "conf (wg\<lparr>dv_creating_net := y1\<rparr>) = conf wg" "conf (wg\<lparr>dv_cookie_checker := y2\<rparr>) = conf wg"
  "conf (wg\<lparr>dv_keypairs := y3\<rparr>) = conf wg" "conf (wg\<lparr>dv_rcu_peers := y4\<rparr>) = conf wg" "conf (wg\<lparr>dv_rcu_keypairs := y5\<rparr>) = conf wg"
  "conf (wg\<lparr>dv_aeads := y6\<rparr>) = conf wg" "conf (wg\<lparr>dv_handshake_queue := y7\<rparr>) = conf wg"
  "conf (wg\<lparr>dv_handshake_queue_len := y8\<rparr>) = conf wg" "conf (wg\<lparr>dv_tx_dropped := y9\<rparr>) = conf wg"
  "conf (wg\<lparr>dv_tx_errors := z1\<rparr>) = conf wg" "conf (wg\<lparr>dv_encrypt_queue := z2\<rparr>) = conf wg"
  "conf (wg\<lparr>dv_decrypt_queue := z3\<rparr>) = conf wg" "conf (wg\<lparr>dv_ratelimiter := z4\<rparr>) = conf wg"
  "conf (wg\<lparr>dv_aes_cpu := z5\<rparr>) = conf wg" "conf (wg\<lparr>dv_is_chacha := z6\<rparr>) = conf wg"
  by (simp_all add: conf_def)

lemma conf_parts [simp]:
  "cf_list (conf wg) = dv_peer_list wg" "cf_num (conf wg) = dv_num_peers wg" "cf_keys (conf wg) = dv_peer_hashtable wg"
  "cf_ips (conf wg) = dv_peer_allowedips wg" "cf_identity (conf wg) = dv_static_identity wg"
  "fst (cf_peers (conf wg) p) = pe_is_dead (dv_peers wg p)"
  by (simp_all add: conf_def peer_ident_def)

lemma conf_peer: "(\<And>q. peer_ident (f q) = peer_ident q) \<Longrightarrow> conf (upd_peer r f wg) = conf wg"
  by (rule conf_frame) (rule still_peer; simp add: calm_def)

lemma conf_handshake: "(\<And>h. hs_remote_static (f h) = hs_remote_static h) \<Longrightarrow> conf (upd_handshake r f wg) = conf wg"
  by (rule conf_frame) simp

lemma conf_operations [simp]:
  "conf (wg_packet_send_staged_packets env r wg) = conf wg"
  "conf (wg_packet_send_keepalive env r wg) = conf wg"
  "conf (wg_peer_put x wg) = conf wg"
  "conf (get_peer_ref r wg) = conf wg"
  "conf (wg_socket_clear_peer_endpoint_src r wg) = conf wg"
  "conf (wg_socket_set_peer_endpoint r ep wg) = conf wg"
  "conf (wg_packet_purge_staged_packets r wg) = conf wg"
  "conf (wg_noise_keypairs_clear r wg) = conf wg"
  "conf (index_remove e wg) = conf wg"
  "conf (upd_keypair k g wg) = conf wg"
  "conf (del_timer pe_timer_zero_key_material_update r wg) = conf wg"
  by (rule conf_frame, simp add: still_clear)+

lemma conf_clear [simp]:
  "conf (wg_noise_handshake_clear r wg) = conf wg"
  "conf (wg_noise_reset_last_sent_handshake env r wg) = conf wg"
  "conf (invalidate_sending k wg) = conf wg"
  "conf (wg_noise_expire_current_peer_keypairs env r wg) = conf wg"
  "conf (wg_noise_precompute_static_static env r wg) = conf wg"
  "conf (rekey_peer env b wg r) = conf wg"
  "conf (wg_cookie_checker_precompute_device_keys env wg) = conf wg"
  "conf (set_endpoint r a wg) = conf wg"
  "conf (set_keepalive env r i wg) = conf wg"
  by (simp_all add: wg_noise_handshake_clear_def wg_noise_reset_last_sent_handshake_def invalidate_sending_def
      wg_noise_expire_current_peer_keypairs_def wg_noise_precompute_static_static_def rekey_peer_def
      wg_cookie_checker_precompute_device_keys_def set_endpoint_def set_keepalive_def conf_peer conf_handshake Let_def
      split: option.split prod.split)

lemma conf_foldl: "(\<And>wg p. conf (f wg p) = conf wg) \<Longrightarrow> conf (foldl f wg ps) = conf wg"
  by (induction ps arbitrary: wg) auto

lemma conf_sockets [simp]:
  "conf (clear_sources wg) = conf wg"
  "conf (wg_socket_reinit n4 n6 wg) = conf wg"
  by (simp_all add: clear_sources_def conf_foldl wg_socket_reinit_def sock_free_def Let_def split: option.split)

lemma conf_socket_rounds: "conf (snd (socket_rounds env port n wg)) = conf wg"
  by (induction env port n wg rule: socket_rounds.induct)
    (subst socket_rounds.simps, auto simp: sock_open_def sock_free_def Let_def split: sum.split)

lemma conf_socket_init [simp]: "conf (snd (wg_socket_init env port wg)) = conf wg"
  by (simp add: wg_socket_init_def conf_socket_rounds split: option.split)

lemma conf_set_port [simp]: "conf (snd (set_port env port wg)) = conf wg"
  by (simp add: set_port_def Let_def)

section \<open>Removal and creation\<close>

lemma kernel_okD:
  assumes "kernel_ok ce"
  shows "e_peer_mem (c_env ce wg) = Some p \<Longrightarrow> p \<notin> set (dv_peer_list wg)" "fresh_mem tb (c_nodes ce n tb)"
    "live v (c_net ce v)" "live v (after_crypt (c_waits ce p) v)" "live v (after_serial (c_waits ce p) v)"
    "live v (after_napi (c_waits ce p) v)" "live v (after_handshake (c_waits ce p) v)"
  using assms by (auto simp: kernel_ok_def)

lemma make_dead_parts [simp]:
  "dv_peer_list (peer_make_dead p wg) = remove1 p (dv_peer_list wg)"
  "dv_num_peers (peer_make_dead p wg) = dv_num_peers wg"
  "dv_peer_allowedips (peer_make_dead p wg) = wg_allowedips_remove_by_peer (dv_peer_allowedips wg) p"
  "dv_peer_hashtable (peer_make_dead p wg) = wg_pubkey_hashtable_remove (dv_peer_hashtable wg) p"
  "pe_is_dead (dv_peers (peer_make_dead p wg) r) \<longleftrightarrow> r = p \<or> pe_is_dead (dv_peers wg r)"
  by (simp_all add: peer_make_dead_def Let_def)

lemma remove_after_dead_conf:
  assumes "kernel_ok ce" "pe_is_dead (dv_peers v p)"
  shows "conf (peer_remove_after_dead (c_waits ce p) p v) = (conf v)\<lparr>cf_num := dv_num_peers v - 1\<rparr>"
  using remove_still [OF refl, of v p "c_waits ce p"] kernel_okD [OF assms(1)] assms(2) by (simp add: still_def)

lemma peer_remove_ok:
  assumes "config_ok (conf wg)" "p \<in> set (dv_peer_list wg)" "kernel_ok ce"
  shows "config_ok (conf (wg_peer_remove (c_net ce) (c_waits ce p) (Some p) wg))"
proof -
  let ?d = "peer_make_dead p wg"
  have n: "conf (c_net ce ?d) = conf ?d" by (rule live_conf) (rule kernel_okD [OF assms(3)])
  then have d: "pe_is_dead (dv_peers (c_net ce ?d) p)" "dv_num_peers (c_net ce ?d) = dv_num_peers wg"
    using conf_parts(6) [of "c_net ce ?d" p] conf_parts(6) [of ?d p] conf_parts(2) [of "c_net ce ?d"] conf_parts(2) [of ?d]
    by simp_all
  have eq: "conf (wg_peer_remove (c_net ce) (c_waits ce p) (Some p) wg) = (conf ?d)\<lparr>cf_num := dv_num_peers wg - 1\<rparr>"
    using remove_after_dead_conf [OF assms(3) d(1)] n d(2) by (simp add: wg_peer_remove_def)
  have ok: "allowedips_ok (dv_peer_allowedips wg)" "hlists_ok (ph_hashtable (dv_peer_hashtable wg))"
    "distinct (dv_peer_list wg)" using assms(1) by (auto simp: config_ok_def)
  show ?thesis
    using assms(1,2) remove_entries [OF ok(1), of p] hlist_del_init_ok [OF ok(2), of p] ok(3) unfolding eq
    by (auto simp: config_ok_def wg_pubkey_hashtable_remove_def length_remove1)
qed

text \<open>Without entries the removal of a peer from the table does nothing.\<close>

lemma make_dead_all:
  assumes "dv_peer_list v = ps" "peer_lists (dv_peer_allowedips v) = (\<lambda>_. [])" "hlists_ok (ph_hashtable (dv_peer_hashtable v))"
    "\<forall>p. hl_pprev (ph_hashtable (dv_peer_hashtable v)) p \<noteq> None \<longrightarrow> p \<in> set ps"
  defines "w \<equiv> foldl (\<lambda>wg p. peer_make_dead p wg) v ps"
  shows "dv_peer_list w = [] \<and> dv_num_peers w = dv_num_peers v \<and> dv_peer_allowedips w = dv_peer_allowedips v \<and>
    hlists_ok (ph_hashtable (dv_peer_hashtable w)) \<and> (\<forall>p. hl_pprev (ph_hashtable (dv_peer_hashtable w)) p = None) \<and>
    (\<forall>p. pe_is_dead (dv_peers w p) \<longleftrightarrow> p \<in> set ps \<or> pe_is_dead (dv_peers v p))"
  using assms(1-4) unfolding w_def
proof (induction ps arbitrary: v)
  case Nil
  then show ?case by auto
next
  case (Cons p ps)
  let ?v = "peer_make_dead p v"
  have same: "wg_allowedips_remove_by_peer (dv_peer_allowedips v) p = dv_peer_allowedips v"
    using Cons.prems(2) by (simp add: wg_allowedips_remove_by_peer_def)
  have "dv_peer_list ?v = ps" "peer_lists (dv_peer_allowedips ?v) = (\<lambda>_. [])" "hlists_ok (ph_hashtable (dv_peer_hashtable ?v))"
    "\<forall>r. hl_pprev (ph_hashtable (dv_peer_hashtable ?v)) r \<noteq> None \<longrightarrow> r \<in> set ps"
    using Cons.prems by (auto simp: same wg_pubkey_hashtable_remove_def hlist_del_init_ok)
  from Cons.IH [OF this] show ?case by (simp add: same) blast
qed

lemma remove_after_dead_all:
  assumes "kernel_ok ce" "\<forall>p\<in>set ps. pe_is_dead (dv_peers v p)"
  shows "conf (foldl (\<lambda>wg p. peer_remove_after_dead (c_waits ce p) p wg) v ps) = (conf v)\<lparr>cf_num := dv_num_peers v - length ps\<rparr>"
  using assms(2)
proof (induction ps arbitrary: v)
  case Nil
  then show ?case by (simp add: conf_def)
next
  case (Cons p ps)
  let ?v = "peer_remove_after_dead (c_waits ce p) p v"
  have c: "conf ?v = (conf v)\<lparr>cf_num := dv_num_peers v - 1\<rparr>" using remove_after_dead_conf [OF assms(1)] Cons.prems by simp
  have d: "dv_num_peers ?v = dv_num_peers v - 1" "\<And>r. pe_is_dead (dv_peers ?v r) = pe_is_dead (dv_peers v r)"
    using conf_parts(2) [of ?v] conf_parts(6) [of ?v] c by (simp_all add: conf_parts(6) [symmetric] del: conf_parts)
  show ?case using Cons.IH [of ?v] Cons.prems c d by simp
qed

lemma remove_all_ok:
  assumes "config_ok (conf wg)" "kernel_ok ce"
  shows "\<exists>w. wg_peer_remove_all (c_net ce) (c_waits ce) wg = Some w \<and> config_ok (conf w) \<and> dv_peer_list w = []"
proof -
  have ok: "allowedips_ok (dv_peer_allowedips wg)" using assms(1) by (simp add: config_ok_def)
  then obtain ips where ips: "wg_allowedips_free (dv_peer_allowedips wg) = Some ips" "allowedips_ok ips"
    "nodes ips = Map.empty" "peer_lists ips = (\<lambda>_. [])"
    using free_rep unfolding allowedips_ok_def by blast
  let ?ps = "dv_peer_list wg" and ?v = "wg\<lparr>dv_peer_allowedips := ips\<rparr>"
  let ?d = "foldl (\<lambda>wg p. peer_make_dead p wg) ?v ?ps"
  have d: "dv_peer_list ?d = []" "dv_num_peers ?d = dv_num_peers wg" "dv_peer_allowedips ?d = ips"
    "hlists_ok (ph_hashtable (dv_peer_hashtable ?d))" "\<forall>p. hl_pprev (ph_hashtable (dv_peer_hashtable ?d)) p = None"
    "\<forall>p\<in>set ?ps. pe_is_dead (dv_peers ?d p)"
    using make_dead_all [of ?v ?ps] assms(1) ips(4) by (auto simp: config_ok_def)
  have n: "conf (c_net ce ?d) = conf ?d" by (rule live_conf) (rule kernel_okD [OF assms(2)])
  then have dead: "\<forall>p\<in>set ?ps. pe_is_dead (dv_peers (c_net ce ?d) p)" "dv_num_peers (c_net ce ?d) = dv_num_peers wg"
    using d(2,6) conf_parts(6) [of "c_net ce ?d"] conf_parts(6) [of ?d] conf_parts(2) [of "c_net ce ?d"] conf_parts(2) [of ?d]
    by (simp_all del: conf_parts)
  define w where "w = foldl (\<lambda>wg p. peer_remove_after_dead (c_waits ce p) p wg) (c_net ce ?d) ?ps"
  have w: "conf w = (conf ?d)\<lparr>cf_num := 0\<rparr>"
    using remove_after_dead_all [OF assms(2) dead(1)] dead(2) n assms(1) by (simp add: w_def config_ok_def)
  have "config_ok (conf w)"
    using d(1,3-5) ips(2,3) unfolding w by (auto simp: config_ok_def allowed_entries_def)
  moreover have "dv_peer_list w = []" using conf_parts(1) [of w] w d(1) by (simp del: conf_parts add: conf_parts(1) [of ?d])
  ultimately show ?thesis using ips(1) by (simp add: wg_peer_remove_all_def w_def Let_def)
qed

lemma no_entries_list:
  assumes "allowedips_ok tb" "\<forall>v6 q. (q, p) \<notin> allowed_entries tb v6"
  shows "(peer_lists tb)(p := []) = peer_lists tb"
proof -
  obtain T where T: "tb_rep tb T" using assms(1) by (auto simp: allowedips_ok_def)
  have "set (peer_lists tb p) = {a. \<exists>v q. (q, p, a) \<in> ents (T v)}" using T by (simp add: tb_rep_def)
  moreover have "(q, p, a) \<notin> ents (T v)" for q a v
    using assms(2) tb_rep_entries [OF T, of v] entries_iff [of q p "T v"] by blast
  ultimately show ?thesis by (auto simp: fun_eq_iff)
qed

lemma new_peer_dead [simp]: "pe_is_dead (new_peer env q i) = pe_is_dead q" "\<not> pe_is_dead zero_peer"
  by (simp_all add: new_peer_def wg_timers_init_def wg_cookie_checker_precompute_peer_keys_def Let_def zero_peer_def)

lemma handshake_init_parts [simp]:
  "dv_peer_list (wg_noise_handshake_init env p k psk wg) = dv_peer_list wg"
  "dv_num_peers (wg_noise_handshake_init env p k psk wg) = dv_num_peers wg"
  "dv_peer_allowedips (wg_noise_handshake_init env p k psk wg) = dv_peer_allowedips wg"
  "dv_peer_hashtable (wg_noise_handshake_init env p k psk wg) = dv_peer_hashtable wg"
  "pe_is_dead (dv_peers (wg_noise_handshake_init env p k psk wg) q) = pe_is_dead (dv_peers wg q)"
  by (simp_all add: wg_noise_handshake_init_def set_entry_def wg_noise_precompute_static_static_def Let_def upd_handshake_def)

lemma peer_create_ok:
  assumes "config_ok (conf wg)" "\<And>p. e_peer_mem env = Some p \<Longrightarrow> p \<notin> set (dv_peer_list wg)"
    "wg_peer_create env k psk wg = (r, w)"
  shows "config_ok (conf w) \<and> (\<forall>p. r = Inr p \<longrightarrow> p \<in> set (dv_peer_list w))"
proof (cases "dv_num_peers wg \<ge> MAX_PEERS_PER_DEVICE \<or> e_peer_mem env = None \<or> \<not> e_dst_cache_ok env")
  case True
  then have "w = wg \<and> r = Inl ENOMEM"
    using assms(3) by (cases "dv_num_peers wg \<ge> MAX_PEERS_PER_DEVICE"; cases "e_peer_mem env") (simp_all add: wg_peer_create_def)
  then show ?thesis using assms(1) by auto
next
  case False
  then obtain p where p: "e_peer_mem env = Some p" "p \<notin> set (dv_peer_list wg)" using assms(2) by auto
  have ips: "(peer_lists (dv_peer_allowedips wg))(p := []) = peer_lists (dv_peer_allowedips wg)"
    by (rule no_entries_list) (use assms(1) p(2) in \<open>auto simp: config_ok_def\<close>)
  have u: "hlist_unhashed (ph_hashtable (dv_peer_hashtable wg)) p" 
    using assms(1) p(2) by (metis config_ok_def conf_parts(1,3) hlist_unhashed_def)
  have "r = Inr p \<and> dv_peer_list w = dv_peer_list wg @ [p] \<and> dv_num_peers w = dv_num_peers wg + 1 \<and>
      dv_peer_allowedips w = dv_peer_allowedips wg \<and>
      (\<exists>f. dv_peer_hashtable w = wg_pubkey_hashtable_add (siphash env) f (dv_peer_hashtable wg) p) \<and>
      (\<forall>q. pe_is_dead (dv_peers w q) \<longleftrightarrow> q \<noteq> p \<and> pe_is_dead (dv_peers wg q))"
    using False p assms(3) ips
    by (auto simp: wg_peer_create_def Let_def wg_noise_reset_last_sent_handshake_def split: if_splits)
  then show ?thesis
    using False assms(1) p(2) u by (auto simp: config_ok_def wg_pubkey_hashtable_add_def intro!: hlist_add_head_ok split: if_splits)
qed

section \<open>Requests keep the configuration well-formed\<close>

lemma lookup_listed:
  assumes "config_ok (conf wg)" "wg_pubkey_hashtable_lookup sip f (dv_peer_hashtable wg) refs k = (Some p, refs')"
  shows "p \<in> set (dv_peer_list wg)"
proof -
  have "pubkey_find sip f (dv_peer_hashtable wg) k = Some p"
    using assms(2) by (auto simp: wg_pubkey_hashtable_lookup_def wg_peer_get_maybe_zero_def split: option.splits if_splits)
  then have "p \<in> set (hl_first (ph_hashtable (dv_peer_hashtable wg)) (pubkey_bucket sip (dv_peer_hashtable wg) k))"
    by (auto simp: pubkey_find_def find_Some_iff)
  then show ?thesis using assms(1) by (auto simp: config_ok_def hlists_ok_def)
qed

lemma ips_ok:
  assumes "config_ok (conf wg)" "allowedips_ok ips"
    "\<And>v6 q r. (q, r) \<in> allowed_entries ips v6 \<Longrightarrow> r \<in> set (dv_peer_list wg)"
  shows "config_ok (conf (wg\<lparr>dv_peer_allowedips := ips\<rparr>))"
  using assms by (auto simp: config_ok_def)

lemma allowedip_insert_ok:
  assumes "config_ok (conf wg)" "p \<in> set (dv_peer_list wg)" "fresh_mem (dv_peer_allowedips wg) mem"
    "width v6 div 8 \<le> length ip" "unat c \<le> width v6"
  shows "\<exists>r ips. insert_family v6 (dv_peer_allowedips wg) ip c p mem = Some (r, ips) \<and>
    config_ok (conf (wg\<lparr>dv_peer_allowedips := ips\<rparr>))"
proof -
  have ok: "allowedips_ok (dv_peer_allowedips wg)" using assms(1) by (simp add: config_ok_def)
  from insert_family_entries [OF ok assms(4,5,3), of p] obtain r ips where
    r: "insert_family v6 (dv_peer_allowedips wg) ip c p mem = Some (r, ips)" "allowedips_ok ips"
    "allowed_entries ips (\<not> v6) = allowed_entries (dv_peer_allowedips wg) (\<not> v6)"
    "allowed_entries ips v6 \<subseteq> insert (take (unat c) (net_bits (width v6) ip), p) (allowed_entries (dv_peer_allowedips wg) v6)"
    by (auto simp: subset_insertI)
  have "s \<in> set (dv_peer_list wg)" if "(q, s) \<in> allowed_entries ips v" for v q s
    using that r(3,4) assms(1,2) by (cases "v = v6") (auto simp: config_ok_def)
  then show ?thesis using r(1,2) ips_ok [OF assms(1)] by blast
qed

lemma set_allowedip_ok:
  assumes "config_ok (conf wg)" "p \<in> set (dv_peer_list wg)" "fresh_mem (dv_peer_allowedips wg) mem"
  shows "\<exists>r w. set_allowedip mem p attrs wg = Some (r, w) \<and> config_ok (conf w) \<and> dv_peer_list w = dv_peer_list wg"
proof -
  have v4: "\<exists>r ips. wg_allowedips_insert_v4 (dv_peer_allowedips wg) ip c (Some p) (fst mem) (snd mem) = Some (r, ips) \<and>
      config_ok (conf (wg\<lparr>dv_peer_allowedips := ips\<rparr>))" if "c \<le> 32" "length ip = 4" for ip c
    using allowedip_insert_ok [OF assms, of False ip c] that by (simp add: insert_family_def width_def word_le_nat_alt)
  have v6: "\<exists>r ips. wg_allowedips_insert_v6 (dv_peer_allowedips wg) ip c (Some p) (fst mem) (snd mem) = Some (r, ips) \<and>
      config_ok (conf (wg\<lparr>dv_peer_allowedips := ips\<rparr>))" if "c \<le> 128" "length ip = 16" for ip c
    using allowedip_insert_ok [OF assms, of True ip c] that by (simp add: insert_family_def width_def word_le_nat_alt)
  show ?thesis
    using assms(1) v4 v6 by (fastforce simp: set_allowedip_def split: option.split)
qed

lemma set_allowedips_ok:
  assumes "config_ok (conf wg)" "p \<in> set (dv_peer_list wg)" "\<And>n tb. fresh_mem tb (mem n tb)"
  shows "\<exists>r w. set_allowedips mem n p xs wg = Some (r, w) \<and> config_ok (conf w) \<and> dv_peer_list w = dv_peer_list wg"
  using assms(1,2)
proof (induction xs arbitrary: n wg)
  case Nil
  then show ?case by simp
next
  case (Cons x xs)
  show ?case
  proof (cases x)
    case (Inl e)
    then show ?thesis using Cons.prems by simp
  next
    case (Inr attrs)
    from set_allowedip_ok [OF Cons.prems assms(3)] obtain r w where
      r: "set_allowedip (mem n (dv_peer_allowedips wg)) p attrs wg = Some (r, w)" "config_ok (conf w)"
      "dv_peer_list w = dv_peer_list wg" by blast
    then show ?thesis using Inr Cons.IH [of w "n + 1"] Cons.prems(2) by auto
  qed
qed

lemma conf_list: "conf v = conf w \<Longrightarrow> dv_peer_list v = dv_peer_list w"
  using conf_parts(1) [of v] conf_parts(1) [of w] by simp

lemma update_peer_ok:
  assumes "config_ok (conf wg)" "p \<in> set (dv_peer_list wg)" "kernel_ok ce"
  shows "\<exists>r w. update_peer u ce env attrs psk flags p wg = Some (r, w) \<and> config_ok (conf w)"
proof (cases "flags AND WGPEER_F_REMOVE_ME u = 0")
  case False
  then show ?thesis using peer_remove_ok [OF assms] by (simp add: update_peer_def)
next
  case True
  define v where "v = set_endpoint p (pa_endpoint attrs)
    (case psk of None \<Rightarrow> wg | Some k \<Rightarrow> upd_handshake p (\<lambda>h. h\<lparr>hs_preshared_key := k\<rparr>) wg)"
  define x where "x = (if flags AND WGPEER_F_REPLACE_ALLOWEDIPS u \<noteq> 0
    then v\<lparr>dv_peer_allowedips := wg_allowedips_remove_by_peer (dv_peer_allowedips v) p\<rparr> else v)"
  have v: "conf v = conf wg" by (simp add: v_def conf_handshake split: option.split)
  note l = conf_list [OF v]
  have "allowedips_ok (dv_peer_allowedips v)" using assms(1) by (simp add: v [symmetric] config_ok_def)
  note rm = remove_entries [OF this, of p]
  have x: "config_ok (conf x)" "dv_peer_list x = dv_peer_list wg"
    using assms(1) rm by (auto simp: x_def l v [symmetric] config_ok_def)
  obtain r w where w: "set_allowedips (c_nodes ce) 0 p (case pa_allowedips attrs of None \<Rightarrow> [] | Some l \<Rightarrow> l) x = Some (r, w)"
    "config_ok (conf w)"
    using set_allowedips_ok [where mem = "c_nodes ce" and n = 0 and p = p, OF x(1) _ kernel_okD(2) [OF assms(3)]] x(2) assms(2) by metis
  have "update_peer u ce env attrs psk flags p wg =
    Some (r, wg_peer_put (Some p) (if r \<noteq> None then w else
      (let w = set_keepalive env p (pa_persistent_keepalive_interval attrs) w
       in if dv_running w then wg_packet_send_staged_packets env p w else w)))"
    unfolding update_peer_def Let_def v_def [symmetric] x_def [symmetric] w(1) using True by simp
  then show ?thesis using w(2) by (simp add: Let_def)
qed

lemma set_peer_ok:
  assumes "config_ok (conf wg)" "kernel_ok ce"
  shows "\<exists>r w. set_peer u ce attrs wg = Some (r, w) \<and> config_ok (conf w)"
proof -
  define env where "env = c_env ce wg"
  have found: "\<exists>r w. update_peer u ce env attrs psk flags p (wg\<lparr>dv_refs := refs'\<rparr>) = Some (r, w) \<and> config_ok (conf w)"
    if "wg_pubkey_hashtable_lookup (siphash env) (remote_static_of wg) (dv_peer_hashtable wg) (dv_refs wg) k = (Some p, refs')"
    for psk flags p refs' k
    by (rule update_peer_ok [OF _ _ assms(2)]) (use assms(1) lookup_listed [OF assms(1) that] in simp_all)
  have create: "(\<exists>e. x = Inl e) \<or> (\<exists>p. x = Inr p \<and>
      (\<exists>r w. update_peer u ce env attrs psk flags p (get_peer_ref p v) = Some (r, w) \<and> config_ok (conf w)))"
    "config_ok (conf v)"
    if "wg_peer_create env k psk (wg\<lparr>dv_refs := refs'\<rparr>) = (x, v)" for psk flags refs' k x v
  proof -
    have ok: "config_ok (conf v) \<and> (\<forall>p. x = Inr p \<longrightarrow> p \<in> set (dv_peer_list v))"
      by (rule peer_create_ok [OF _ _ that]) (use assms(1) kernel_okD(1) [OF assms(2), of wg] in \<open>simp_all add: env_def\<close>)
    then show "config_ok (conf v)" by simp
    show "(\<exists>e. x = Inl e) \<or> (\<exists>p. x = Inr p \<and>
      (\<exists>r w. update_peer u ce env attrs psk flags p (get_peer_ref p v) = Some (r, w) \<and> config_ok (conf w)))"
      using ok update_peer_ok [of "get_peer_ref p v" p ce for p, OF _ _ assms(2)]
      by (cases x) (auto simp: get_peer_ref_def)
  qed
  show ?thesis
    unfolding set_peer_def env_def [symmetric] Let_def
    using assms(1) by (auto dest: found create split: option.split prod.split sum.split)
qed

lemma set_peers_ok:
  assumes "config_ok (conf wg)" "\<And>n. kernel_ok (ce n)"
  shows "\<exists>r w. set_peers u ce n xs wg = Some (r, w) \<and> config_ok (conf w)"
  using assms(1)
proof (induction xs arbitrary: n wg)
  case Nil
  then show ?case by simp
next
  case (Cons x xs)
  show ?case
  proof (cases x)
    case (Inl e)
    then show ?thesis using Cons.prems by simp
  next
    case (Inr attrs)
    from set_peer_ok [OF Cons.prems assms(2)] obtain r w where
      r: "set_peer u (ce n) attrs wg = Some (r, w)" "config_ok (conf w)" by blast
    then show ?thesis using Inr Cons.IH [of w "n + 1"] by auto
  qed
qed

lemma conf_identity [simp]: "conf (wg\<lparr>dv_static_identity := si\<rparr>) = (conf wg)\<lparr>cf_identity := si\<rparr>"
  by (simp add: conf_def)

lemma config_ok_identity [simp]: "config_ok (c\<lparr>cf_identity := si\<rparr>) = config_ok c"
  by (simp add: config_ok_def)

lemma set_private_key_ok:
  assumes "config_ok (conf wg)" "kernel_ok ce"
  shows "config_ok (conf (set_private_key ce k wg))"
proof -
  define env where "env = c_env ce wg"
  have rm: "config_ok (conf (wg_peer_remove (c_net ce) (c_waits ce p) (Some p) (wg_peer_put (Some p) (wg\<lparr>dv_refs := refs'\<rparr>))))"
    if "wg_pubkey_hashtable_lookup (siphash env) (remote_static_of wg) (dv_peer_hashtable wg) (dv_refs wg) pub = (Some p, refs')"
    for p pub refs'
    by (rule peer_remove_ok [OF _ _ assms(2)]) (use assms(1) lookup_listed [OF assms(1) that] in simp_all)
  show ?thesis
    unfolding set_private_key_def env_def [symmetric] Let_def
    using assms(1) by (auto simp: conf_foldl dest: rm split: option.split prod.split)
qed

lemma set_device_ok:
  assumes "config_ok (conf wg)" "\<And>n. kernel_ok (ce n)"
  shows "\<exists>r w. set_device u ce attrs wg = Some (r, w) \<and> config_ok (conf w)"
proof -
  define flags where "flags = (case da_flags attrs of None \<Rightarrow> 0 | Some f \<Rightarrow> f)"
  define x where "x = (case da_fwmark attrs of
      None \<Rightarrow> wg\<lparr>dv_device_update_gen := dv_device_update_gen wg + 1\<rparr>
    | Some m \<Rightarrow> clear_sources (wg\<lparr>dv_device_update_gen := dv_device_update_gen wg + 1, dv_fwmark := m\<rparr>))"
  obtain r y where y: "(case da_listen_port attrs of None \<Rightarrow> (None, x) | Some port \<Rightarrow> set_port (c_env (ce 0) wg) port x) = (r, y)"
    by fastforce
  have "conf x = conf wg" by (simp add: x_def split: option.split)
  moreover have "conf (snd (r, y)) = conf x" unfolding y [symmetric] by (simp split: option.split)
  ultimately have ok: "config_ok (conf y)" using assms(1) by simp
  obtain z where z: "(if flags AND WGDEVICE_F_REPLACE_PEERS u \<noteq> 0 then wg_peer_remove_all (c_net (ce 0)) (c_waits (ce 0)) y else Some y) = Some z"
    "config_ok (conf z)"
    using remove_all_ok [OF ok assms(2) [of 0]] ok by (cases "flags AND WGDEVICE_F_REPLACE_PEERS u = 0") auto
  define v where "v = (case da_private_key attrs of
     None \<Rightarrow> z | Some k \<Rightarrow> if length k = NOISE_PUBLIC_KEY_LEN then set_private_key (ce 0) k z else z)"
  have v: "config_ok (conf v)"
    using z(2) set_private_key_ok [OF z(2) assms(2)] by (auto simp: v_def split: option.split)
  obtain s w where w: "set_peers u ce 1 (case da_peers attrs of None \<Rightarrow> [] | Some l \<Rightarrow> l) v = Some (s, w)" "config_ok (conf w)"
    using set_peers_ok [OF v, of ce] assms(2) by blast
  have "set_device u ce attrs wg =
    (if flags AND NOT (WGDEVICE_F_ALL u) \<noteq> 0 then Some (Some EOPNOTSUPP, wg)
     else if (da_listen_port attrs \<noteq> None \<or> da_fwmark attrs \<noteq> None) \<and> (dv_creating_net wg = None \<or> \<not> e_capable (c_env (ce 0) wg))
     then Some (Some EPERM, wg) else if r \<noteq> None then Some (r, y) else Some (s, w))"
    unfolding set_device_def Let_def unfolding flags_def [symmetric] x_def [symmetric]
    unfolding y prod.case z(1) Option.bind_lunit unfolding v_def [symmetric] w(1) by (rule refl)
  then show ?thesis using assms(1) ok w(2) by simp
qed

section \<open>The life of an interface\<close>

lemma conf_requests: "conf (snd (snd (alloc_requests reqs ls))) = conf (snd ls)"
  by (induction reqs arbitrary: ls) (auto simp: wg_free_aes_percpu_def split: option.split)

lemma conf_unwind [simp]:
  "conf (snd (release x ls)) = conf (snd ls)"
  "conf (snd (wg_free_aes_percpu ls)) = conf (snd ls)"
  "conf (snd (free_encrypt_queue ls)) = conf (snd ls)"
  "conf (snd (free_decrypt_queue ls)) = conf (snd ls)"
  "conf (snd (free_handshake_queue b ls)) = conf (snd ls)"
  "conf (snd (uninit_ratelimiter env ls)) = conf (snd ls)"
  "conf (snd (snd (wg_init_aes_percpu l ls))) = conf (snd ls)"
  by (simp_all add: release_def wg_free_aes_percpu_def free_encrypt_queue_def free_decrypt_queue_def free_handshake_queue_def
      uninit_ratelimiter_def wg_init_aes_percpu_def conf_requests split: option.split)

lemma newlink_register_conf: "newlink_register env l ls = (None, ls') \<Longrightarrow> conf (snd ls') = conf (snd ls)"
  using conf_unwind(7) [of l ls]
  by (auto simp: newlink_register_def Let_def simp del: conf_unwind(7) split: prod.splits if_splits option.splits)

lemma newlink_queues_conf: "newlink_queues env l ls = (None, ls') \<Longrightarrow> conf (snd ls') = conf (snd ls)"
  by (auto simp: newlink_queues_def Let_def split: prod.splits if_splits dest: newlink_register_conf)

lemma newlink_ok:
  assumes "wg_newlink env l net (held, v) = (None, held', w)" "blank l v"
  shows "config_ok (conf w)"
proof -
  obtain t where t: "l_peer_table l = Some t"
    using assms(1) by (auto simp: wg_newlink_def wg_pubkey_hashtable_alloc_def Let_def split: option.splits)
  have "conf w = conf ((init_link env net v)\<lparr>dv_peer_hashtable := t\<lparr>ph_key := l_table_key l, ph_hashtable := hash_init (ph_hashtable t)\<rparr>\<rparr>)"
    using assms(1) t
    by (auto simp: wg_newlink_def wg_pubkey_hashtable_alloc_def Let_def split: option.splits if_splits dest!: newlink_queues_conf)
  moreover have "wg_allowedips_init (dv_peer_allowedips v) = empty_table"
    using assms(2) by (cases "dv_peer_allowedips v") (simp add: blank_def empty_table_def wg_allowedips_init_def)
  ultimately show ?thesis
    using assms(2) t empty_table_ok
    by (simp add: config_ok_def conf_def init_link_def blank_def hash_init_def hlists_ok_def allowed_entries_def empty_table_def
        wg_allowedips_init_def)
qed

lemma release_ok: "config_ok (conf wg) \<Longrightarrow> config_ok (conf (snd (rcu_release p wg)))"
  by (auto simp: config_ok_def rcu_release_def zero_peer_def)

lemma callback_conf [simp]: "conf (rcu_keypair_callback k wg) = conf wg"
  by (rule conf_frame) simp

lemma finish_rcu_ok:
  assumes "config_ok (conf wg)"
  shows "config_ok (conf (finish_rcu wg))"
proof -
  have *: "config_ok (conf v) \<Longrightarrow> config_ok (conf (foldl (\<lambda>wg p. snd (rcu_release p wg)) v ps))" for v ps
    by (induction ps arbitrary: v) (simp_all add: release_ok)
  show ?thesis using assms by (simp add: finish_rcu_def * conf_foldl Let_def)
qed

lemma conf_timers_stop [simp]: "conf (wg_timers_stop r wg) = conf wg"
  by (simp add: wg_timers_stop_def wg_queued_expired_zero_key_material_def del_timer_def conf_peer peer_ident_def Let_def)

lemma conf_device [simp]:
  "conf (open_peer env wg p) = conf wg"
  "conf (snd (wg_open env wg)) = conf wg"
  "conf (stop_peer env wg p) = conf wg"
  "conf (wg_stop env wg) = conf wg"
  "conf (pm_clear_peer wg p) = conf wg"
  "conf (wg_get_device_done wg dc) = conf wg"
  "conf (fst (snd (wg_get_device_dump fits i name wg dc))) = conf wg"
proof -
  show op: "conf (open_peer env wg p) = conf wg" for wg p
    by (simp add: open_peer_def Let_def)
  show "conf (snd (wg_open env wg)) = conf wg"
    using conf_socket_init [of env "dv_incoming_port wg" wg]
    by (simp add: wg_open_def conf_foldl op Let_def case_prod_beta)
  show sp: "conf (stop_peer env wg p) = conf wg" for wg p
    by (simp add: stop_peer_def Let_def)
  show "conf (wg_stop env wg) = conf wg" by (simp add: wg_stop_def conf_foldl sp Let_def)
  show "conf (pm_clear_peer wg p) = conf wg" by (simp add: pm_clear_peer_def)
  show "conf (wg_get_device_done wg dc) = conf wg" by (simp add: wg_get_device_done_def)
  show "conf (fst (snd (wg_get_device_dump fits i name wg dc))) = conf wg"
    by (simp add: wg_get_device_dump_def Let_def split: option.split prod.split)
qed

lemma managed_ok: "managed wg \<Longrightarrow> config_ok (conf wg)"
proof (induction rule: managed.induct)
  case (created env l net held v held' w)
  then show ?case by (rule newlink_ok)
next
  case (opened v env ret w)
  then show ?case using conf_device(2) [of env v] by (simp del: conf_device)
next
  case (suspended v autosleep action w)
  then show ?case by (auto simp: wg_pm_notification_def conf_foldl finish_rcu_ok split: if_splits)
next
  case (namespace_exit v net w)
  then show ?case by (auto simp: wg_netns_pre_exit_def conf_foldl Let_def split: if_splits)
next
  case (dumped v fits i name dc reply w dc')
  then show ?case using conf_device(7) [of fits i name v dc] by (simp del: conf_device)
next
  case (configured v ce u attrs ret w)
  then show ?case using set_device_ok [of v ce u attrs] by auto
qed (simp_all add: live_conf finish_rcu_ok)

text \<open>
  C40. The tables of an interface always agree. In every state between creation and destruction
  of an interface the configuration is well formed: the list of peers has no duplicates and
  as many elements as the counter says, at most \<^verbatim>\<open>MAX_PEERS_PER_DEVICE\<close>; a peer is linked in the table of public
  keys exactly if it is in the list; the allowed addresses form valid tries whose entries
  belong to peers of the list; and no peer of the list is dead. Every request of
  \<^verbatim>\<open>wg_set_device\<close>, whatever its attributes and wherever it fails, returns and leaves a
  well-formed configuration.
\<close>

theorem configuration_well_formed:
  assumes "managed wg" "\<And>n. kernel_ok (ce n)"
  shows "config_ok (conf wg) \<and> (\<exists>ret wg'. set_device u ce attrs wg = Some (ret, wg') \<and> config_ok (conf wg'))"
  using managed_ok [OF assms(1)] set_device_ok [of wg ce u attrs] assms(2) by blast

lemma demo_kernel_ok: "kernel_ok demo_kernel"
proof -
  have "sum_list xs + 1 \<notin> set xs" for xs :: "nat list"
    using member_le_sum_list [of "sum_list xs + 1" xs] by auto
  then show ?thesis by (simp add: kernel_ok_def demo_kernel_def fresh_mem_def live.stop)
qed

lemma demo_new_managed: "managed demo_new"
proof (rule managed.created)
  show "blank demo_link ((demo_device [])\<lparr>dv_static_identity := zero_identity, dv_running := False\<rparr>)"
    by (simp add: blank_def demo_link_def demo_device_def wg_allowedips_init_def)
  show "wg_newlink demo_env demo_link 1 ([], (demo_device [])\<lparr>dv_static_identity := zero_identity, dv_running := False\<rparr>) =
    (None, fst (snd (wg_newlink demo_env demo_link 1 ([], (demo_device [])\<lparr>dv_static_identity := zero_identity, dv_running := False\<rparr>))), demo_new)"
    unfolding demo_new_def prod.collapse by (rule prod_eqI) (code_simp, simp)
qed

theorem configuration_well_formed_witness:
  "config_ok (conf demo_new) \<and>
   (\<exists>ret wg'. set_device demo_uapi (\<lambda>_. demo_kernel) demo_request demo_new = Some (ret, wg') \<and> config_ok (conf wg'))"
  using configuration_well_formed [OF demo_new_managed demo_kernel_ok] .

end
