(* ===== verification/Spec2Isabelle.thy ===== *)
theory Spec2Isabelle
  imports WG_Netlink
begin

text \<open>
  A model of the WireGuard driver with AES-256-GCM, \<^verbatim>\<open>src/wireguard-5.15-aes/\<close>, and its correctness.

  \<^bold>\<open>The program.\<close> The driver is a network interface of the Linux kernel that tunnels IP packets in
  UDP. Every interface has peers, each known by its public key. The network core hands
  outgoing packets to \<^verbatim>\<open>wg_xmit\<close> (\<^verbatim>\<open>device.c\<close>), which finds the peer of the destination address in
  the tries of allowed addresses (\<^verbatim>\<open>allowedips.c\<close>) and stages the packet. If there is no valid
  session, a Noise_IKpsk2 handshake is started (\<^verbatim>\<open>noise.c\<close>, with the cookies and MACs of \<^verbatim>\<open>cookie.c\<close>);
  otherwise the packets get nonces, are encrypted by workers on all CPUs and sent in the
  order of their nonces (\<^verbatim>\<open>send.c\<close>, \<^verbatim>\<open>queueing.c\<close>, \<^verbatim>\<open>socket.c\<close>). A received UDP packet is validated; handshake
  messages go through the load check, the rate limiter (\<^verbatim>\<open>ratelimiter.c\<close>) and the handshake, data is
  found by its session index (\<^verbatim>\<open>peerlookup.c\<close>), decrypted by workers, and then checked in order
  against the replay window and the allowed source addresses (\<^verbatim>\<open>receive.c\<close>). Timers (\<^verbatim>\<open>timers.c\<close>) start
  handshakes and keepalives and erase keys. Peers are created and removed by requests over
  generic netlink (\<^verbatim>\<open>netlink.c\<close>, \<^verbatim>\<open>peer.c\<close>). Data is encrypted with AES-256-GCM through the kernel's crypto
  API, or with ChaCha20-Poly1305 if the former cannot be allocated when the interface is
  created.

  \<^bold>\<open>State.\<close> One interface is the record \<open>wg_device\<close> of \<^verbatim>\<open>WG_State\<close>: the members of \<^verbatim>\<open>struct wg_device\<close>, the
  objects it refers to as maps from their addresses (peers, keypairs, transforms, batches in
  the queues), their reference counts and pending grace periods, and what was sent and
  delivered. Integers have the width of the C declaration, on a little-endian 64-bit
  platform. Functions of the driver take the state and return it. Pointers that may be null
  are options, error codes are values of \<open>errno\<close>, results that carry either are sums. What a call
  gets from the rest of the kernel is the record \<open>env\<close>: the cryptographic functions, clocks, random
  numbers, results of allocations, routing and operations on buffers. Nothing is assumed of it
  unless a theorem says so, by named laws such as \<open>dh_commutes\<close> or \<open>aead_correct\<close>; \<^verbatim>\<open>WG_Instances\<close> has a
  concrete environment that satisfies them.

  \<^bold>\<open>Concurrency.\<close> A function that holds its locks throughout is one step. Where it drops a lock or
  waits, an argument says what the others did meanwhile (\<open>between\<close>, the record \<open>waits\<close>), and theorems
  quantify over it. The lock-free queue is in addition a step relation over single memory
  accesses; the unlocked search for an index takes what other CPUs did between its draws; the
  lookup in the tries reads a sequence of tables. Safety properties are stated over runs, which
  are inductive relations over the operations in any order.

  \<^bold>\<open>Theories and what they show.\<close>

  \<^item> \<^verbatim>\<open>WG_Prelude\<close>, \<^verbatim>\<open>WG_Bits\<close>, \<^verbatim>\<open>WG_Skb\<close>, \<^verbatim>\<open>WG_PeerRef\<close>: words, byte order and bit scans, views of packets,
    reference counts.

  \<^item> \<^verbatim>\<open>WG_Counter\<close> (the replay filter of \<^verbatim>\<open>receive.c\<close> and \<^verbatim>\<open>noise.h\<close>): the bitmap refines the set of accepted
    counters of a sliding window (C1), no counter is accepted twice (C2), and exactly the
    counters of the abstract window are accepted (C3). The interface is the locale
    \<open>replay_filter\<close>.

  \<^item> \<^verbatim>\<open>WG_Trie\<close>, \<^verbatim>\<open>WG_AllowedIPs\<close>, \<^verbatim>\<open>WG_AllowedIPs_Rep\<close>, \<^verbatim>\<open>WG_AllowedIPs_Insert\<close>, \<^verbatim>\<open>WG_AllowedIPs_Remove\<close>, \<^verbatim>\<open>WG_AllowedIPs_Spec\<close>
    (\<^verbatim>\<open>allowedips.c\<close>): the pointer structure represents prefix trees, whose entries are a set of prefixes.
    Lookup gives the longest matching prefix (C4), insertion and removal change the set by
    exactly the given entries (C5, C6), freeing ends within the stack of 129 nodes (C7), nodes
    are read back (C8), inserted hosts are routed and removed peers never found (C9, C10).
    The locale \<open>routing_table\<close> is interpreted for both address families.

  \<^item> \<^verbatim>\<open>WG_Ratelimiter\<close> (\<^verbatim>\<open>ratelimiter.c\<close>): the rate of one source is bounded (C11), so is the memory (C12), setup
    and teardown release what they acquire (C13).

  \<^item> \<^verbatim>\<open>WG_Messages\<close> (\<^verbatim>\<open>messages.h\<close>): constants, message structures and their layout (C14).

  \<^item> \<^verbatim>\<open>WG_Peerlookup\<close> (\<^verbatim>\<open>peerlookup.c\<close>): both tables satisfy the locale \<open>keyed_table\<close>; indices stay unique under
    interference (C15), the search for one ends (C16), replacement is atomic (C17), and lookups
    take a reference to exactly the linked entry (C18).

  \<^item> \<^verbatim>\<open>WG_Queueing\<close>, \<^verbatim>\<open>WG_Packets\<close> (\<^verbatim>\<open>queueing.c\<close>, \<^verbatim>\<open>queueing.h\<close>): the per-peer queue is first-in first-out under every
    interleaving (C19) and refines a bounded list (C20, locale \<open>fifo\<close>); rings, choice of CPUs,
    and handing packets from one queue to the next.

  \<^item> \<^verbatim>\<open>WG_State\<close>, \<^verbatim>\<open>WG_Instances\<close>: the records of \<^verbatim>\<open>noise.h\<close>, \<^verbatim>\<open>cookie.h\<close>, \<^verbatim>\<open>peer.h\<close> and \<^verbatim>\<open>device.h\<close>, the environment, zeroed
    objects, the laws of the library and concrete instances.

  \<^item> \<^verbatim>\<open>WG_Cookie\<close> (\<^verbatim>\<open>cookie.c\<close>): an exchange of a cookie completes (C21), and the outcomes of the check of the
    MACs (C22).

  \<^item> \<^verbatim>\<open>WG_Noise\<close>, \<^verbatim>\<open>WG_Handshake\<close>, \<^verbatim>\<open>WG_NoiseRuns\<close>, \<^verbatim>\<open>WG_Keypairs\<close> (\<^verbatim>\<open>noise.c\<close>): two interfaces derive matching keys (C23),
    an initiation is accepted at most once (C24), messages and sessions follow the order of
    the protocol (C25), references of keypairs are exact (C26), the session has the derived
    keys also in its transforms (C27), and which transforms a failing start of a session
    releases (C28).

  \<^item> \<^verbatim>\<open>WG_Socket\<close> (\<^verbatim>\<open>socket.c\<close>): replies go to the address last learned (C29), opening the sockets is all or
    nothing (C30).

  \<^item> \<^verbatim>\<open>WG_Timers\<close>, \<^verbatim>\<open>WG_TimerHandlers\<close> (\<^verbatim>\<open>timers.c\<close>): retries of a handshake are bounded (C34).

  \<^item> \<^verbatim>\<open>WG_Send\<close> (\<^verbatim>\<open>send.c\<close>): padding (C31), nonces never repeat (C32), transmission in order (C33).

  \<^item> \<^verbatim>\<open>WG_Receive\<close> (\<^verbatim>\<open>receive.c\<close>): the check of the headers (C35), what is delivered (C36), and decryption undoing
    encryption across the two sides (C37).

  \<^item> \<^verbatim>\<open>WG_Peer\<close> (\<^verbatim>\<open>peer.c\<close>): a removed peer stays removed, whatever packets, timers and workers still do (C38).
    The relation \<open>live\<close> has every operation that runs beside the configuration, and \<open>conf\<close> is the
    part of the state that none of them changes.

  \<^item> \<^verbatim>\<open>WG_Xmit\<close>, \<^verbatim>\<open>WG_Device\<close> (\<^verbatim>\<open>device.c\<close>, \<^verbatim>\<open>main.c\<close>): transmission, and the life of an interface; creation either succeeds or releases what it acquired, apart from one
    path (C39).

  \<^item> \<^verbatim>\<open>WG_Netlink\<close> (\<^verbatim>\<open>netlink.c\<close>): in every state of an interface between creation and destruction its tables
    agree, and every request keeps this (C40). The relation \<open>managed\<close> composes all components.

  \<^bold>\<open>Loops and bounds.\<close> The loops of \<^verbatim>\<open>allowedips.c\<close> that follow pointers are partial functions, and that they
  return on every table that satisfies the invariant is part of C4 to C7. The retry loop of
  \<^verbatim>\<open>wg_socket_init\<close> is a total function with at most 101 rounds. A loop that draws random numbers, or that
  runs until a queue is empty, takes the list of what each round sees; \<open>None\<close> means that the list
  was too short. That the search for an index ends is C16, and that the transmission worker
  returns when it has an environment for every batch in its queue is part of C33. Safety
  statements about the other workers hold for every list on which they return.

  \<^bold>\<open>Not modelled.\<close> The cryptographic primitives, routing, UDP, the allocators and the parsing of netlink
  messages are code of the kernel and appear as parameters. Memory ordering below the level
  of single accesses (barriers) is not modelled; RCU is modelled by grace periods that end at
  some later step. One function that holds its locks is one step, so races between functions
  that share data without a lock are covered only where stated above; in particular each
  crypto worker has its request for the whole of a packet. Checksum offload, GSO and the
  statistics of the network core appear only as far as the driver sets them. Wiping of
  temporaries on the stack (\<^verbatim>\<open>memzero_explicit\<close>), log messages, lock debugging, the options of sockets, the flags
  and features of the network device that only the network core reads, and the creation of
  slab caches have no counterpart in the state. The tests in \<^verbatim>\<open>selftest/\<close>, the older copies of the
  driver (the files directly under \<^verbatim>\<open>src/\<close> and \<^verbatim>\<open>src/wireguard-5.15.55/\<close>), and the scripts for building and
  measuring are left out: the first only call functions that are modelled, the second are
  earlier states of the same program, the last are not part of the driver.
\<close>

end
